(* ===== verification/Prelude.thy ===== *)
theory Prelude
  imports Complex_Main "HOL-Library.AList" "HOL-Library.Char_ord" "HOL-Library.List_Lexorder"
    "HOL-Library.Multiset"
begin

text \<open>
  Shared vocabulary of the development.

  \<^item> JavaScript numbers that hold times, intervals and scores are exact rationals
    (\<open>number\<close>); counters that the code only increments are \<open>int\<close> or \<open>nat\<close>.
  \<^item> A JavaScript \<open>Map\<close> iterates in insertion order, and setting an existing key keeps
    its place. An association list with \<open>AList.update\<close> and \<open>AList.delete\<close> has
    exactly these laws (\<open>jsmap\<close>). A JavaScript \<open>Set\<close> is a list without repetitions.
  \<^item> Strings are Isabelle strings: one \<open>char\<close> per code unit. The code lines modelled
    here compare, slice and fold case on ASCII text only.
  \<^item> Two interfaces are stated as locales: \<open>keyed_store\<close> (a map of per-key records and the
    operations that touch one key each) and \<open>invariant_system\<close> (a step relation with an
    inductive invariant). The components interpret them on their own definitions.
\<close>

type_synonym number = rat
type_synonym ('k, 'v) jsmap = "('k \<times> 'v) list"

named_theorems model_defs \<open>definitions of small helpers, unfolded by most proofs\<close>

section \<open>Ordered maps\<close>

abbreviation js_get :: "('k, 'v) jsmap \<Rightarrow> 'k \<Rightarrow> 'v option" where
  "js_get m k \<equiv> map_of m k"

abbreviation js_set :: "'k \<Rightarrow> 'v \<Rightarrow> ('k, 'v) jsmap \<Rightarrow> ('k, 'v) jsmap" where
  "js_set \<equiv> AList.update"

abbreviation js_delete :: "'k \<Rightarrow> ('k, 'v) jsmap \<Rightarrow> ('k, 'v) jsmap" where
  "js_delete \<equiv> AList.delete"

definition js_keys :: "('k, 'v) jsmap \<Rightarrow> 'k list" where
  [model_defs]: "js_keys m = map fst m"

definition js_values :: "('k, 'v) jsmap \<Rightarrow> 'v list" where
  [model_defs]: "js_values m = map snd m"

definition js_wf :: "('k, 'v) jsmap \<Rightarrow> bool" where
  "js_wf m \<longleftrightarrow> distinct (map fst m)"

lemma js_wf_Nil [simp]: "js_wf []"
  by (simp add: js_wf_def)

lemma js_wf_set [simp, intro]: "js_wf m \<Longrightarrow> js_wf (js_set k v m)"
  by (simp add: js_wf_def distinct_update)

lemma js_wf_delete [simp, intro]: "js_wf m \<Longrightarrow> js_wf (js_delete k m)"
  by (simp add: js_wf_def distinct_delete)

lemma js_get_set [simp]: "js_get (js_set k v m) k' = (if k' = k then Some v else js_get m k')"
  by (simp add: update_conv')

lemma js_get_delete [simp]: "js_get (js_delete k m) k' = (if k' = k then None else js_get m k')"
  by (simp add: delete_conv')

lemma js_get_in_set: "js_wf m \<Longrightarrow> js_get m k = Some v \<longleftrightarrow> (k, v) \<in> set m"
  by (simp add: js_wf_def map_of_eq_Some_iff)

lemma js_delete_length: "js_wf m \<Longrightarrow> js_get m k = Some v \<Longrightarrow> Suc (length (js_delete k m)) = length m"
proof (induction m)
  case (Cons p m)
  show ?case
  proof (cases "fst p = k")
    case True
    with Cons.prems have "k \<notin> fst ` set m" by (auto simp: js_wf_def)
    then have "js_delete k m = m" by (simp add: delete_id)
    with True show ?thesis by (cases p) simp
  next
    case False
    with Cons show ?thesis by (cases p) (auto simp: js_wf_def)
  qed
qed simp

lemma js_set_length: "length (js_set k v m) = (if js_get m k = None then Suc (length m) else length m)"
  by (induction m) auto

lemma js_set_subset: "set (js_set k v m) \<subseteq> insert (k, v) (set m)"
  by (induction m) auto

lemma js_delete_filter: "js_delete k m = filter (\<lambda>p. fst p \<noteq> k) m"
  by (induction m) auto

lemma js_delete_subset: "set (js_delete k m) \<subseteq> set m"
  by (auto simp: js_delete_filter)

lemma js_delete_mset:
  "js_wf m \<Longrightarrow> js_get m k = Some v \<Longrightarrow> mset m = add_mset (k, v) (mset (js_delete k m))"
proof (induction m)
  case (Cons p m)
  show ?case
  proof (cases "fst p = k")
    case True
    with Cons.prems have "k \<notin> fst ` set m" by (auto simp: js_wf_def)
    then have "js_delete k m = m" by (simp add: delete_id)
    with True Cons.prems show ?thesis by (cases p) simp
  next
    case False
    with Cons show ?thesis by (cases p) (auto simp: js_wf_def)
  qed
qed simp

lemma js_set_new: "js_get m k = None \<Longrightarrow> js_set k v m = m @ [(k, v)]"
  by (induction m) (auto split: if_splits)

lemma js_get_None_iff: "js_get m k = None \<longleftrightarrow> k \<notin> fst ` set m"
  by (simp add: map_of_eq_None_iff)

section \<open>Results\<close>

text \<open>A thrown error is \<open>Inl\<close>; the calls below name the sequencing of statements that may throw.\<close>

definition bindE :: "('e + 'a) \<Rightarrow> ('a \<Rightarrow> 'e + 'b) \<Rightarrow> 'e + 'b" where
  "bindE r f = (case r of Inl e \<Rightarrow> Inl e | Inr a \<Rightarrow> f a)"

definition assertE :: "bool \<Rightarrow> 'e \<Rightarrow> 'e + unit" where
  "assertE c e = (if c then Inr () else Inl e)"

lemma bindE_simps [simp]:
  "bindE (Inl e) f = Inl e"
  "bindE (Inr a) f = f a"
  by (simp_all add: bindE_def)

lemma bindE_Inr_iff: "bindE r f = Inr b \<longleftrightarrow> (\<exists>a. r = Inr a \<and> f a = Inr b)"
  by (cases r) auto

lemma bindE_Inl_iff: "bindE r f = Inl e \<longleftrightarrow> r = Inl e \<or> (\<exists>a. r = Inr a \<and> f a = Inl e)"
  by (cases r) auto

lemma assertE_simps [simp]:
  "assertE True e = Inr ()"
  "assertE False e = Inl e"
  "assertE c e = Inr u \<longleftrightarrow> c"
  "assertE c e = Inl e' \<longleftrightarrow> \<not> c \<and> e' = e"
  by (auto simp: assertE_def)

section \<open>Strings\<close>

definition to_lower_char :: "char \<Rightarrow> char" where
  [model_defs]: "to_lower_char c =
     (if CHR ''A'' \<le> c \<and> c \<le> CHR ''Z'' then char_of (of_char c + 32 :: nat) else c)"

definition to_lower :: "string \<Rightarrow> string" where
  [model_defs]: "to_lower s = map to_lower_char s"

definition to_upper_char :: "char \<Rightarrow> char" where
  [model_defs]: "to_upper_char c =
     (if CHR ''a'' \<le> c \<and> c \<le> CHR ''z'' then char_of (of_char c - 32 :: nat) else c)"

definition to_upper :: "string \<Rightarrow> string" where
  [model_defs]: "to_upper s = map to_upper_char s"

definition is_space :: "char \<Rightarrow> bool" where
  [model_defs]: "is_space c \<longleftrightarrow> c \<in> {CHR '' '', CHR 0x09, CHR 0x0A, CHR 0x0B, CHR 0x0C, CHR 0x0D, CHR 0xA0}"

definition trim :: "string \<Rightarrow> string" where
  [model_defs]: "trim s = rev (dropWhile is_space (rev (dropWhile is_space s)))"

definition starts_with :: "string \<Rightarrow> string \<Rightarrow> bool" where
  [model_defs]: "starts_with p s \<longleftrightarrow> take (length p) s = p"

definition ends_with :: "string \<Rightarrow> string \<Rightarrow> bool" where
  [model_defs]: "ends_with p s \<longleftrightarrow> length p \<le> length s \<and> drop (length s - length p) s = p"

fun join_with :: "string \<Rightarrow> string list \<Rightarrow> string" where
  "join_with sep [] = []"
| "join_with sep [x] = x"
| "join_with sep (x # y # xs) = x @ sep @ join_with sep (y # xs)"

lemma starts_with_iff: "starts_with p s \<longleftrightarrow> (\<exists>r. s = p @ r)"
  by (metis starts_with_def append_take_drop_id append_eq_conv_conj)

section \<open>Operations that touch one key\<close>

text \<open>
  A component that keeps one record per account (or session, or lock) in a map: every operation
  names its key, reads and writes the record of that key only (and configuration that no operation
  writes). The locale derives that in any interleaving each key sees the answers, and is left in the
  state, that its own operations alone produce.
\<close>

fun run_ops :: "('k \<Rightarrow> 'i \<Rightarrow> 's \<Rightarrow> 'o \<times> 's) \<Rightarrow> ('k \<times> 'i) list \<Rightarrow> 's \<Rightarrow> ('k \<times> 'o) list \<times> 's" where
  "run_ops f [] s = ([], s)"
| "run_ops f ((k, i) # ops) s =
     (let (out, s') = f k i s; (outs, s'') = run_ops f ops s' in ((k, out) # outs, s''))"

locale keyed_store =
  fixes op :: "'k \<Rightarrow> 'i \<Rightarrow> 's \<Rightarrow> 'o \<times> 's"
    and view :: "'s \<Rightarrow> 'k \<Rightarrow> 'v"
  assumes op_frame: "k \<noteq> k' \<Longrightarrow> view (snd (op k i s)) k' = view s k'"
    and op_local: "view s k = view t k \<Longrightarrow> view (snd (op k i s)) k = view (snd (op k i t)) k"
    and op_answer: "view s k = view t k \<Longrightarrow> fst (op k i s) = fst (op k i t)"
begin

lemma run_own_key:
  "view s k = view t k \<Longrightarrow>
   view (snd (run_ops op ops s)) k = view (snd (run_ops op (filter (\<lambda>p. fst p = k) ops) t)) k \<and>
   filter (\<lambda>p. fst p = k) (fst (run_ops op ops s)) = fst (run_ops op (filter (\<lambda>p. fst p = k) ops) t)"
proof (induction ops arbitrary: s t)
  case (Cons p ops)
  obtain k' i where p: "p = (k', i)" by (cases p)
  show ?case
  proof (cases "k' = k")
    case True
    have "view (snd (op k i s)) k = view (snd (op k i t)) k" using Cons.prems by (rule op_local)
    from Cons.IH [OF this] show ?thesis
      using p True op_answer [OF Cons.prems, of i] by (simp add: split_beta Let_def)
  next
    case False
    have "view (snd (op k' i s)) k = view t k" using False Cons.prems by (simp add: op_frame)
    from Cons.IH [OF this] show ?thesis using p False by (simp add: split_beta Let_def)
  qed
qed simp

lemmas run_isolated = run_own_key [OF refl, THEN conjunct1]
lemmas answers_isolated = run_own_key [OF refl, THEN conjunct2]

end

section \<open>Step relations\<close>

inductive reachable :: "('s \<Rightarrow> bool) \<Rightarrow> ('s \<Rightarrow> 's \<Rightarrow> bool) \<Rightarrow> 's \<Rightarrow> bool"
  for init :: "'s \<Rightarrow> bool" and step :: "'s \<Rightarrow> 's \<Rightarrow> bool" where
  reach_init: "init s \<Longrightarrow> reachable init step s"
| reach_step: "reachable init step s \<Longrightarrow> step s t \<Longrightarrow> reachable init step t"

locale invariant_system =
  fixes init :: "'s \<Rightarrow> bool"
    and step :: "'s \<Rightarrow> 's \<Rightarrow> bool"
    and inv :: "'s \<Rightarrow> bool"
  assumes inv_init: "init s \<Longrightarrow> inv s"
    and inv_step: "inv s \<Longrightarrow> step s t \<Longrightarrow> inv t"
begin

lemma reachable_inv: "reachable init step s \<Longrightarrow> inv s"
  by (induction rule: reachable.induct) (auto intro: inv_init inv_step)

lemma steps_inv: "step\<^sup>*\<^sup>* s t \<Longrightarrow> inv s \<Longrightarrow> inv t"
  by (induction rule: rtranclp_induct) (auto intro: inv_step)

end

end
