(* ===== verification/RateLimiter.thy ===== *)
theory RateLimiter
  imports Prelude
begin

text \<open>
  The send limiter (src/safety/rate-limiter.ts): one token bucket per account, refilled lazily from
  the time of the call. \<open>refill\<close>, \<open>tryConsume\<close> and \<open>remaining\<close> are the class's methods with
  \<open>Date.now()\<close> as the argument \<open>now\<close>; \<open>RateLimitError\<close> is the error the senders raise
  when \<open>tryConsume\<close> answers false (src/safety/rate-limit-error.ts). The lemmas show that
  buckets never leave \<open>0..maxTokens\<close>, that accounts do not interact, and how many sends any
  stretch of time admits.
\<close>

section \<open>Model\<close>

record bucket =
  tokens :: int
  lastRefill :: number

record limiter =
  buckets :: "(string, bucket) jsmap"
  maxTokens :: int
  windowMs :: int

definition new_limiter :: "int \<Rightarrow> limiter" where
  "new_limiter maxPerMinute = \<lparr>buckets = [], maxTokens = maxPerMinute, windowMs = 60000\<rparr>"

definition earned_tokens :: "int \<Rightarrow> int \<Rightarrow> bucket \<Rightarrow> number \<Rightarrow> int" where
  "earned_tokens mx w b now = \<lfloor>((now - lastRefill b) * of_int mx) / of_int w\<rfloor>"

definition refill_bucket :: "int \<Rightarrow> int \<Rightarrow> bucket \<Rightarrow> number \<Rightarrow> bucket" where
  "refill_bucket mx w b now =
     (let earned = earned_tokens mx w b now in
      if tokens b + earned \<ge> mx then \<lparr>tokens = mx, lastRefill = now\<rparr>
      else if earned > 0 then
        \<lparr>tokens = tokens b + earned,
         lastRefill = lastRefill b + (of_int earned * of_int w) / of_int mx\<rparr>
      else b)"

definition refill :: "string \<Rightarrow> number \<Rightarrow> limiter \<Rightarrow> bucket \<times> limiter" where
  "refill accountName now l =
     (let b = (case js_get (buckets l) accountName of
                 Some b \<Rightarrow> b | None \<Rightarrow> \<lparr>tokens = maxTokens l, lastRefill = now\<rparr>);
          nxt = refill_bucket (maxTokens l) (windowMs l) b now
      in (nxt, l\<lparr>buckets := js_set accountName nxt (buckets l)\<rparr>))"

definition tryConsume :: "string \<Rightarrow> number \<Rightarrow> limiter \<Rightarrow> bool \<times> limiter" where
  "tryConsume accountName now l =
     (let (b, l') = refill accountName now l in
      if tokens b > 0
      then (True, l'\<lparr>buckets := js_set accountName (b\<lparr>tokens := tokens b - 1\<rparr>) (buckets l')\<rparr>)
      else (False, l'))"

definition remaining :: "string \<Rightarrow> number \<Rightarrow> limiter \<Rightarrow> int \<times> limiter" where
  "remaining accountName now l =
     (if js_get (buckets l) accountName = None then (maxTokens l, l)
      else let (b, l') = refill accountName now l in (tokens b, l'))"

datatype send_error = RateLimitError string

definition guardSend :: "string \<Rightarrow> number \<Rightarrow> limiter \<Rightarrow> (send_error + unit) \<times> limiter" where
  "guardSend accountName now l =
     (case tryConsume accountName now l of
        (True, l') \<Rightarrow> (Inr (), l')
      | (False, l') \<Rightarrow> (Inl (RateLimitError accountName), l'))"

datatype limiter_call = TryConsume number | Remaining number

fun limiter_step :: "string \<Rightarrow> limiter_call \<Rightarrow> limiter \<Rightarrow> int \<times> limiter" where
  "limiter_step a (TryConsume now) l = (let (ok, l') = tryConsume a now l in (if ok then 1 else 0, l'))"
| "limiter_step a (Remaining now) l = remaining a now l"

text \<open>The calls an account makes, oldest first, and how many of them were admitted.\<close>

fun admitted :: "string \<Rightarrow> number list \<Rightarrow> limiter \<Rightarrow> nat" where
  "admitted a [] l = 0"
| "admitted a (t # ts) l =
     (let (ok, l') = tryConsume a t l in (if ok then 1 else 0) + admitted a ts l')"

section \<open>Bucket bounds\<close>

definition bucket_ok :: "int \<Rightarrow> bucket \<Rightarrow> bool" where
  "bucket_ok mx b \<longleftrightarrow> 0 \<le> tokens b \<and> tokens b \<le> mx"

definition limiter_ok :: "limiter \<Rightarrow> bool" where
  "limiter_ok l \<longleftrightarrow> 0 < maxTokens l \<and> 0 < windowMs l \<and> js_wf (buckets l) \<and>
     (\<forall>a b. js_get (buckets l) a = Some b \<longrightarrow> bucket_ok (maxTokens l) b)"

lemma new_limiter_ok: "0 < n \<Longrightarrow> limiter_ok (new_limiter n)"
  by (simp add: limiter_ok_def new_limiter_def)

lemma refill_bucket_ok: "0 < mx \<Longrightarrow> bucket_ok mx b \<Longrightarrow> bucket_ok mx (refill_bucket mx w b now)"
  by (auto simp: refill_bucket_def bucket_ok_def Let_def)

lemma refill_config [simp]:
  "maxTokens (snd (refill a now l)) = maxTokens l"
  "windowMs (snd (refill a now l)) = windowMs l"
  by (simp_all add: refill_def Let_def)

lemma tryConsume_config [simp]:
  "maxTokens (snd (tryConsume a now l)) = maxTokens l"
  "windowMs (snd (tryConsume a now l)) = windowMs l"
  by (simp_all add: tryConsume_def refill_def Let_def)

definition current_bucket :: "limiter \<Rightarrow> string \<Rightarrow> number \<Rightarrow> bucket" where
  "current_bucket l a now =
     refill_bucket (maxTokens l) (windowMs l)
       (case js_get (buckets l) a of Some b \<Rightarrow> b | None \<Rightarrow> \<lparr>tokens = maxTokens l, lastRefill = now\<rparr>) now"

lemma refill_eq:
  "refill a now l = (current_bucket l a now, l\<lparr>buckets := js_set a (current_bucket l a now) (buckets l)\<rparr>)"
  by (simp add: refill_def current_bucket_def Let_def)

lemma current_bucket_ok: "limiter_ok l \<Longrightarrow> bucket_ok (maxTokens l) (current_bucket l a now)"
  unfolding current_bucket_def
  by (rule refill_bucket_ok) (auto simp: limiter_ok_def bucket_ok_def split: option.split)

lemma tryConsume_eq:
  "tryConsume a now l =
     (let b = current_bucket l a now in
      if tokens b > 0 then (True, l\<lparr>buckets := js_set a (b\<lparr>tokens := tokens b - 1\<rparr>) (buckets l)\<rparr>)
      else (False, l\<lparr>buckets := js_set a b (buckets l)\<rparr>))"
  by (simp add: tryConsume_def refill_eq Let_def)

lemma limiter_ok_set:
  "limiter_ok l \<Longrightarrow> bucket_ok (maxTokens l) b \<Longrightarrow> limiter_ok (l\<lparr>buckets := js_set a b (buckets l)\<rparr>)"
  by (auto simp: limiter_ok_def)

lemma limiter_step_ok: "limiter_ok l \<Longrightarrow> limiter_ok (snd (limiter_step a c l))"
proof (cases c)
  case (TryConsume now)
  assume ok: "limiter_ok l"
  note cb = current_bucket_ok [OF ok, of a now]
  from cb have "tokens (current_bucket l a now) > 0 \<Longrightarrow>
      bucket_ok (maxTokens l) ((current_bucket l a now)\<lparr>tokens := tokens (current_bucket l a now) - 1\<rparr>)"
    by (simp add: bucket_ok_def)
  with TryConsume ok cb show ?thesis by (simp add: tryConsume_eq Let_def limiter_ok_set)
next
  case (Remaining now)
  assume ok: "limiter_ok l"
  with Remaining current_bucket_ok [OF ok, of a now] show ?thesis
    by (simp add: remaining_def refill_eq limiter_ok_set)
qed

section \<open>Accounts do not interact\<close>

definition bucket_view :: "limiter \<Rightarrow> string \<Rightarrow> bucket option \<times> int \<times> int" where
  "bucket_view l a = (js_get (buckets l) a, maxTokens l, windowMs l)"

lemma current_bucket_view:
  "bucket_view s k = bucket_view t k \<Longrightarrow> current_bucket s k now = current_bucket t k now"
  unfolding bucket_view_def current_bucket_def by (auto split: option.split)

interpretation buckets: keyed_store limiter_step bucket_view
proof unfold_locales
  fix k k' :: string and i s
  assume "k \<noteq> k'"
  then show "bucket_view (snd (limiter_step k i s)) k' = bucket_view s k'"
    by (cases i) (auto simp: bucket_view_def tryConsume_eq remaining_def refill_eq Let_def)
next
  fix s t :: limiter and k i
  assume same: "bucket_view s k = bucket_view t k"
  note cb = current_bucket_view [OF same]
  show "bucket_view (snd (limiter_step k i s)) k = bucket_view (snd (limiter_step k i t)) k"
    using same by (cases i) (auto simp: bucket_view_def tryConsume_eq remaining_def refill_eq Let_def cb [simplified])
  show "fst (limiter_step k i s) = fst (limiter_step k i t)"
    using same by (cases i) (auto simp: bucket_view_def tryConsume_eq remaining_def refill_eq Let_def cb [simplified])
qed

section \<open>How much a stretch of time admits\<close>

text \<open>
  The credit of a bucket at time \<open>t\<close>: its tokens and the fraction earned since the last refill.
  Refilling never raises it, a send lowers it by one, and time raises it at the refill rate.
\<close>

definition credit :: "int \<Rightarrow> int \<Rightarrow> bucket \<Rightarrow> number \<Rightarrow> number" where
  "credit mx w b t = of_int (tokens b) + (t - lastRefill b) * of_int mx / of_int w"

lemma credit_later: "credit mx w b t = credit mx w b s + (t - s) * of_int mx / of_int w"
  by (simp add: credit_def field_simps diff_divide_distrib [symmetric] add_divide_distrib [symmetric])

lemma earned_le: "of_int (earned_tokens mx w b t) \<le> (t - lastRefill b) * of_int mx / of_int w"
  by (simp add: earned_tokens_def)

lemma refill_credit_le:
  assumes "0 < mx" "0 < w"
  shows "credit mx w (refill_bucket mx w b t) t \<le> credit mx w b t"
proof -
  let ?e = "earned_tokens mx w b t"
  consider (full) "mx \<le> tokens b + ?e" | (some) "\<not> mx \<le> tokens b + ?e" "?e > 0"
    | (none) "\<not> mx \<le> tokens b + ?e" "\<not> ?e > 0" by blast
  then show ?thesis
  proof cases
    case full
    then have "of_int mx \<le> (of_int (tokens b) + of_int ?e :: rat)"
      by (metis of_int_add of_int_le_iff)
    with full earned_le [of mx w b t] show ?thesis
      by (simp add: refill_bucket_def Let_def credit_def)
  next
    case some
    with assms have "credit mx w (refill_bucket mx w b t) t = credit mx w b t"
      by (simp add: refill_bucket_def Let_def credit_def field_simps)
    then show ?thesis by simp
  qed (simp add: refill_bucket_def Let_def)
qed

lemma refill_not_ahead:
  assumes "0 < mx" "0 < w" "lastRefill b \<le> t"
  shows "lastRefill (refill_bucket mx w b t) \<le> t"
  using assms earned_le [of mx w b t] by (simp add: refill_bucket_def Let_def field_simps)

lemma credit_nonneg:
  "0 < mx \<Longrightarrow> 0 < w \<Longrightarrow> bucket_ok mx b \<Longrightarrow> lastRefill b \<le> t \<Longrightarrow> 0 \<le> credit mx w b t"
  by (simp add: credit_def bucket_ok_def)

lemma refill_credit_cap:
  assumes "0 < mx" "0 < w"
  shows "credit mx w (refill_bucket mx w b t) t \<le> of_int mx"
proof -
  let ?e = "earned_tokens mx w b t"
  have frac: "(t - lastRefill b) * of_int mx / of_int w < of_int (?e + 1)"
    unfolding earned_tokens_def by (metis floor_correct)
  have less: "of_int (tokens b + ?e + 1) \<le> (of_int mx :: rat)" if "\<not> mx \<le> tokens b + ?e"
    using that by (subst of_int_le_iff) simp
  show ?thesis
  proof (cases "mx \<le> tokens b + ?e")
    case True
    then show ?thesis by (simp add: refill_bucket_def Let_def credit_def)
  next
    case False
    have "credit mx w (refill_bucket mx w b t) t \<le> credit mx w b t"
      using assms by (rule refill_credit_le)
    also have "\<dots> \<le> of_int (tokens b) + of_int (?e + 1)"
      using frac by (simp add: credit_def)
    also have "\<dots> \<le> of_int mx" using less [OF False] by simp
    finally show ?thesis .
  qed
qed

lemma admitted_from_credit:
  assumes "limiter_ok l" "js_get (buckets l) a = Some b" "lastRefill b \<le> s" "sorted (s # ts)"
  shows "of_nat (admitted a ts l) \<le>
    credit (maxTokens l) (windowMs l) b s + (last (s # ts) - s) * of_int (maxTokens l) / of_int (windowMs l)"
  using assms
proof (induction ts arbitrary: l b s)
  case Nil
  then have "0 \<le> credit (maxTokens l) (windowMs l) b s"
    by (intro credit_nonneg) (auto simp: limiter_ok_def)
  then show ?case by simp
next
  case (Cons t ts)
  let ?mx = "maxTokens l" and ?w = "windowMs l"
  let ?b = "current_bucket l a t"
  let ?spent = "tokens ?b > 0"
  let ?c = "if ?spent then ?b\<lparr>tokens := tokens ?b - 1\<rparr> else ?b"
  let ?l = "l\<lparr>buckets := js_set a ?c (buckets l)\<rparr>"
  have pos: "0 < ?mx" "0 < ?w" using Cons.prems(1) by (auto simp: limiter_ok_def)
  have b: "?b = refill_bucket ?mx ?w b t" using Cons.prems(2) by (simp add: current_bucket_def)
  have step: "tryConsume a t l = (?spent, ?l)" by (simp add: tryConsume_eq Let_def)
  have ok: "limiter_ok ?l"
    using limiter_step_ok [OF Cons.prems(1), of a "TryConsume t"] step by simp
  have "credit ?mx ?w ?c t + (if ?spent then 1 else 0) = credit ?mx ?w ?b t"
    by (simp add: credit_def)
  also have "\<dots> \<le> credit ?mx ?w b t" unfolding b using pos by (rule refill_credit_le)
  also have "\<dots> = credit ?mx ?w b s + (t - s) * of_int ?mx / of_int ?w" by (rule credit_later)
  finally have spend: "credit ?mx ?w ?c t + (if ?spent then 1 else 0) \<le>
    credit ?mx ?w b s + (t - s) * of_int ?mx / of_int ?w" .
  have "lastRefill ?c \<le> t"
    using refill_not_ahead [OF pos, of b t] Cons.prems(3,4) b by simp
  then have "of_nat (admitted a ts ?l) \<le>
      credit ?mx ?w ?c t + (last (t # ts) - t) * of_int ?mx / of_int ?w"
    using Cons.IH [OF ok, of ?c t] Cons.prems(4) by simp
  moreover have "(last (s # t # ts) - s) * of_int ?mx / of_int ?w =
      (last (t # ts) - t) * of_int ?mx / of_int ?w + (t - s) * of_int ?mx / (of_int ?w :: rat)"
    by (simp add: add_divide_distrib [symmetric] algebra_simps)
  moreover have "of_nat (admitted a (t # ts) l) = (if ?spent then 1 else 0) + (of_nat (admitted a ts ?l) :: rat)"
    using step by simp
  ultimately show ?case using spend by linarith
qed

lemma admitted_bound:
  assumes ok: "limiter_ok l" and fresh: "\<forall>b. js_get (buckets l) a = Some b \<longrightarrow> lastRefill b \<le> t"
    and sorted: "sorted (t # ts)"
  shows "of_nat (admitted a (t # ts) l) \<le>
    of_int (maxTokens l) + (last (t # ts) - t) * of_int (maxTokens l) / of_int (windowMs l)"
proof -
  let ?mx = "maxTokens l" and ?w = "windowMs l"
  let ?b = "current_bucket l a t"
  let ?spent = "tokens ?b > 0"
  let ?c = "if ?spent then ?b\<lparr>tokens := tokens ?b - 1\<rparr> else ?b"
  let ?l = "l\<lparr>buckets := js_set a ?c (buckets l)\<rparr>"
  have pos: "0 < ?mx" "0 < ?w" using ok by (auto simp: limiter_ok_def)
  have step: "tryConsume a t l = (?spent, ?l)" by (simp add: tryConsume_eq Let_def)
  have "limiter_ok ?l" using limiter_step_ok [OF ok, of a "TryConsume t"] step by simp
  moreover have "lastRefill ?c \<le> t"
    using refill_not_ahead [OF pos] fresh by (auto simp: current_bucket_def split: option.split)
  ultimately have "of_nat (admitted a ts ?l) \<le>
      credit ?mx ?w ?c t + (last (t # ts) - t) * of_int ?mx / of_int ?w"
    using admitted_from_credit [of ?l a ?c t ts] sorted by simp
  moreover have "credit ?mx ?w ?c t + (if ?spent then 1 else 0) = credit ?mx ?w ?b t"
    by (simp add: credit_def)
  moreover have "credit ?mx ?w ?b t \<le> of_int ?mx"
    unfolding current_bucket_def using pos by (rule refill_credit_cap)
  moreover have "of_nat (admitted a (t # ts) l) = (if ?spent then 1 else 0) + (of_nat (admitted a ts ?l) :: rat)"
    using step by simp
  ultimately show ?thesis by linarith
qed

text \<open>The calls of all accounts, in the order they arrive: who calls and when.\<close>

definition sends_admitted :: "string \<Rightarrow> (string \<times> number) list \<Rightarrow> limiter \<Rightarrow> nat" where
  "sends_admitted a calls l =
     length (filter (\<lambda>p. p = (a, 1)) (fst (run_ops limiter_step (map (\<lambda>(k, t). (k, TryConsume t)) calls) l)))"

lemma own_calls_admitted:
  "length (filter (\<lambda>p. p = (a, 1)) (fst (run_ops limiter_step (map (\<lambda>t. (a, TryConsume t)) ts) l))) = admitted a ts l"
  by (induction ts arbitrary: l) (auto simp: split_beta Let_def)

lemma sends_admitted_own:
  "sends_admitted a calls l = admitted a (map snd (filter (\<lambda>p. fst p = a) calls)) l"
proof -
  let ?ops = "map (\<lambda>(k, t). (k, TryConsume t)) calls"
  have own: "filter (\<lambda>p. fst p = a) ?ops = map (\<lambda>t. (a, TryConsume t)) (map snd (filter (\<lambda>p. fst p = a) calls))"
    by (induction calls) auto
  have "filter (\<lambda>p. p = (a, 1)) (fst (run_ops limiter_step ?ops l)) =
        filter (\<lambda>p. p = (a, 1)) (filter (\<lambda>p. fst p = a) (fst (run_ops limiter_step ?ops l)))"
    by (simp add: filter_filter) (rule filter_cong; auto)
  also have "\<dots> = filter (\<lambda>p. p = (a, 1)) (fst (run_ops limiter_step (map (\<lambda>t. (a, TryConsume t)) (map snd (filter (\<lambda>p. fst p = a) calls))) l))"
    by (simp only: buckets.answers_isolated own)
  finally show ?thesis unfolding sends_admitted_def by (simp only: own_calls_admitted)
qed

section \<open>Properties\<close>

text \<open>
  However the calls of all accounts interleave, the sends an account is admitted between its
  first call of a stretch and its last are at most one full bucket plus the tokens that stretch of
  time earns (\<open>maxTokens\<close> per window), whatever the limiter did before.
\<close>

theorem sends_in_stretch_bounded:
  assumes "limiter_ok l"
    and "map snd (filter (\<lambda>p. fst p = a) calls) = t # ts" and "sorted (t # ts)"
    and "\<forall>b. js_get (buckets l) a = Some b \<longrightarrow> lastRefill b \<le> t"
  shows "of_nat (sends_admitted a calls l) \<le>
    of_int (maxTokens l) + (last (t # ts) - t) * of_int (maxTokens l) / of_int (windowMs l)"
  unfolding sends_admitted_own assms(2) using assms(1,4,3) by (rule admitted_bound)

theorem sends_in_stretch_bounded_witness:
  "of_nat (sends_admitted ''a'' [(''a'', 0), (''b'', 5), (''a'', 10)] (new_limiter 10)) \<le> (10 + 10 * 10 / 60000 :: rat)"
proof -
  have "of_nat (sends_admitted ''a'' [(''a'', 0), (''b'', 5), (''a'', 10)] (new_limiter 10)) \<le>
    of_int (maxTokens (new_limiter 10)) +
    (last [0, 10] - 0) * of_int (maxTokens (new_limiter 10)) / (of_int (windowMs (new_limiter 10)) :: rat)"
    by (rule sends_in_stretch_bounded) (simp_all add: limiter_ok_def new_limiter_def)
  then show ?thesis by (simp add: new_limiter_def)
qed

text \<open>
  The limiter of a fresh server (10 per 60 s) admits 19 sends of one account within less than
  60 s: a bucket left full and then drained as it refills, not a sliding window of 10.
\<close>

theorem window_admits_nineteen:
  "sends_admitted ''a'' (map (\<lambda>t. (''a'', t))
     ([0, 0, 0, 0, 0, 0, 0, 0, 0, 0] @ [6000, 12000, 18000, 24000, 30000, 36000, 42000, 48000, 54000]))
     (new_limiter 10) = 19"
  by code_simp

text \<open>
  Every bucket stays within \<open>0..maxTokens\<close> through any sequence of \<open>tryConsume\<close> and
  \<open>remaining\<close> calls, so \<open>remaining\<close> never reports a negative or excessive count.
\<close>

theorem limiter_stays_bounded:
  assumes "limiter_ok l"
  shows "limiter_ok (snd (run_ops limiter_step ops l)) \<and>
    (\<forall>a now. fst (remaining a now (snd (run_ops limiter_step ops l))) \<in> {0..maxTokens l})"
proof -
  have run: "limiter_ok l \<Longrightarrow> limiter_ok (snd (run_ops limiter_step ops l)) \<and>
      maxTokens (snd (run_ops limiter_step ops l)) = maxTokens l" for l
  proof (induction ops arbitrary: l)
    case (Cons p ops)
    obtain k c where p: "p = (k, c)" by (cases p)
    have "maxTokens (snd (limiter_step k c l)) = maxTokens l"
      by (cases c) (auto simp: split_beta Let_def remaining_def refill_eq)
    with Cons.IH [OF limiter_step_ok [OF Cons.prems, of k c]] p show ?case
      by (simp add: split_beta Let_def)
  qed simp
  let ?l = "snd (run_ops limiter_step ops l)"
  have "fst (remaining a now ?l) \<in> {0..maxTokens l}" for a now
    using current_bucket_ok [of ?l a now] run [OF assms]
    by (auto simp: remaining_def refill_eq bucket_ok_def limiter_ok_def)
  with run [OF assms] show ?thesis by simp
qed

theorem limiter_stays_bounded_witness:
  "limiter_ok (snd (run_ops limiter_step [(''a'', TryConsume 0), (''a'', Remaining 1)] (new_limiter 10)))"
  using limiter_stays_bounded [OF new_limiter_ok [of 10], of "[(''a'', TryConsume 0), (''a'', Remaining 1)]"]
  by simp

text \<open>
  Accounts do not share tokens: in any interleaving, the answers one account gets are those it
  would get alone.
\<close>

theorem accounts_rate_limited_apart:
  "filter (\<lambda>p. fst p = a) (fst (run_ops limiter_step ops l)) =
   fst (run_ops limiter_step (filter (\<lambda>p. fst p = a) ops) l)"
  by (rule buckets.answers_isolated)

end
