(* ===== verification/Backoff.thy ===== *)
theory Backoff
  imports Prelude
begin

text \<open>
  Reconnect delays (src/connections/backoff.ts): the doubling delay with its cap, the jitter, and
  \<open>ConnectBackoff\<close>, the table of failures per protocol and account. \<open>Math.random()\<close> is the
  argument \<open>rnd\<close> with \<open>0 \<le> rnd < 1\<close>. The lemmas give the closed form of the delay after any
  number of failures, the window in which connects are refused, and the independence of accounts.
\<close>

section \<open>Delays\<close>

definition INITIAL_BACKOFF_MS :: number where "INITIAL_BACKOFF_MS = 1000"
definition MAX_BACKOFF_MS :: number where "MAX_BACKOFF_MS = 60000"
definition JITTER_RATIO :: number where "JITTER_RATIO = 25 / 100"

definition nextBackoff :: "number \<Rightarrow> number" where
  "nextBackoff delayMs = min (delayMs * 2) MAX_BACKOFF_MS"

definition withJitter :: "number \<Rightarrow> number \<Rightarrow> number" where
  "withJitter rnd delayMs = delayMs - of_int \<lfloor>rnd * delayMs * JITTER_RATIO\<rfloor>"

lemma withJitter_bounds:
  assumes "0 \<le> rnd" "rnd < 1" "0 \<le> d"
  shows "d * (3 / 4) \<le> withJitter rnd d \<and> withJitter rnd d \<le> d"
proof -
  have "rnd * d * JITTER_RATIO \<le> d * JITTER_RATIO"
    using assms by (intro mult_right_mono mult_left_le_one_le) (auto simp: JITTER_RATIO_def)
  moreover have "of_int \<lfloor>rnd * d * JITTER_RATIO\<rfloor> \<le> rnd * d * JITTER_RATIO" by simp
  moreover have "0 \<le> \<lfloor>rnd * d * JITTER_RATIO\<rfloor>"
    using assms by (simp add: JITTER_RATIO_def)
  ultimately show ?thesis by (auto simp: withJitter_def JITTER_RATIO_def)
qed

lemma nextBackoff_range: "1000 \<le> d \<Longrightarrow> 1000 \<le> nextBackoff d \<and> nextBackoff d \<le> 60000"
  by (auto simp: nextBackoff_def MAX_BACKOFF_MS_def)

lemma nextBackoff_iterate: "(nextBackoff ^^ n) 1000 = min (1000 * 2 ^ n) 60000"
proof (induction n)
  case (Suc n)
  have "(nextBackoff ^^ Suc n) 1000 = nextBackoff (min (1000 * 2 ^ n) 60000)"
    using Suc by simp
  also have "\<dots> = min (1000 * 2 ^ Suc n) 60000"
    by (auto simp: nextBackoff_def MAX_BACKOFF_MS_def min_def)
  finally show ?case .
qed simp

section \<open>The failure table\<close>

record failureState =
  delayMs :: number
  retryAt :: number
  failure :: string

type_synonym connectBackoff = "(string, failureState) jsmap"

definition backoff_key :: "string \<Rightarrow> string \<Rightarrow> string" where
  "backoff_key protocol accountName = protocol @ '':'' @ accountName"

datatype backoff_error = NotReady (protocolOf: string) (accountOf: string) (lastFailure: string) (seconds: int)

definition assertReady :: "string \<Rightarrow> string \<Rightarrow> number \<Rightarrow> connectBackoff \<Rightarrow> backoff_error + unit" where
  "assertReady protocol accountName now m =
     (case js_get m (backoff_key protocol accountName) of
        None \<Rightarrow> Inr ()
      | Some f \<Rightarrow>
          (let waitMs = retryAt f - now in
           if waitMs \<le> 0 then Inr ()
           else Inl (NotReady protocol accountName (failure f) \<lceil>waitMs / 1000\<rceil>)))"

definition recordFailure ::
  "string \<Rightarrow> string \<Rightarrow> string \<Rightarrow> number \<Rightarrow> number \<Rightarrow> connectBackoff \<Rightarrow> connectBackoff" where
  "recordFailure protocol accountName err now rnd m =
     (let key = backoff_key protocol accountName;
          d = (case js_get m key of Some prev \<Rightarrow> nextBackoff (delayMs prev) | None \<Rightarrow> INITIAL_BACKOFF_MS)
      in js_set key \<lparr>delayMs = d, retryAt = now + withJitter rnd d, failure = err\<rparr> m)"

definition recordSuccess :: "string \<Rightarrow> string \<Rightarrow> connectBackoff \<Rightarrow> connectBackoff" where
  "recordSuccess protocol accountName m = js_delete (backoff_key protocol accountName) m"

datatype backoff_call = Failed string number number | Succeeded | Ask number

fun backoff_step :: "string \<times> string \<Rightarrow> backoff_call \<Rightarrow> connectBackoff \<Rightarrow> (backoff_error + unit) \<times> connectBackoff" where
  "backoff_step (p, a) (Failed err now rnd) m = (Inr (), recordFailure p a err now rnd m)"
| "backoff_step (p, a) Succeeded m = (Inr (), recordSuccess p a m)"
| "backoff_step (p, a) (Ask now) m = (assertReady p a now m, m)"

text \<open>
  The protocols are the literals \<open>IMAP\<close> and \<open>SMTP\<close>, which contain no colon, so the key is
  injective: an account name with a colon in it cannot alias another entry.
\<close>

definition protocols :: "string set" where "protocols = {''IMAP'', ''SMTP''}"

lemma backoff_key_inject:
  "p \<in> protocols \<Longrightarrow> q \<in> protocols \<Longrightarrow> backoff_key p a = backoff_key q b \<longleftrightarrow> p = q \<and> a = b"
  by (auto simp: backoff_key_def protocols_def)

definition backoff_view :: "connectBackoff \<Rightarrow> string \<times> string \<Rightarrow> failureState option" where
  "backoff_view m k = js_get m (backoff_key (fst k) (snd k))"

text \<open>One protocol at a time: the key is then the account name.\<close>

definition imap_backoff_step :: "string \<Rightarrow> backoff_call \<Rightarrow> connectBackoff \<Rightarrow> (backoff_error + unit) \<times> connectBackoff" where
  "imap_backoff_step a c m = backoff_step (''IMAP'', a) c m"

interpretation imap_failures: keyed_store imap_backoff_step "\<lambda>m a. backoff_view m (''IMAP'', a)"
proof unfold_locales
  fix k k' :: string and i s
  assume "k \<noteq> k'"
  then show "backoff_view (snd (imap_backoff_step k i s)) (''IMAP'', k') = backoff_view s (''IMAP'', k')"
    by (cases i) (auto simp: imap_backoff_step_def backoff_view_def recordFailure_def recordSuccess_def
        Let_def backoff_key_inject protocols_def)
next
  fix s t :: connectBackoff and k i
  assume "backoff_view s (''IMAP'', k) = backoff_view t (''IMAP'', k)"
  then show "backoff_view (snd (imap_backoff_step k i s)) (''IMAP'', k) =
             backoff_view (snd (imap_backoff_step k i t)) (''IMAP'', k)"
    and "fst (imap_backoff_step k i s) = fst (imap_backoff_step k i t)"
    by (cases i; simp add: imap_backoff_step_def backoff_view_def recordFailure_def recordSuccess_def
        assertReady_def Let_def)+
qed

section \<open>Runs of failures\<close>

fun fail_times :: "string \<Rightarrow> string \<Rightarrow> (string \<times> number \<times> number) list \<Rightarrow> connectBackoff \<Rightarrow> connectBackoff" where
  "fail_times p a [] m = m"
| "fail_times p a ((err, now, rnd) # fs) m = fail_times p a fs (recordFailure p a err now rnd m)"

lemma recordFailure_entry:
  "js_get (recordFailure p a err now rnd m) (backoff_key p a) =
     Some (let d = (case js_get m (backoff_key p a) of Some prev \<Rightarrow> nextBackoff (delayMs prev) | None \<Rightarrow> INITIAL_BACKOFF_MS)
           in \<lparr>delayMs = d, retryAt = now + withJitter rnd d, failure = err\<rparr>)"
  by (simp add: recordFailure_def Let_def)

lemma fail_times_snoc:
  "fail_times p a (fs @ [(err, now, rnd)]) m = recordFailure p a err now rnd (fail_times p a fs m)"
  by (induction fs arbitrary: m) auto

lemma fail_times_delay:
  assumes "js_get m (backoff_key p a) = None" "fs \<noteq> []"
  shows "\<exists>f. js_get (fail_times p a fs m) (backoff_key p a) = Some f \<and>
     delayMs f = min (1000 * 2 ^ (length fs - 1)) 60000"
  using assms(2)
proof (induction fs rule: rev_induct)
  case (snoc x fs)
  obtain err now rnd where x: "x = (err, now, rnd)" by (cases x)
  show ?case
  proof (cases "fs = []")
    case True
    with x assms(1) show ?thesis by (simp add: recordFailure_entry Let_def INITIAL_BACKOFF_MS_def)
  next
    case False
    then obtain f where f: "js_get (fail_times p a fs m) (backoff_key p a) = Some f"
      "delayMs f = min (1000 * 2 ^ (length fs - 1)) 60000"
      using snoc.IH by blast
    have "nextBackoff (delayMs f) = min (1000 * 2 ^ length fs) 60000"
      using False nextBackoff_iterate [of "length fs - 1"] nextBackoff_iterate [of "length fs"] f(2)
      by (cases fs) simp_all
    with f(1) x show ?thesis by (simp add: fail_times_snoc recordFailure_entry Let_def)
  qed
qed simp

section \<open>Properties\<close>

text \<open>
  After \<open>n\<close> consecutive failures the next connect is refused for a window that is
  \<open>min (1000 * 2^(n-1)) 60000\<close> ms shortened by at most a quarter, and admitted again once that
  delay has passed; a success clears the history, so the next failure starts at one second.
\<close>

theorem refusal_window:
  assumes "js_get m (backoff_key p a) = None" and "0 \<le> rnd" and "rnd < 1"
  shows "(\<forall>t < now + min (1000 * 2 ^ length fs) 60000 * (3 / 4).
        \<exists>s > 0. assertReady p a t (recordFailure p a err now rnd (fail_times p a fs m)) = Inl (NotReady p a err s)) \<and>
      (\<forall>t \<ge> now + min (1000 * 2 ^ length fs) 60000.
        assertReady p a t (recordFailure p a err now rnd (fail_times p a fs m)) = Inr ()) \<and>
      delayMs (the (js_get (recordFailure p a err' t' r' (recordSuccess p a (fail_times p a fs m))) (backoff_key p a))) = 1000"
proof -
  let ?m = "recordFailure p a err now rnd (fail_times p a fs m)"
  let ?d = "min (1000 * 2 ^ length fs) 60000 :: rat"
  obtain f where f: "js_get ?m (backoff_key p a) = Some f" "delayMs f = ?d"
    using fail_times_delay [OF assms(1), of "fs @ [(err, now, rnd)]"]
    by (auto simp: fail_times_snoc)
  then have at: "retryAt f = now + withJitter rnd ?d" "failure f = err"
    by (auto simp: recordFailure_entry Let_def)
  have "?d * (3 / 4) \<le> withJitter rnd ?d \<and> withJitter rnd ?d \<le> ?d"
    using assms(2,3) by (rule withJitter_bounds) simp
  with f(1) at show ?thesis
    by (auto simp: assertReady_def Let_def recordFailure_entry recordSuccess_def INITIAL_BACKOFF_MS_def)
qed

theorem refusal_window_witness:
  "\<exists>s > 0. assertReady ''IMAP'' ''a'' 700 (recordFailure ''IMAP'' ''a'' ''refused'' 0 (1 / 2) []) =
       Inl (NotReady ''IMAP'' ''a'' ''refused'' s)"
  using refusal_window [of "[]" "''IMAP''" "''a''" "1 / 2" 0 "[]" "''refused''"] by simp

text \<open>
  A failing account does not hold back another: the answers \<open>assertReady\<close> gives for one
  account depend on that account's own history only.
\<close>

theorem backoff_accounts_independent:
  "filter (\<lambda>p. fst p = a) (fst (run_ops imap_backoff_step ops m)) =
   fst (run_ops imap_backoff_step (filter (\<lambda>p. fst p = a) ops) m)"
  by (rule imap_failures.answers_isolated)

end
