(* ===== verification/HttpSessions.thy ===== *)
theory HttpSessions
  imports Prelude
begin

text \<open>
  The bounded table of Streamable HTTP sessions (src/safety/http-sessions.ts). A session is a
  \<open>tracked\<close> record, the table an ordered map; every transport whose \<open>close\<close> was called is
  appended to \<open>closed\<close>. The clock readings of a call are arguments. \<open>evict\<close> is the code's two
  passes: \<open>expire\<close> drops idle sessions past their lifetime, \<open>shrink\<close> closes the least
  recently used idle session while the table is over its cap.
\<close>

section \<open>Model\<close>

record 't tracked =
  sid :: string
  transport :: 't
  lastUsed :: number
  activeRequests :: nat

record 't store =
  sessions :: "(string, 't tracked) jsmap"
  maxSessions :: nat
  ttlMs :: number
  closed :: "'t list"

definition DEFAULT_HTTP_SESSION_TTL_MS :: number where "DEFAULT_HTTP_SESSION_TTL_MS = 30 * 60 * 1000"
definition DEFAULT_HTTP_MAX_SESSIONS :: nat where "DEFAULT_HTTP_MAX_SESSIONS = 32"

definition new_store :: "nat \<Rightarrow> number \<Rightarrow> 't store" where
  "new_store n ttl = \<lparr>sessions = [], maxSessions = n, ttlMs = ttl, closed = []\<rparr>"

definition store_size :: "'t store \<Rightarrow> nat" where
  "store_size s = length (sessions s)"

definition get_session :: "string \<Rightarrow> 't store \<Rightarrow> 't option" where
  "get_session i s = map_option transport (js_get (sessions s) i)"

definition closeAndDelete :: "string \<Rightarrow> 't tracked \<Rightarrow> 't store \<Rightarrow> 't store" where
  "closeAndDelete i x s = s\<lparr>sessions := js_delete i (sessions s), closed := closed s @ [transport x]\<rparr>"

definition expired :: "number \<Rightarrow> number \<Rightarrow> 't tracked \<Rightarrow> bool" where
  "expired now ttl x \<longleftrightarrow> activeRequests x = 0 \<and> now - lastUsed x > ttl"

fun expire_entries :: "number \<Rightarrow> (string \<times> 't tracked) list \<Rightarrow> 't store \<Rightarrow> 't store" where
  "expire_entries now [] s = s"
| "expire_entries now ((i, x) # es) s =
     expire_entries now es (if expired now (ttlMs s) x then closeAndDelete i x s else s)"

definition expire :: "number \<Rightarrow> 't store \<Rightarrow> 't store" where
  "expire now s = expire_entries now (sessions s) s"

definition idle_sessions :: "string option \<Rightarrow> 't store \<Rightarrow> 't tracked list" where
  "idle_sessions keep s =
     sort_key lastUsed (filter (\<lambda>x. activeRequests x = 0 \<and> Some (sid x) \<noteq> keep) (js_values (sessions s)))"

text \<open>
  The \<open>while\<close> loop. Each turn deletes an entry, since a session is stored under its own id
  (\<open>table_ok\<close>); the guard \<open>js_get \<noteq> None\<close> records that for the termination argument and always
  holds on a well-formed table (\<open>shrink_unfold\<close>).
\<close>

function shrink :: "string option \<Rightarrow> 't store \<Rightarrow> 't store" where
  "shrink keep s =
     (if length (sessions s) > maxSessions s then
        (case idle_sessions keep s of
           [] \<Rightarrow> s
         | x # _ \<Rightarrow>
             if length (sessions (closeAndDelete (sid x) x s)) < length (sessions s)
             then shrink keep (closeAndDelete (sid x) x s) else s)
      else s)"
  by pat_completeness auto
termination by (relation "measure (\<lambda>(keep, s). length (sessions s))") auto

declare shrink.simps [simp del]

definition evict :: "number \<Rightarrow> string option \<Rightarrow> 't store \<Rightarrow> 't store" where
  "evict now keep s = shrink keep (expire now s)"

definition set_session :: "string \<Rightarrow> 't \<Rightarrow> number \<Rightarrow> number \<Rightarrow> number \<Rightarrow> 't store \<Rightarrow> 't store" where
  "set_session i t now1 now2 now3 s =
     (let s1 = evict now1 None s;
          s2 = s1\<lparr>sessions := js_set i \<lparr>sid = i, transport = t, lastUsed = now2, activeRequests = 0\<rparr> (sessions s1)\<rparr>
      in evict now3 (Some i) s2)"

definition beginRequest :: "string \<Rightarrow> number \<Rightarrow> 't store \<Rightarrow> 't store" where
  "beginRequest i now s =
     (case js_get (sessions s) i of
        None \<Rightarrow> s
      | Some x \<Rightarrow> s\<lparr>sessions := js_set i (x\<lparr>activeRequests := Suc (activeRequests x), lastUsed := now\<rparr>) (sessions s)\<rparr>)"

definition endRequest :: "string \<Rightarrow> 't store \<Rightarrow> 't store" where
  "endRequest i s =
     (case js_get (sessions s) i of
        None \<Rightarrow> s
      | Some x \<Rightarrow>
          if activeRequests x = 0 then s
          else s\<lparr>sessions := js_set i (x\<lparr>activeRequests := activeRequests x - 1\<rparr>) (sessions s)\<rparr>)"

definition delete_session :: "string \<Rightarrow> 't store \<Rightarrow> 't store" where
  "delete_session i s = s\<lparr>sessions := js_delete i (sessions s)\<rparr>"

definition store_values :: "'t store \<Rightarrow> 't list" where
  "store_values s = map transport (js_values (sessions s))"

section \<open>Well-formed tables\<close>

definition table_ok :: "'t store \<Rightarrow> bool" where
  "table_ok s \<longleftrightarrow> js_wf (sessions s) \<and> (\<forall>(i, x) \<in> set (sessions s). sid x = i)"

lemma table_ok_get: "table_ok s \<Longrightarrow> js_get (sessions s) i = Some x \<Longrightarrow> sid x = i"
  by (auto simp: table_ok_def dest: map_of_SomeD)

lemma table_ok_idle:
  assumes "table_ok s" "x \<in> set (idle_sessions keep s)"
  shows "js_get (sessions s) (sid x) = Some x" and "activeRequests x = 0" and "Some (sid x) \<noteq> keep"
  using assms by (auto simp: idle_sessions_def js_values_def table_ok_def js_get_in_set)

lemma closeAndDelete_fields [simp]:
  "maxSessions (closeAndDelete i x s) = maxSessions s"
  "ttlMs (closeAndDelete i x s) = ttlMs s"
  "sessions (closeAndDelete i x s) = js_delete i (sessions s)"
  "closed (closeAndDelete i x s) = closed s @ [transport x]"
  by (simp_all add: closeAndDelete_def)

lemma table_ok_delete: "table_ok s \<Longrightarrow> sessions s' = js_delete i (sessions s) \<Longrightarrow> table_ok s'"
  by (auto simp: table_ok_def dest: js_delete_subset [THEN subsetD])

lemma table_ok_set: "table_ok s \<Longrightarrow> sid x = i \<Longrightarrow> sessions s' = js_set i x (sessions s) \<Longrightarrow> table_ok s'"
  by (auto simp: table_ok_def dest: js_set_subset [THEN subsetD])

lemma new_store_ok [simp]: "table_ok (new_store n ttl)"
  by (simp add: table_ok_def new_store_def)

section \<open>The expiry pass\<close>

lemma expire_entries_config [simp]:
  "maxSessions (expire_entries now xs s) = maxSessions s"
  "ttlMs (expire_entries now xs s) = ttlMs s"
  by (induction xs arbitrary: s) auto

lemma expire_config [simp]:
  "maxSessions (expire now s) = maxSessions s"
  "ttlMs (expire now s) = ttlMs s"
  by (simp_all add: expire_def)

lemma expire_entries_closed:
  "closed (expire_entries now xs s) = closed s @ map (transport \<circ> snd) (filter (\<lambda>p. expired now (ttlMs s) (snd p)) xs)"
  by (induction xs arbitrary: s) auto

lemma expire_entries_sessions:
  "sessions (expire_entries now xs s) =
     filter (\<lambda>p. \<forall>q \<in> set xs. expired now (ttlMs s) (snd q) \<longrightarrow> fst q \<noteq> fst p) (sessions s)"
proof (induction xs arbitrary: s)
  case (Cons q xs)
  obtain i x where q: "q = (i, x)" by (cases q)
  show ?case
    unfolding q by (simp add: Cons.IH js_delete_filter filter_filter) (auto intro: filter_cong)
qed simp

lemma expire_sessions:
  "table_ok s \<Longrightarrow> sessions (expire now s) = filter (\<lambda>p. \<not> expired now (ttlMs s) (snd p)) (sessions s)"
  unfolding expire_def expire_entries_sessions
proof (rule filter_cong [OF refl])
  fix p assume ok: "table_ok s" and p: "p \<in> set (sessions s)"
  have same: "q = p" if "q \<in> set (sessions s)" "fst q = fst p" for q
    using ok p that unfolding table_ok_def js_wf_def by (metis eq_key_imp_eq_value prod.collapse)
  show "(\<forall>q\<in>set (sessions s). expired now (ttlMs s) (snd q) \<longrightarrow> fst q \<noteq> fst p) \<longleftrightarrow> \<not> expired now (ttlMs s) (snd p)"
    using p same by blast
qed

lemma table_ok_expire: "table_ok s \<Longrightarrow> table_ok (expire now s)"
  by (auto simp: table_ok_def expire_sessions js_wf_def distinct_map_filter)

lemma expire_accounting:
  assumes "table_ok s"
  shows "closed (expire now s) = closed s @ map (transport \<circ> snd) (filter (\<lambda>p. expired now (ttlMs s) (snd p)) (sessions s))"
    and "mset (sessions s) = mset (sessions (expire now s)) +
      mset (filter (\<lambda>p. expired now (ttlMs s) (snd p)) (sessions s))"
proof -
  show "closed (expire now s) = closed s @ map (transport \<circ> snd) (filter (\<lambda>p. expired now (ttlMs s) (snd p)) (sessions s))"
    by (simp add: expire_def expire_entries_closed)
  show "mset (sessions s) = mset (sessions (expire now s)) +
      mset (filter (\<lambda>p. expired now (ttlMs s) (snd p)) (sessions s))"
    using assms by (simp add: expire_sessions add.commute)
qed

section \<open>The size pass\<close>

lemma shrink_unfold:
  assumes "table_ok s"
  shows "shrink keep s =
     (if length (sessions s) > maxSessions s then
        (case idle_sessions keep s of [] \<Rightarrow> s | x # _ \<Rightarrow> shrink keep (closeAndDelete (sid x) x s))
      else s)"
proof -
  have "length (js_delete (sid x) (sessions s)) < length (sessions s)" if "idle_sessions keep s = x # xs" for x xs
  proof -
    have "js_get (sessions s) (sid x) = Some x"
      using table_ok_idle(1) [OF assms, of x keep] that by simp
    with assms show ?thesis
      using js_delete_length [of "sessions s" "sid x" x] by (simp add: table_ok_def)
  qed
  then show ?thesis by (subst shrink.simps) (auto split: list.split)
qed

lemma shrink_induct [consumes 1, case_names stop turn]:
  assumes "table_ok s"
    and "\<And>s. table_ok s \<Longrightarrow> length (sessions s) \<le> maxSessions s \<or> idle_sessions keep s = [] \<Longrightarrow>
      shrink keep s = s \<Longrightarrow> P s"
    and "\<And>s x xs. table_ok s \<Longrightarrow> length (sessions s) > maxSessions s \<Longrightarrow> idle_sessions keep s = x # xs \<Longrightarrow>
      shrink keep s = shrink keep (closeAndDelete (sid x) x s) \<Longrightarrow> P (closeAndDelete (sid x) x s) \<Longrightarrow> P s"
  shows "P s"
  using assms(1)
proof (induction "length (sessions s)" arbitrary: s rule: less_induct)
  case less
  show ?case
  proof (cases "length (sessions s) > maxSessions s \<and> idle_sessions keep s \<noteq> []")
    case True
    then obtain x xs where x: "idle_sessions keep s = x # xs" by (cases "idle_sessions keep s") auto
    let ?s = "closeAndDelete (sid x) x s"
    have "js_get (sessions s) (sid x) = Some x"
      using table_ok_idle(1) [OF less.prems, of x keep] x by simp
    then have len: "length (sessions ?s) < length (sessions s)"
      using less.prems js_delete_length [of "sessions s" "sid x" x] by (simp add: table_ok_def)
    have ok: "table_ok ?s" using less.prems by (rule table_ok_delete) simp
    show ?thesis
      using less.hyps [OF len ok] True x less.prems by (intro assms(3) [of s x xs]) (simp_all add: shrink_unfold)
  next
    case False
    then show ?thesis using less.prems
      by (intro assms(2)) (auto simp: shrink_unfold split: list.split)
  qed
qed

lemma idle_sessions_iff:
  "x \<in> set (idle_sessions keep s) \<longleftrightarrow> x \<in> snd ` set (sessions s) \<and> activeRequests x = 0 \<and> Some (sid x) \<noteq> keep"
  by (auto simp: idle_sessions_def js_values_def)

lemma idle_head_least: "idle_sessions keep s = x # xs \<Longrightarrow> y \<in> set (idle_sessions keep s) \<Longrightarrow> lastUsed x \<le> lastUsed y"
  using sorted_sort_key [of lastUsed "filter (\<lambda>x. activeRequests x = 0 \<and> Some (sid x) \<noteq> keep) (js_values (sessions s))"]
  by (auto simp: idle_sessions_def)

text \<open>What the size pass removes: idle sessions only, each no younger than an idle survivor.\<close>

definition shrink_post :: "string option \<Rightarrow> 't store \<Rightarrow> 't store \<Rightarrow> (string \<times> 't tracked) list \<Rightarrow> bool" where
  "shrink_post keep s s' removed \<longleftrightarrow>
     table_ok s' \<and> maxSessions s' = maxSessions s \<and> ttlMs s' = ttlMs s \<and>
     closed s' = closed s @ map (transport \<circ> snd) removed \<and>
     mset (sessions s) = mset (sessions s') + mset removed \<and>
     (length (sessions s') \<le> maxSessions s' \<or> idle_sessions keep s' = []) \<and>
     (\<forall>p \<in> set removed. activeRequests (snd p) = 0 \<and> Some (fst p) \<noteq> keep \<and>
        (\<forall>y \<in> set (idle_sessions keep s'). lastUsed (snd p) \<le> lastUsed y))"

lemma shrink_spec: "table_ok s \<Longrightarrow> \<exists>removed. shrink_post keep s (shrink keep s) removed"
proof (induction s rule: shrink_induct [where keep = keep])
  case (stop s)
  then have "shrink_post keep s (shrink keep s) []" by (simp add: shrink_post_def)
  then show ?case ..
next
  case (turn s x xs)
  let ?s = "closeAndDelete (sid x) x s"
  from turn obtain removed where IH: "shrink_post keep ?s (shrink keep ?s) removed" by blast
  have x: "js_get (sessions s) (sid x) = Some x" "activeRequests x = 0" "Some (sid x) \<noteq> keep"
    using table_ok_idle [OF turn.hyps(1), of x keep] turn.hyps(3) by simp_all
  have "mset (sessions s) = add_mset (sid x, x) (mset (js_delete (sid x) (sessions s)))"
    using turn.hyps(1) x(1) by (intro js_delete_mset) (auto simp: table_ok_def)
  moreover have "mset (sessions (shrink keep ?s)) \<subseteq># mset (js_delete (sid x) (sessions s))"
    using IH by (simp add: shrink_post_def)
  then have "set (sessions (shrink keep ?s)) \<subseteq> set (sessions s)"
    using js_delete_subset by (metis set_mset_mset set_mset_mono subset_trans)
  then have "y \<in> set (idle_sessions keep s)" if "y \<in> set (idle_sessions keep (shrink keep ?s))" for y
    using that unfolding idle_sessions_iff by blast
  then have "lastUsed x \<le> lastUsed y" if "y \<in> set (idle_sessions keep (shrink keep ?s))" for y
    using that idle_head_least [OF turn.hyps(3)] by blast
  ultimately have "shrink_post keep s (shrink keep s) ((sid x, x) # removed)"
    using IH x turn.hyps(4) by (auto simp: shrink_post_def)
  then show ?case ..
qed

lemma evict_spec:
  assumes "table_ok s"
  obtains removed where "table_ok (evict now keep s)"
    "maxSessions (evict now keep s) = maxSessions s" "ttlMs (evict now keep s) = ttlMs s"
    "closed (evict now keep s) = closed s @ map (transport \<circ> snd) removed"
    "mset (sessions s) = mset (sessions (evict now keep s)) + mset removed"
    "length (sessions (evict now keep s)) \<le> maxSessions s \<or> idle_sessions keep (evict now keep s) = []"
    "\<forall>p \<in> set removed. activeRequests (snd p) = 0 \<and>
       (expired now (ttlMs s) (snd p) \<or> Some (fst p) \<noteq> keep \<and>
        (\<forall>y \<in> set (idle_sessions keep (evict now keep s)). lastUsed (snd p) \<le> lastUsed y))"
proof -
  from shrink_spec [OF table_ok_expire [OF assms], of keep now] obtain removed
    where r: "shrink_post keep (expire now s) (evict now keep s) removed" by (auto simp: evict_def)
  let ?old = "filter (\<lambda>p. expired now (ttlMs s) (snd p)) (sessions s)"
  show ?thesis
    by (rule that [of "?old @ removed"])
      (use r expire_accounting [OF assms, of now] in \<open>auto simp: shrink_post_def expired_def ac_simps\<close>)
qed

lemma evict_keeps:
  assumes "table_ok s" "js_get (sessions s) i = Some x"
    and "activeRequests x > 0 \<or> keep = Some i \<and> \<not> expired now (ttlMs s) x"
  shows "js_get (sessions (evict now keep s)) i = Some x"
proof -
  from assms(1) obtain removed where ok: "table_ok (evict now keep s)"
    and parts: "mset (sessions s) = mset (sessions (evict now keep s)) + mset removed"
    and rem: "\<forall>p \<in> set removed. activeRequests (snd p) = 0 \<and>
       (expired now (ttlMs s) (snd p) \<or> Some (fst p) \<noteq> keep \<and>
        (\<forall>y \<in> set (idle_sessions keep (evict now keep s)). lastUsed (snd p) \<le> lastUsed y))"
    by (rule evict_spec)
  have "(i, x) \<notin> set removed" using rem assms(3) by fastforce
  moreover have "(i, x) \<in> set (sessions s)" using assms(2) by (rule map_of_SomeD)
  ultimately have "(i, x) \<in> set (sessions (evict now keep s))"
    using parts by (metis Un_iff set_mset_mset set_mset_union)
  with ok show ?thesis by (simp add: js_get_in_set table_ok_def)
qed

section \<open>Properties\<close>

text \<open>
  Registering a session leaves the table within its cap, unless every other session has a
  request in flight; and the new session is in it (its own eviction cannot remove it while the two
  clock readings around the insertion are within the lifetime).
\<close>

theorem set_session_bounded:
  assumes "table_ok s" and "now3 - now2 \<le> ttlMs s"
  shows "get_session i (set_session i t now1 now2 now3 s) = Some t \<and>
    table_ok (set_session i t now1 now2 now3 s) \<and>
    (store_size (set_session i t now1 now2 now3 s) \<le> maxSessions s \<or>
     (\<forall>(j, x) \<in> set (sessions (set_session i t now1 now2 now3 s)). j \<noteq> i \<longrightarrow> activeRequests x > 0))"
proof -
  let ?s1 = "evict now1 None s"
  let ?x = "\<lparr>sid = i, transport = t, lastUsed = now2, activeRequests = 0\<rparr>"
  let ?s2 = "?s1\<lparr>sessions := js_set i ?x (sessions ?s1)\<rparr>"
  let ?s3 = "evict now3 (Some i) ?s2"
  have s3: "set_session i t now1 now2 now3 s = ?s3" by (simp add: set_session_def Let_def)
  from assms(1) have ok1: "table_ok ?s1" "maxSessions ?s1 = maxSessions s" "ttlMs ?s1 = ttlMs s"
    by (rule evict_spec; blast)+
  then have ok2: "table_ok ?s2" by (rule_tac table_ok_set) auto
  have "js_get (sessions ?s3) i = Some ?x"
    using ok2 by (rule evict_keeps) (use assms(2) ok1(3) in \<open>auto simp: expired_def\<close>)
  moreover from ok2 have ok3: "table_ok ?s3"
    and size: "length (sessions ?s3) \<le> maxSessions ?s2 \<or> idle_sessions (Some i) ?s3 = []"
    by (rule evict_spec; blast)+
  moreover have "activeRequests x > 0"
    if "idle_sessions (Some i) ?s3 = []" "(j, x) \<in> set (sessions ?s3)" "j \<noteq> i" for j x
  proof (rule ccontr)
    assume "\<not> activeRequests x > 0"
    moreover have "sid x = j" using ok3 that(2) by (auto simp: table_ok_def)
    ultimately have "x \<in> set (idle_sessions (Some i) ?s3)"
      unfolding idle_sessions_iff using that by force
    with that(1) show False by simp
  qed
  ultimately show ?thesis
    using ok1(2) by (auto simp: s3 get_session_def store_size_def)
qed

theorem set_session_bounded_witness:
  "get_session ''b'' (set_session ''b'' (2::nat) 5 5 5 (set_session ''a'' 1 0 0 0 (new_store 1 100))) = Some 2"
proof -
  have "table_ok (set_session ''a'' (1::nat) 0 0 0 (new_store 1 100))"
    by code_simp
  moreover have "ttlMs (set_session ''a'' (1::nat) 0 0 0 (new_store 1 100)) = 100" by code_simp
  ultimately show ?thesis
    using set_session_bounded [of "set_session ''a'' (1::nat) 0 0 0 (new_store 1 100)" 5 5 "''b''" 2 5] by simp
qed

text \<open>
  C17: a session with a request in flight is never evicted: neither a sweep nor the registration of
  another session removes it or touches its record.
\<close>

theorem in_flight_never_evicted:
  assumes "table_ok s" and "js_get (sessions s) i = Some x" and "activeRequests x > 0" and "j \<noteq> i"
  shows "js_get (sessions (evict now keep s)) i = Some x \<and>
    js_get (sessions (set_session j t now1 now2 now3 s)) i = Some x"
proof -
  let ?s1 = "evict now1 None s"
  let ?y = "\<lparr>sid = j, transport = t, lastUsed = now2, activeRequests = 0\<rparr>"
  let ?s2 = "?s1\<lparr>sessions := js_set j ?y (sessions ?s1)\<rparr>"
  have keep: "js_get (sessions (evict n k s)) i = Some x" for n k
    using assms(1,2) by (rule evict_keeps) (simp add: assms(3))
  from assms(1) have "table_ok ?s1" by (rule evict_spec; blast)
  then have "table_ok ?s2" by (rule_tac table_ok_set) auto
  moreover have "js_get (sessions ?s2) i = Some x" using keep assms(4) by simp
  ultimately have "js_get (sessions (evict now3 (Some j) ?s2)) i = Some x"
    by (rule evict_keeps) (simp add: assms(3))
  with keep show ?thesis by (simp add: set_session_def Let_def)
qed

theorem in_flight_never_evicted_witness:
  "js_get (sessions (evict 1000 None (beginRequest ''a'' 0 (set_session ''a'' (1::nat) 0 0 0 (new_store 0 100))))) ''a''
    = Some \<lparr>sid = ''a'', transport = 1, lastUsed = 0, activeRequests = 1\<rparr>"
proof -
  let ?s = "beginRequest ''a'' 0 (set_session ''a'' (1::nat) 0 0 0 (new_store 0 100))"
  have s: "?s = \<lparr>sessions = [(''a'', \<lparr>sid = ''a'', transport = 1, lastUsed = 0, activeRequests = 1\<rparr>)],
      maxSessions = 0, ttlMs = 100, closed = []\<rparr>" by code_simp
  show ?thesis
    using in_flight_never_evicted [of ?s "''a''" "\<lparr>sid = ''a'', transport = 1, lastUsed = 0, activeRequests = 1\<rparr>" "''b''" 1000 None]
    unfolding s by (simp add: table_ok_def js_wf_def)
qed

text \<open>
  No transport leaks: eviction closes exactly the transports of the sessions that leave the
  table, each once, and those of idle sessions only; what it closes for space is no more recently
  used than any idle session it keeps.
\<close>

theorem evict_closes_what_it_drops:
  assumes "table_ok s"
  shows "\<exists>removed. closed (evict now keep s) = closed s @ map (transport \<circ> snd) removed \<and>
    mset (sessions s) = mset (sessions (evict now keep s)) + mset removed \<and>
    (\<forall>p \<in> set removed. activeRequests (snd p) = 0 \<and>
       (now - lastUsed (snd p) > ttlMs s \<or>
        (\<forall>y \<in> set (idle_sessions keep (evict now keep s)). lastUsed (snd p) \<le> lastUsed y)))"
proof -
  from assms obtain removed where
    "closed (evict now keep s) = closed s @ map (transport \<circ> snd) removed"
    "mset (sessions s) = mset (sessions (evict now keep s)) + mset removed"
    "\<forall>p \<in> set removed. activeRequests (snd p) = 0 \<and>
       (expired now (ttlMs s) (snd p) \<or> Some (fst p) \<noteq> keep \<and>
        (\<forall>y \<in> set (idle_sessions keep (evict now keep s)). lastUsed (snd p) \<le> lastUsed y))"
    by (rule evict_spec)
  then show ?thesis by (auto simp: expired_def intro!: exI [of _ removed])
qed

theorem evict_closes_what_it_drops_witness:
  "\<exists>removed :: (string \<times> nat tracked) list. closed (evict 5 None (set_session ''a'' (1::nat) 0 0 0 (new_store 1 100))) =
     closed (set_session ''a'' (1::nat) 0 0 0 (new_store 1 100)) @ map (transport \<circ> snd) removed"
proof -
  have "table_ok (set_session ''a'' (1::nat) 0 0 0 (new_store 1 100))" by code_simp
  from evict_closes_what_it_drops [OF this, of 5 None] show ?thesis by blast
qed

end
