(* ===== verification/FileClaim.thy ===== *)
theory FileClaim
  imports Prelude
begin

text \<open>
  Cross-process claims on a lock file (src/utils/file-claim.ts). The lock file is a pair of its
  content (the token) and its mtime, or absent. Two models of the same code:

  \<^item> \<open>acquireClaim\<close>, \<open>releaseClaim\<close>, \<open>renewClaim\<close>: a call that no other process
    interleaves with, as the scheduler and the writer lease see it; the locale \<open>claim_service\<close>
    states what they rely on.
  \<^item> \<open>claim_act\<close>: any number of processes, one file-system call per step (\<open>run_proc\<close>), in any
    order. A process id names its parked file, which the code names by a fresh UUID; tokens are
    numbered in the order they are drawn. Creating the file with its token is one step.

  The two agree: a process that is not interrupted ends as \<open>acquireClaim\<close> says
  (\<open>claim_run_refines\<close>).
\<close>

section \<open>One call at a time\<close>

type_synonym token = nat
type_synonym lockfile = "(token \<times> number) option"

definition claimIsStale :: "number \<Rightarrow> number \<Rightarrow> bool" where
  "claimIsStale age staleMs \<longleftrightarrow> age > staleMs"

definition createClaim :: "token \<Rightarrow> number \<Rightarrow> lockfile \<Rightarrow> bool \<times> lockfile" where
  "createClaim tok clock lk = (case lk of None \<Rightarrow> (True, Some (tok, clock)) | Some _ \<Rightarrow> (False, lk))"

definition claimAge :: "number \<Rightarrow> lockfile \<Rightarrow> number option" where
  "claimAge now lk = map_option (\<lambda>(_, mtime). now - mtime) lk"

text \<open>The rename to the parked name, the second age check, then the link back or the new claim.\<close>

definition stealStaleClaim :: "number \<Rightarrow> number \<Rightarrow> token \<Rightarrow> number \<Rightarrow> lockfile \<Rightarrow> bool \<times> lockfile" where
  "stealStaleClaim staleMs now tok clock lk =
     (case lk of
        None \<Rightarrow> (False, None)
      | Some parked \<Rightarrow>
          (case claimAge now (Some parked) of
             None \<Rightarrow> (False, Some parked)
           | Some age \<Rightarrow>
               if \<not> claimIsStale age staleMs then (False, Some parked)
               else createClaim tok clock None))"

definition acquireClaim :: "number \<Rightarrow> number \<Rightarrow> token \<Rightarrow> number \<Rightarrow> lockfile \<Rightarrow> token option \<times> lockfile" where
  "acquireClaim staleMs now tok clock lk =
     (case createClaim tok clock lk of
        (True, lk') \<Rightarrow> (Some tok, lk')
      | (False, lk') \<Rightarrow>
          (case claimAge now lk' of
             None \<Rightarrow>
               (case createClaim tok clock lk' of
                  (ok, lk'') \<Rightarrow> (if ok then Some tok else None, lk''))
           | Some age \<Rightarrow>
               if \<not> claimIsStale age staleMs then (None, lk')
               else (case stealStaleClaim staleMs now tok clock lk' of
                       (ok, lk'') \<Rightarrow> (if ok then Some tok else None, lk''))))"

definition renewClaim :: "number \<Rightarrow> lockfile \<Rightarrow> lockfile" where
  "renewClaim clock lk = map_option (\<lambda>(tok, _). (tok, clock)) lk"

definition releaseClaim :: "token \<Rightarrow> lockfile \<Rightarrow> lockfile" where
  "releaseClaim tok lk =
     (case lk of None \<Rightarrow> None | Some (current, mtime) \<Rightarrow> if current \<noteq> tok then lk else None)"

lemma acquireClaim_cases:
  "acquireClaim staleMs now tok clock lk =
     (case lk of
        None \<Rightarrow> (Some tok, Some (tok, clock))
      | Some (t, mtime) \<Rightarrow> if now - mtime > staleMs then (Some tok, Some (tok, clock)) else (None, lk))"
  by (auto simp: acquireClaim_def createClaim_def claimAge_def claimIsStale_def stealStaleClaim_def
      split: option.split)

section \<open>What a client of the claim relies on\<close>

locale claim_service =
  fixes acquire :: "number \<Rightarrow> number \<Rightarrow> 't \<Rightarrow> number \<Rightarrow> 'l \<Rightarrow> 't option \<times> 'l"
    and renew :: "number \<Rightarrow> 'l \<Rightarrow> 'l"
    and release :: "'t \<Rightarrow> 'l \<Rightarrow> 'l"
    and holder :: "'l \<Rightarrow> ('t \<times> number) option"
  assumes acquire_wins: "fst (acquire st now t clock l) = Some t' \<Longrightarrow>
      t' = t \<and> holder (snd (acquire st now t clock l)) = Some (t, clock)"
    and acquire_loses: "fst (acquire st now t clock l) = None \<Longrightarrow> snd (acquire st now t clock l) = l"
    and acquire_iff: "fst (acquire st now t clock l) \<noteq> None \<longleftrightarrow>
      (\<forall>t' m. holder l = Some (t', m) \<longrightarrow> now - m > st)"
    and release_own: "holder l = Some (t, m) \<Longrightarrow> holder (release t l) = None"
    and release_other: "holder l \<noteq> None \<Longrightarrow> fst (the (holder l)) \<noteq> t \<Longrightarrow> release t l = l"
    and release_none: "holder l = None \<Longrightarrow> release t l = l"
    and renew_holder: "holder (renew clock l) = map_option (\<lambda>(t, m). (t, clock)) (holder l)"
begin

lemma live_claim_excludes:
  assumes "holder l = Some (t, m)" "now - m \<le> st"
  shows "acquire st now t' clock l = (None, l)"
proof -
  have "fst (acquire st now t' clock l) = None" using assms acquire_iff [of st now t' clock l] by auto
  with acquire_loses show ?thesis by (metis prod.collapse)
qed

lemma release_keeps_others: "holder l = Some (t, m) \<Longrightarrow> t \<noteq> t' \<Longrightarrow> release t' l = l"
  by (rule release_other) auto

lemma holder_kept_until_stale:
  assumes "holder l = Some (t, m)" "now - m \<le> st" "t \<noteq> t'"
  shows "holder (snd (acquire st now t' clock l)) = Some (t, m)"
    and "holder (release t' l) = Some (t, m)"
  using assms live_claim_excludes [OF assms(1,2)] release_keeps_others [OF assms(1,3)] by auto

end

interpretation file_claim: claim_service acquireClaim renewClaim releaseClaim "\<lambda>lk. lk"
  by unfold_locales (auto simp: acquireClaim_cases releaseClaim_def renewClaim_def split: option.splits if_splits)

section \<open>Processes that interleave\<close>

text \<open>
  The program counter of a process inside \<open>acquireClaim\<close>, while it holds the claim, and inside
  \<open>releaseClaim\<close>; each constructor is the file-system call it will make next.
\<close>

datatype phase =
    Idle
  | WantCreate        \<comment> \<open>\<open>writeFile wx\<close> of the first \<open>createClaim\<close>\<close>
  | WantAge           \<comment> \<open>\<open>stat\<close> of the lock\<close>
  | RetryCreate       \<comment> \<open>the lock vanished before \<open>stat\<close>: \<open>createClaim\<close> again\<close>
  | WantPark          \<comment> \<open>\<open>rename\<close> of the stale lock\<close>
  | CheckParked       \<comment> \<open>\<open>stat\<close> of the parked file\<close>
  | WantLink          \<comment> \<open>\<open>link\<close> the parked file back\<close>
  | WantSteal         \<comment> \<open>\<open>createClaim\<close> after parking\<close>
  | WantUnpark bool   \<comment> \<open>\<open>unlink\<close> of the parked file, then return\<close>
  | Holding
  | WantRead          \<comment> \<open>\<open>releaseClaim\<close> reads the token\<close>
  | WantUnlink
  | Dead              \<comment> \<open>the process ended while it held the claim\<close>

record proc =
  phase :: phase
  tok :: token
  callNow :: number

record sys =
  procs :: "nat \<Rightarrow> proc"
  lock :: lockfile
  parked :: "nat \<Rightarrow> lockfile"
  clock :: number
  nextTok :: token

definition set_phase :: "nat \<Rightarrow> phase \<Rightarrow> sys \<Rightarrow> sys" where
  "set_phase i ph s = s\<lparr>procs := (procs s)(i := (procs s i)\<lparr>phase := ph\<rparr>)\<rparr>"

definition create_then :: "nat \<Rightarrow> phase \<Rightarrow> phase \<Rightarrow> sys \<Rightarrow> sys" where
  "create_then i won lost s =
     (case createClaim (tok (procs s i)) (clock s) (lock s) of
        (ok, lk) \<Rightarrow> set_phase i (if ok then won else lost) (s\<lparr>lock := lk\<rparr>))"

definition run_proc :: "number \<Rightarrow> nat \<Rightarrow> sys \<Rightarrow> sys option" where
  "run_proc st i s =
     (case phase (procs s i) of
        WantCreate \<Rightarrow> Some (create_then i Holding WantAge s)
      | WantAge \<Rightarrow>
          (case claimAge (callNow (procs s i)) (lock s) of
             None \<Rightarrow> Some (set_phase i RetryCreate s)
           | Some age \<Rightarrow> Some (set_phase i (if claimIsStale age st then WantPark else Idle) s))
      | RetryCreate \<Rightarrow> Some (create_then i Holding Idle s)
      | WantPark \<Rightarrow>
          (case lock s of
             None \<Rightarrow> Some (set_phase i Idle s)
           | Some f \<Rightarrow> Some (set_phase i CheckParked (s\<lparr>lock := None, parked := (parked s)(i := Some f)\<rparr>)))
      | CheckParked \<Rightarrow>
          (case claimAge (callNow (procs s i)) (parked s i) of
             None \<Rightarrow> Some (set_phase i WantLink s)
           | Some age \<Rightarrow> Some (set_phase i (if claimIsStale age st then WantSteal else WantLink) s))
      | WantLink \<Rightarrow>
          Some (set_phase i (WantUnpark False)
            (case lock s of None \<Rightarrow> s\<lparr>lock := parked s i\<rparr> | Some _ \<Rightarrow> s))
      | WantSteal \<Rightarrow> Some (create_then i (WantUnpark True) (WantUnpark False) s)
      | WantUnpark won \<Rightarrow>
          Some (set_phase i (if won then Holding else Idle) (s\<lparr>parked := (parked s)(i := None)\<rparr>))
      | WantRead \<Rightarrow>
          (case lock s of
             None \<Rightarrow> Some (set_phase i Idle s)
           | Some (t, _) \<Rightarrow> Some (set_phase i (if t \<noteq> tok (procs s i) then Idle else WantUnlink) s))
      | WantUnlink \<Rightarrow> Some (set_phase i Idle (s\<lparr>lock := None\<rparr>))
      | _ \<Rightarrow> None)"

datatype act = Begin nat number | Run nat | Renew nat | Release nat | Crash nat | Tick number

fun claim_act :: "number \<Rightarrow> act \<Rightarrow> sys \<Rightarrow> sys option" where
  "claim_act st (Begin i now) s =
     (if phase (procs s i) = Idle \<and> now \<le> clock s
      then Some (s\<lparr>procs := (procs s)(i := \<lparr>phase = WantCreate, tok = nextTok s, callNow = now\<rparr>),
                   nextTok := Suc (nextTok s)\<rparr>)
      else None)"
| "claim_act st (Run i) s = run_proc st i s"
| "claim_act st (Renew i) s =
     (if phase (procs s i) = Holding then Some (s\<lparr>lock := renewClaim (clock s) (lock s)\<rparr>) else None)"
| "claim_act st (Release i) s =
     (if phase (procs s i) = Holding then Some (set_phase i WantRead s) else None)"
| "claim_act st (Crash i) s =
     (if phase (procs s i) = Holding then Some (set_phase i Dead s) else None)"
| "claim_act st (Tick d) s = (if 0 \<le> d then Some (s\<lparr>clock := clock s + d\<rparr>) else None)"

fun claim_acts :: "number \<Rightarrow> act list \<Rightarrow> sys \<Rightarrow> sys option" where
  "claim_acts st [] s = Some s"
| "claim_acts st (a # as) s = (case claim_act st a s of None \<Rightarrow> None | Some s' \<Rightarrow> claim_acts st as s')"

definition claim_init :: "sys \<Rightarrow> bool" where
  "claim_init s \<longleftrightarrow> (\<forall>i. phase (procs s i) = Idle) \<and> lock s = None"

text \<open>A run in which the file on disk is never older than the stale window: its holder renews in time.\<close>

definition timely :: "number \<Rightarrow> sys \<Rightarrow> bool" where
  "timely st s \<longleftrightarrow> (\<forall>t m. lock s = Some (t, m) \<longrightarrow> clock s - m \<le> st)"

inductive timely_step :: "number \<Rightarrow> sys \<Rightarrow> sys \<Rightarrow> bool" for st where
  act: "timely st s \<Longrightarrow> claim_act st a s = Some t \<Longrightarrow> timely_step st s t"

inductive_cases timely_stepE: "timely_step st s t"

definition holds :: "sys \<Rightarrow> nat \<Rightarrow> bool" where
  "holds s i \<longleftrightarrow> phase (procs s i) \<in> {Holding, WantUnpark True}"

section \<open>Exclusion while claims are renewed\<close>

text \<open>
  While nothing on disk is stale no process parks: every process that holds or is releasing the
  claim (or died with it) has its own token in the lock file, and tokens are distinct.
\<close>

definition owning :: "phase \<Rightarrow> bool" where
  "owning ph \<longleftrightarrow> ph \<in> {Holding, WantUnlink, Dead}"

definition claim_inv :: "sys \<Rightarrow> bool" where
  "claim_inv s \<longleftrightarrow>
     (\<forall>i. owning (phase (procs s i)) \<longrightarrow> (\<exists>m. lock s = Some (tok (procs s i), m))) \<and>
     (\<forall>i. phase (procs s i) \<noteq> Idle \<longrightarrow> tok (procs s i) < nextTok s) \<and>
     (\<forall>i j. phase (procs s i) \<noteq> Idle \<longrightarrow> phase (procs s j) \<noteq> Idle \<longrightarrow>
        tok (procs s i) = tok (procs s j) \<longrightarrow> i = j) \<and>
     (\<forall>i. callNow (procs s i) \<le> clock s \<or> phase (procs s i) = Idle) \<and>
     (\<forall>i. phase (procs s i) \<notin> {WantPark, CheckParked, WantLink, WantSteal, WantUnpark True, WantUnpark False})"

lemma claim_inv_init: "claim_init s \<Longrightarrow> claim_inv s"
  by (auto simp: claim_init_def claim_inv_def owning_def)

lemma set_phase_fields [simp]:
  "procs (set_phase i ph s) = (procs s)(i := (procs s i)\<lparr>phase := ph\<rparr>)"
  "lock (set_phase i ph s) = lock s"
  "clock (set_phase i ph s) = clock s"
  "nextTok (set_phase i ph s) = nextTok s"
  "parked (set_phase i ph s) = parked s"
  by (simp_all add: set_phase_def)

lemma set_phase_inv:
  assumes "claim_inv s" "phase (procs s i) \<noteq> Idle"
    and "owning ph \<Longrightarrow> \<exists>m. lk = Some (tok (procs s i), m)"
    and "ph \<notin> {WantPark, CheckParked, WantLink, WantSteal, WantUnpark True, WantUnpark False}"
    and "\<And>j. j \<noteq> i \<Longrightarrow> owning (phase (procs s j)) \<Longrightarrow> \<exists>m. lk = Some (tok (procs s j), m)"
  shows "claim_inv (set_phase i ph (s\<lparr>lock := lk\<rparr>))"
  using assms unfolding claim_inv_def by (auto simp: fun_upd_def)

lemma lock_same [simp]: "lock s = lk \<Longrightarrow> s\<lparr>lock := lk\<rparr> = s"
  by auto

lemma run_proc_inv:
  assumes inv: "claim_inv s" and time: "timely st s" and run: "run_proc st i s = Some t"
  shows "claim_inv t"
proof -
  have own: "owning (phase (procs s j)) \<Longrightarrow> \<exists>m. lock s = Some (tok (procs s j), m)" for j
    using inv by (auto simp: claim_inv_def)
  have same: "claim_inv (set_phase i ph s)"
    if "phase (procs s i) \<noteq> Idle" "owning ph \<Longrightarrow> \<exists>m. lock s = Some (tok (procs s i), m)"
      "ph \<notin> {WantPark, CheckParked, WantLink, WantSteal, WantUnpark True, WantUnpark False}" for ph
    using set_phase_inv [OF inv, of i ph "lock s"] that own by simp
  have now: "phase (procs s i) \<noteq> Idle \<Longrightarrow> callNow (procs s i) \<le> clock s"
    using inv by (auto simp: claim_inv_def)
  have uniq: "phase (procs s i) \<noteq> Idle \<Longrightarrow> phase (procs s j) \<noteq> Idle \<Longrightarrow> tok (procs s i) = tok (procs s j) \<Longrightarrow> i = j" for j
    using inv by (auto simp: claim_inv_def)
  have create: "claim_inv (create_then i Holding ph s)"
    if "phase (procs s i) \<noteq> Idle" "ph \<in> {WantAge, Idle}" for ph
  proof (cases "lock s")
    case None
    with own have "\<not> owning (phase (procs s j))" for j by force
    with that None show ?thesis
      unfolding create_then_def createClaim_def by (auto intro!: set_phase_inv [OF inv] simp: owning_def)
  next
    case (Some f)
    with that own same [of ph] show ?thesis
      by (auto simp: create_then_def createClaim_def owning_def)
  qed
  have never: "phase (procs s i) \<notin> {WantPark, CheckParked, WantLink, WantSteal, WantUnpark True, WantUnpark False}"
    using inv by (auto simp: claim_inv_def)
  have fresh: "\<not> claimIsStale (callNow (procs s i) - m) st" if "lock s = Some (t, m)" "phase (procs s i) \<noteq> Idle" for t m
    using time that now by (fastforce simp: timely_def claimIsStale_def)
  show ?thesis
  proof (cases "phase (procs s i)")
    case WantCreate
    with run create [of WantAge] show ?thesis by (simp add: run_proc_def)
  next
    case WantAge
    show ?thesis
    proof (cases "lock s")
      case None
      with WantAge run own same [of RetryCreate] show ?thesis
        by (simp add: run_proc_def claimAge_def owning_def)
    next
      case (Some f)
      with WantAge run own fresh same [of Idle] show ?thesis
        by (cases f) (simp add: run_proc_def claimAge_def owning_def)
    qed
  next
    case RetryCreate
    with run create [of Idle] show ?thesis by (simp add: run_proc_def)
  next
    case (WantUnpark b)
    with never show ?thesis by (cases b) auto
  next
    case WantRead
    show ?thesis
    proof (cases "lock s")
      case None
      with WantRead run own same [of Idle] show ?thesis by (simp add: run_proc_def owning_def)
    next
      case (Some f)
      with WantRead run own same [of Idle] same [of WantUnlink] show ?thesis
        by (cases f) (auto simp: run_proc_def owning_def split: if_splits)
    qed
  next
    case WantUnlink
    have "\<not> owning (phase (procs s j))" if "j \<noteq> i" for j
    proof
      assume "owning (phase (procs s j))"
      with own [of j] own [of i] WantUnlink have "tok (procs s i) = tok (procs s j)"
        by (auto simp: owning_def)
      with uniq [of j] WantUnlink \<open>owning (phase (procs s j))\<close> that show False by (auto simp: owning_def)
    qed
    with WantUnlink run show ?thesis
      by (auto simp: run_proc_def owning_def intro!: set_phase_inv [OF inv])
  qed (use never run in \<open>auto simp: run_proc_def\<close>)
qed

lemma claim_act_inv:
  assumes inv: "claim_inv s" and time: "timely st s" and act: "claim_act st a s = Some t"
  shows "claim_inv t"
proof (cases a)
  case (Begin i now)
  with inv act show ?thesis
    by (auto simp: claim_inv_def owning_def split: if_splits dest: less_SucI) (metis less_irrefl)+
next
  case (Run i)
  with run_proc_inv [OF inv time] act show ?thesis by simp
next
  case (Renew i)
  with inv act show ?thesis
    by (fastforce simp: claim_inv_def renewClaim_def split: if_splits)
next
  case (Release i)
  with act have ph: "phase (procs s i) = Holding" and t: "t = set_phase i WantRead (s\<lparr>lock := lock s\<rparr>)"
    by (auto split: if_splits)
  show ?thesis
    unfolding t using ph inv by (intro set_phase_inv [OF inv]) (auto simp: owning_def claim_inv_def)
next
  case (Crash i)
  with act have ph: "phase (procs s i) = Holding" and t: "t = set_phase i Dead (s\<lparr>lock := lock s\<rparr>)"
    by (auto split: if_splits)
  show ?thesis
    unfolding t using ph inv by (intro set_phase_inv [OF inv]) (auto simp: owning_def claim_inv_def)
next
  case (Tick d)
  with inv act show ?thesis
    by (force simp: claim_inv_def split: if_splits)
qed

interpretation timely_claims: invariant_system claim_init "timely_step st" claim_inv for st
  by unfold_locales (auto intro: claim_inv_init claim_act_inv elim!: timely_stepE)

section \<open>Properties\<close>

text \<open>
  C1: in every interleaving of any number of processes, as long as the lock file on disk is
  renewed before it is older than the stale window, at most one process holds the claim.
\<close>

theorem claims_exclusive:
  assumes "reachable claim_init (timely_step st) s" and "holds s i" and "holds s j"
  shows "i = j"
proof -
  from assms(1) have inv: "claim_inv s" by (rule timely_claims.reachable_inv)
  then have never: "phase (procs s k) \<noteq> WantUnpark True" for k
    unfolding claim_inv_def by blast
  have h: "phase (procs s k) = Holding" if "holds s k" for k
    using that never [of k] by (simp add: holds_def)
  have own: "\<exists>m. lock s = Some (tok (procs s k), m)" if "holds s k" for k
    using inv h [OF that] unfolding claim_inv_def owning_def by blast
  have "tok (procs s i) = tok (procs s j)"
    using own [OF assms(2)] own [OF assms(3)] by auto
  moreover have "phase (procs s i) \<noteq> Idle" "phase (procs s j) \<noteq> Idle"
    using h [OF assms(2)] h [OF assms(3)] by simp_all
  ultimately show ?thesis using inv unfolding claim_inv_def by blast
qed

definition idle_sys :: sys where
  "idle_sys = \<lparr>procs = (\<lambda>_. \<lparr>phase = Idle, tok = 0, callNow = 0\<rparr>), lock = None,
     parked = (\<lambda>_. None), clock = 0, nextTok = 0\<rparr>"

theorem claims_exclusive_witness:
  "\<exists>s. reachable claim_init (timely_step 5) s \<and> holds s 1 \<and> (\<forall>i. holds s i \<longrightarrow> i = 1)"
proof -
  let ?s1 = "idle_sys\<lparr>procs := (procs idle_sys)(1 := \<lparr>phase = WantCreate, tok = 0, callNow = 0\<rparr>), nextTok := 1\<rparr>"
  let ?s2 = "create_then 1 Holding WantAge ?s1"
  have "reachable claim_init (timely_step 5) idle_sys"
    by (rule reach_init) (simp add: claim_init_def idle_sys_def)
  then have "reachable claim_init (timely_step 5) ?s1"
    by (rule reach_step) (rule timely_step.act [where a = "Begin 1 0"]; simp add: timely_def idle_sys_def)
  then have r: "reachable claim_init (timely_step 5) ?s2"
    by (rule reach_step) (rule timely_step.act [where a = "Run 1"]; simp add: timely_def idle_sys_def run_proc_def)
  have h: "holds ?s2 1" by (simp add: holds_def create_then_def createClaim_def idle_sys_def)
  have "i = 1" if "holds ?s2 i" for i using claims_exclusive [OF r that h] .
  with r h show ?thesis by blast
qed

text \<open>Four processes, the others idle: the normal form in which the race below is evaluated.\<close>

definition four_procs :: "proc \<Rightarrow> proc \<Rightarrow> proc \<Rightarrow> proc \<Rightarrow> nat \<Rightarrow> proc" where
  "four_procs a b c d i =
     (if i = 0 then a else if i = 1 then b else if i = 2 then c else if i = 3 then d
      else \<lparr>phase = Idle, tok = 0, callNow = 0\<rparr>)"

lemma four_procs_simps [simp]:
  "four_procs a b c d 0 = a" "four_procs a b c d 1 = b" "four_procs a b c d (Suc 0) = b"
  "four_procs a b c d 2 = c" "four_procs a b c d 3 = d"
  "(four_procs a b c d)(0 := x) = four_procs x b c d"
  "(four_procs a b c d)(1 := x) = four_procs a x c d"
  "(four_procs a b c d)(Suc 0 := x) = four_procs a x c d"
  "(four_procs a b c d)(2 := x) = four_procs a b x d"
  "(four_procs a b c d)(3 := x) = four_procs a b c x"
  by (auto simp: four_procs_def fun_eq_iff)

lemma idle_sys_four:
  "idle_sys = \<lparr>procs = four_procs \<lparr>phase = Idle, tok = 0, callNow = 0\<rparr> \<lparr>phase = Idle, tok = 0, callNow = 0\<rparr>
     \<lparr>phase = Idle, tok = 0, callNow = 0\<rparr> \<lparr>phase = Idle, tok = 0, callNow = 0\<rparr>, lock = None,
     parked = (\<lambda>_. None), clock = 0, nextTok = 0\<rparr>"
  by (simp add: idle_sys_def four_procs_def fun_eq_iff)

text \<open>
  The link back after a wrongly parked claim does not restore exclusion. Process 0 dies with
  the claim; after the stale window processes 1 and 2 both find it stale; 1 takes it over; 2 parks
  the fresh claim of 1 by its rename; before 2 links it back, process 3 creates its own. 1 and 3 now
  both hold a claim taken moments ago, and the link back of 2 fails and drops the claim of 1.
\<close>

theorem takeover_race_two_holders:
  "case claim_acts 300000
      [Begin 0 0, Run 0, Crash 0, Tick 300001,
       Begin 1 300001, Run 1, Run 1, Begin 2 300001, Run 2, Run 2,
       Run 1, Run 1, Run 1, Run 1,
       Run 2, Run 2, Begin 3 300001, Run 3, Run 2, Run 2] idle_sys of
     None \<Rightarrow> False
   | Some s \<Rightarrow> holds s 1 \<and> holds s 3 \<and> lock s = Some (tok (procs s 3), clock s) \<and>
       parked s 1 = None \<and> parked s 2 = None"
  by (simp add: idle_sys_four run_proc_def create_then_def createClaim_def claimAge_def claimIsStale_def holds_def set_phase_def)



text \<open>
  Release deletes the lock only while it holds the caller's token, so a holder whose claim was
  taken over cannot free its successor's; renewing moves the mtime and never the owner.
\<close>

theorem release_own_only:
  "releaseClaim t lk = (if \<exists>m. lk = Some (t, m) then None else lk) \<and>
   map_option fst (renewClaim now lk) = map_option fst lk \<and>
   (acquireClaim st now t clk lk = (Some t, Some (t, clk)) \<or> acquireClaim st now t clk lk = (None, lk))"
  by (auto simp: releaseClaim_def renewClaim_def acquireClaim_cases split: option.split)

end
