(* ===== verification/WriterLease.thy ===== *)
theory WriterLease
  imports FileClaim
begin

text \<open>
  The writer lease (src/safety/writer-lease.ts) and what hangs on it: the mailbox writers it starts
  and stops (src/safety/stdio-writers.ts, src/safety/write-side-effects.ts) and the shutdown
  sequence (src/safety/shutdown.ts). A \<open>world\<close> is the lock file of the machine and one \<open>member\<close>
  per server process; a step of \<open>createWriterLease\<close> is split at its \<open>await\<close> of the claim, so
  a shutdown can begin between the two halves. The lemmas show that renewed leases give one
  process with running writers, that a process whose lease was taken over stops its writers at its
  next tick, and that shutdown runs its steps once, in order, within its deadline.
\<close>

section \<open>The lease of one process\<close>

definition WRITER_LEASE_RENEW_MS :: number where "WRITER_LEASE_RENEW_MS = 30000"
definition WRITER_LEASE_STALE_MS :: number where "WRITER_LEASE_STALE_MS = 4 * WRITER_LEASE_RENEW_MS"

datatype pending = NoStep | GotClaim "token option"

text \<open>\<open>stage\<close> counts the shutdown steps taken: halt, its wait, the three stops, the release.\<close>

record member =
  ltoken :: "token option"
  halted :: bool
  running :: pending
  hooksOn :: bool
  schedulerOn :: bool
  watcherOn :: bool
  stage :: nat

definition new_member :: member where
  "new_member = \<lparr>ltoken = None, halted = False, running = NoStep, hooksOn = False, schedulerOn = False,
     watcherOn = False, stage = 0\<rparr>"

definition leading :: "member \<Rightarrow> bool" where
  "leading m \<longleftrightarrow> ltoken m \<noteq> None"

definition stillHeld :: "lockfile \<Rightarrow> token \<Rightarrow> bool" where
  "stillHeld lk t = (case lk of None \<Rightarrow> False | Some (current, _) \<Rightarrow> current = t)"

text \<open>
  \<open>startMailboxWriters\<close>: hooks, then scheduler, then watcher; \<open>n\<close> is the number of starts that
  return before one throws (three when none does).
\<close>

definition startMailboxWriters :: "nat \<Rightarrow> member \<Rightarrow> member" where
  "startMailboxWriters n m =
     (let m1 = (if n \<ge> 1 then m\<lparr>hooksOn := True\<rparr> else m);
          m2 = (if n \<ge> 2 then m1\<lparr>schedulerOn := True\<rparr> else m1)
      in if n \<ge> 3 then m2\<lparr>watcherOn := True\<rparr> else m2)"

definition maybeStartMailboxWriters :: "bool \<Rightarrow> nat \<Rightarrow> member \<Rightarrow> bool \<times> member" where
  "maybeStartMailboxWriters canWrite n m =
     (if \<not> canWrite then (False, m) else (True, startMailboxWriters n m))"

definition stopScheduler :: "member \<Rightarrow> member" where "stopScheduler m = m\<lparr>schedulerOn := False\<rparr>"
definition stopHooks :: "member \<Rightarrow> member" where "stopHooks m = m\<lparr>hooksOn := False\<rparr>"
definition stopWatcher :: "member \<Rightarrow> member" where "stopWatcher m = m\<lparr>watcherOn := False\<rparr>"

definition onLose :: "member \<Rightarrow> member" where
  "onLose m = stopWatcher (stopHooks (stopScheduler m))"

text \<open>The first half of a step: up to the answer of the claim, or the whole renewal.\<close>

definition step_begin :: "number \<Rightarrow> token \<Rightarrow> number \<Rightarrow> member \<Rightarrow> lockfile \<Rightarrow> member \<times> lockfile" where
  "step_begin now fresh clk m lk =
     (case ltoken m of
        None \<Rightarrow>
          (case acquireClaim WRITER_LEASE_STALE_MS now fresh clk lk of
             (acquired, lk') \<Rightarrow> (m\<lparr>running := GotClaim acquired\<rparr>, lk'))
      | Some t \<Rightarrow>
          if stillHeld lk t then (m, renewClaim now lk)
          else (onLose (m\<lparr>ltoken := None\<rparr>), lk))"

definition step_end :: "nat \<Rightarrow> member \<Rightarrow> lockfile \<Rightarrow> member \<times> lockfile" where
  "step_end n m lk =
     (case running m of
        NoStep \<Rightarrow> (m, lk)
      | GotClaim None \<Rightarrow> (m\<lparr>running := NoStep\<rparr>, lk)
      | GotClaim (Some t) \<Rightarrow>
          if halted m then (m\<lparr>running := NoStep\<rparr>, releaseClaim t lk)
          else (startMailboxWriters n (m\<lparr>running := NoStep, ltoken := Some t\<rparr>), lk))"

text \<open>\<open>tick\<close> joins the step in flight (\<open>running ??= step()\<close>).\<close>

definition tick :: "number \<Rightarrow> token \<Rightarrow> number \<Rightarrow> member \<Rightarrow> lockfile \<Rightarrow> member \<times> lockfile" where
  "tick now fresh clk m lk = (if running m = NoStep then step_begin now fresh clk m lk else (m, lk))"

definition release :: "member \<Rightarrow> lockfile \<Rightarrow> member \<times> lockfile" where
  "release m lk = (case ltoken m of None \<Rightarrow> (m, lk) | Some t \<Rightarrow> (m\<lparr>ltoken := None\<rparr>, releaseClaim t lk))"

text \<open>
  \<open>shutdownSteps\<close>: halt (set the flag, then wait for the step in flight), the stops in order, and
  the release; the connections and the server that follow hold no mailbox writer.
\<close>

definition shutdown_stage :: "member \<Rightarrow> lockfile \<Rightarrow> (member \<times> lockfile) option" where
  "shutdown_stage m lk =
     (let next = (\<lambda>m. m\<lparr>stage := Suc (stage m)\<rparr>) in
      if stage m = 0 then Some (next (m\<lparr>halted := True\<rparr>), lk)
      else if stage m = 1 then (if running m = NoStep then Some (next m, lk) else None)
      else if stage m = 2 then Some (next (stopScheduler m), lk)
      else if stage m = 3 then Some (next (stopHooks m), lk)
      else if stage m = 4 then Some (next (stopWatcher m), lk)
      else if stage m = 5 then (case release m lk of (m', lk') \<Rightarrow> Some (next m', lk'))
      else None)"

section \<open>The processes of one machine\<close>

record world =
  members :: "nat \<Rightarrow> member"
  leaseFile :: lockfile
  wclock :: number
  fresh :: token

definition world_init :: "world \<Rightarrow> bool" where
  "world_init w \<longleftrightarrow> (\<forall>i. members w i = new_member) \<and> leaseFile w = None"

definition put_member :: "nat \<Rightarrow> member \<times> lockfile \<Rightarrow> world \<Rightarrow> world" where
  "put_member i r w = w\<lparr>members := (members w)(i := fst r), leaseFile := snd r\<rparr>"

inductive world_step :: "world \<Rightarrow> world \<Rightarrow> bool" where
  tick: "world_step w ((put_member i (tick (wclock w) (fresh w) (wclock w) (members w i) (leaseFile w)) w)
           \<lparr>fresh := Suc (fresh w)\<rparr>)"
| step_end: "world_step w (put_member i (step_end n (members w i) (leaseFile w)) w)"
| shutdown: "shutdown_stage (members w i) (leaseFile w) = Some r \<Longrightarrow> world_step w (put_member i r w)"
| time: "0 \<le> d \<Longrightarrow> world_step w (w\<lparr>wclock := wclock w + d\<rparr>)"

definition lease_fresh :: "world \<Rightarrow> bool" where
  "lease_fresh w \<longleftrightarrow> (\<forall>t m. leaseFile w = Some (t, m) \<longrightarrow> wclock w - m \<le> WRITER_LEASE_STALE_MS)"

inductive renewed_step :: "world \<Rightarrow> world \<Rightarrow> bool" where
  renewed: "lease_fresh w \<Longrightarrow> world_step w w' \<Longrightarrow> renewed_step w w'"

inductive_cases renewed_stepE: "renewed_step w w'"

definition writing :: "member \<Rightarrow> bool" where
  "writing m \<longleftrightarrow> hooksOn m \<or> schedulerOn m \<or> watcherOn m"

section \<open>Exclusion\<close>

definition owns :: "member \<Rightarrow> token \<Rightarrow> bool" where
  "owns m t \<longleftrightarrow> ltoken m = Some t \<or> running m = GotClaim (Some t)"

definition member_ok :: "lockfile \<Rightarrow> token \<Rightarrow> member \<Rightarrow> bool" where
  "member_ok lk fr m \<longleftrightarrow>
     (\<forall>t. owns m t \<longrightarrow> t < fr \<and> (\<exists>u. lk = Some (t, u))) \<and>
     (running m \<noteq> NoStep \<longrightarrow> ltoken m = None) \<and>
     (writing m \<longrightarrow> ltoken m \<noteq> None) \<and>
     (stage m \<ge> 1 \<longrightarrow> halted m) \<and>
     (stage m \<ge> 3 \<longrightarrow> \<not> schedulerOn m) \<and> (stage m \<ge> 4 \<longrightarrow> \<not> hooksOn m) \<and> (stage m \<ge> 5 \<longrightarrow> \<not> watcherOn m)"

definition world_inv :: "world \<Rightarrow> bool" where
  "world_inv w \<longleftrightarrow> (\<forall>i. member_ok (leaseFile w) (fresh w) (members w i)) \<and>
     (\<forall>i j t. owns (members w i) t \<longrightarrow> owns (members w j) t \<longrightarrow> i = j)"

lemma world_inv_init: "world_init w \<Longrightarrow> world_inv w"
  by (simp add: world_init_def world_inv_def member_ok_def owns_def new_member_def writing_def)

text \<open>
  One member moves: the invariant needs the moved member to be fine in the new file, no token of
  another member to be taken from the file, and the moved member to own nothing of another's.
\<close>

lemma put_member_inv:
  assumes inv: "world_inv w" and ok: "member_ok lk fr m" and fr: "fresh w \<le> fr"
    and keep: "\<And>j t. j \<noteq> i \<Longrightarrow> owns (members w j) t \<Longrightarrow> \<exists>u. lk = Some (t, u)"
    and own: "\<And>t. owns m t \<Longrightarrow> owns (members w i) t \<or> t = fresh w"
    and lkf: "lk = leaseFile w'" and w': "members w' = (members w)(i := m)" "fresh w' = fr"
  shows "world_inv w'"
proof -
  have lt: "owns (members w j) t \<Longrightarrow> t < fresh w" for j t
    using inv by (auto simp: world_inv_def member_ok_def)
  have other: "member_ok lk fr (members w j)" if "j \<noteq> i" for j
    using inv keep [OF that] fr that lt [of j] unfolding world_inv_def member_ok_def
    by (meson less_le_trans)
  have uniq: "j = i" if "owns m t" "owns (members w j) t" for j t
    using own [OF that(1)] that(2) lt [OF that(2)] inv unfolding world_inv_def by blast
  show ?thesis
    unfolding world_inv_def lkf [symmetric] w'
    using ok other uniq inv by (auto simp: world_inv_def fun_upd_def split: if_splits)
qed

lemma member_facts:
  assumes "world_inv w"
  shows "owns (members w i) t \<Longrightarrow> \<exists>u. leaseFile w = Some (t, u)"
    and "owns (members w i) t \<Longrightarrow> owns (members w j) t \<Longrightarrow> i = j"
    and "member_ok (leaseFile w) (fresh w) (members w i)"
  using assms unfolding world_inv_def member_ok_def by blast+

lemma same_file_inv:
  assumes inv: "world_inv w" and own: "\<And>t. owns m t \<Longrightarrow> owns (members w i) t" and fr: "fresh w \<le> fr"
    and rest: "running m \<noteq> NoStep \<longrightarrow> ltoken m = None" "writing m \<longrightarrow> ltoken m \<noteq> None"
      "stage m \<ge> 1 \<longrightarrow> halted m" "stage m \<ge> 3 \<longrightarrow> \<not> schedulerOn m"
      "stage m \<ge> 4 \<longrightarrow> \<not> hooksOn m" "stage m \<ge> 5 \<longrightarrow> \<not> watcherOn m"
    and w': "members w' = (members w)(i := m)" "fresh w' = fr" "leaseFile w' = leaseFile w"
  shows "world_inv w'"
proof (rule put_member_inv [OF inv])
  have "t < fresh w \<and> (\<exists>u. leaseFile w = Some (t, u))" if "owns m t" for t
    using member_facts(3) [OF inv, of i] own [OF that] unfolding member_ok_def by blast
  then show "member_ok (leaseFile w) fr m"
    unfolding member_ok_def using rest fr by (blast intro: less_le_trans)
  show "\<exists>u. leaseFile w = Some (t, u)" if "owns (members w j) t" for j t
    using member_facts(1) [OF inv that] .
qed (use own fr w' in auto)

lemma tick_inv:
  assumes inv: "world_inv w" and time: "lease_fresh w"
  shows "world_inv ((put_member i (tick (wclock w) (fresh w) (wclock w) (members w i) (leaseFile w)) w)
           \<lparr>fresh := Suc (fresh w)\<rparr>)" (is "world_inv ?w")
proof -
  let ?m = "members w i" and ?lk = "leaseFile w"
  obtain m lk where r: "tick (wclock w) (fresh w) (wclock w) ?m ?lk = (m, lk)" by fastforce
  note ok = member_facts(3) [OF inv, of i]
  consider (busy) "running ?m \<noteq> NoStep" "m = ?m" "lk = ?lk"
    | (free) "running ?m = NoStep" "ltoken ?m = None" "?lk = None" "m = ?m\<lparr>running := GotClaim (Some (fresh w))\<rparr>"
        "lk = Some (fresh w, wclock w)"
    | (lost) "running ?m = NoStep" "ltoken ?m = None" "?lk \<noteq> None" "m = ?m\<lparr>running := GotClaim None\<rparr>" "lk = ?lk"
    | (held) t u where "running ?m = NoStep" "ltoken ?m = Some t" "?lk = Some (t, u)" "m = ?m" "lk = Some (t, wclock w)"
    | (gone) t where "running ?m = NoStep" "ltoken ?m = Some t" "\<not> stillHeld ?lk t"
        "m = onLose (?m\<lparr>ltoken := None\<rparr>)" "lk = ?lk"
  proof (cases "running ?m = NoStep")
    case True
    show ?thesis
    proof (cases "ltoken ?m")
      case None
      show ?thesis
      proof (cases ?lk)
        case None
        with True \<open>ltoken ?m = None\<close> r show ?thesis
          by (intro free) (auto simp: tick_def step_begin_def acquireClaim_cases)
      next
        case (Some f)
        then have "acquireClaim WRITER_LEASE_STALE_MS (wclock w) (fresh w) (wclock w) ?lk = (None, ?lk)"
          using time by (cases f) (auto simp: lease_fresh_def intro!: file_claim.live_claim_excludes)
        moreover have "?lk \<noteq> None" using Some by simp
        ultimately show ?thesis using True \<open>ltoken ?m = None\<close> r
          by (intro lost) (simp_all add: tick_def step_begin_def)
      qed
    next
      case (Some t)
      with True r show ?thesis
        using held [of t] gone [of t] by (cases ?lk) (auto simp: tick_def step_begin_def stillHeld_def renewClaim_def split: if_splits)
    qed
  next
    case False
    with r show ?thesis by (intro busy) (simp_all add: tick_def)
  qed
  then have "world_inv (put_member i (m, lk) w\<lparr>fresh := Suc (fresh w)\<rparr>)"
  proof cases
    case free
    have none: "\<not> owns (members w j) t" for j t using member_facts(1) [OF inv, of j t] free(3) by auto
    show ?thesis
      by (rule put_member_inv [OF inv, where i = i and m = m and lk = lk and fr = "Suc (fresh w)"])
        (use free ok none in \<open>auto simp: put_member_def member_ok_def owns_def writing_def\<close>)
  next
    case held
    have same: "t' = t" if "owns (members w j) t'" for j t'
      using member_facts(1) [OF inv that] held(3) by simp
    have own: "t' < Suc (fresh w) \<and> (\<exists>u. lk = Some (t', u))" if "owns ?m t'" for t'
      using ok that same [OF that] held(5) by (simp add: member_ok_def less_SucI)
    have "member_ok lk (Suc (fresh w)) m"
      unfolding member_ok_def held(4) using own ok [unfolded member_ok_def] by blast
    then show ?thesis
      by (rule put_member_inv [OF inv, where i = i and m = m and lk = lk and fr = "Suc (fresh w)"])
        (use held(4,5) same in \<open>auto simp: put_member_def\<close>)
  next
    case busy
    show ?thesis
      by (rule same_file_inv [OF inv, where i = i and m = m and fr = "Suc (fresh w)"])
        (use busy ok in \<open>auto simp: put_member_def member_ok_def\<close>)
  next
    case lost
    show ?thesis
      by (rule same_file_inv [OF inv, where i = i and m = m and fr = "Suc (fresh w)"])
        (use lost ok in \<open>simp_all add: put_member_def member_ok_def owns_def writing_def\<close>)
  next
    case gone
    show ?thesis
      by (rule same_file_inv [OF inv, where i = i and m = m and fr = "Suc (fresh w)"])
        (use gone ok in \<open>simp_all add: put_member_def member_ok_def owns_def writing_def onLose_def
           stopScheduler_def stopHooks_def stopWatcher_def\<close>)
  qed
  then show ?thesis by (simp add: r)
qed

lemma releaseClaim_own: "releaseClaim t (Some (t, u)) = None"
  by (simp add: releaseClaim_def)

lemma step_end_inv:
  assumes inv: "world_inv w"
  shows "world_inv (put_member i (step_end n (members w i) (leaseFile w)) w)"
proof -
  let ?m = "members w i" and ?lk = "leaseFile w"
  note ok = member_facts(3) [OF inv, of i]
  show ?thesis
  proof (cases "running ?m")
    case NoStep
    then show ?thesis
      by (intro same_file_inv [OF inv, where i = i and m = ?m and fr = "fresh w"])
        (use ok in \<open>simp_all add: put_member_def step_end_def member_ok_def\<close>)
  next
    case (GotClaim r)
    show ?thesis
    proof (cases r)
      case None
      with GotClaim show ?thesis
        by (intro same_file_inv [OF inv, where i = i and m = "?m\<lparr>running := NoStep\<rparr>" and fr = "fresh w"])
          (use ok in \<open>auto simp: put_member_def step_end_def member_ok_def owns_def writing_def\<close>)
    next
      case (Some t)
      have own: "owns ?m t" using GotClaim Some by (simp add: owns_def)
      obtain u where lk: "?lk = Some (t, u)" using member_facts(1) [OF inv own] by blast
      have other: "\<not> owns (members w j) t'" if "j \<noteq> i" for j t'
        using member_facts(1) [OF inv, of j t'] lk member_facts(2) [OF inv own, of j] that by auto
      show ?thesis
      proof (cases "halted ?m")
        case True
        with GotClaim Some show ?thesis
          by (intro put_member_inv [OF inv, where i = i and m = "?m\<lparr>running := NoStep\<rparr>" and lk = None and fr = "fresh w"])
            (use ok lk other in \<open>auto simp: put_member_def step_end_def member_ok_def owns_def writing_def releaseClaim_own\<close>)
      next
        case False
        have st: "stage ?m = 0" using ok False by (simp add: member_ok_def)
        let ?m' = "startMailboxWriters n (?m\<lparr>running := NoStep, ltoken := Some t\<rparr>)"
        have flds: "ltoken ?m' = Some t" "running ?m' = NoStep" "stage ?m' = 0" "halted ?m' = halted ?m"
          using st by (simp_all add: startMailboxWriters_def Let_def)
        show ?thesis
          by (rule put_member_inv [OF inv, where i = i and m = ?m' and lk = ?lk and fr = "fresh w"])
            (use ok lk other flds own False GotClaim Some st in
              \<open>auto simp: put_member_def step_end_def member_ok_def owns_def\<close>)
      qed
    qed
  qed
qed

lemma shutdown_inv:
  assumes inv: "world_inv w" and r: "shutdown_stage (members w i) (leaseFile w) = Some r"
  shows "world_inv (put_member i r w)"
proof -
  let ?m = "members w i" and ?lk = "leaseFile w"
  note ok = member_facts(3) [OF inv, of i]
  note infile = member_facts(1) [OF inv]
  consider (rel) t where "stage ?m = 5" "ltoken ?m = Some t" | (none) "stage ?m = 5" "ltoken ?m = None"
    | (stop) "stage ?m < 5"
  proof -
    have "stage ?m \<le> 5" using r by (simp add: shutdown_stage_def Let_def split: if_splits)
    then show ?thesis using rel none stop by (cases "ltoken ?m"; cases "stage ?m = 5") auto
  qed
  then show ?thesis
  proof cases
    case rel
    have own: "owns ?m t" using rel by (simp add: owns_def)
    obtain u where lk: "?lk = Some (t, u)" using infile [OF own] by blast
    have other: "\<not> owns (members w j) t'" if "j \<noteq> i" for j t'
      using infile [of j t'] lk member_facts(2) [OF inv own, of j] that by auto
    have r': "r = (?m\<lparr>ltoken := None, stage := 6\<rparr>, None)"
      using rel r lk by (simp add: shutdown_stage_def release_def releaseClaim_own Let_def)
    show ?thesis
      by (rule put_member_inv [OF inv, where i = i and m = "fst r" and lk = None and fr = "fresh w"])
        (use r' ok rel other in \<open>simp_all add: put_member_def member_ok_def owns_def writing_def\<close>)
  next
    case none
    then have r': "r = (?m\<lparr>stage := 6\<rparr>, ?lk)"
      using r by (simp add: shutdown_stage_def release_def Let_def)
    show ?thesis
      by (rule same_file_inv [OF inv, where i = i and m = "fst r" and fr = "fresh w"])
        (use r' ok none in \<open>simp_all add: put_member_def member_ok_def owns_def writing_def\<close>)
  next
    case stop
    note shut = shutdown_stage_def Let_def stopScheduler_def stopHooks_def stopWatcher_def
    note goal_defs = put_member_def member_ok_def owns_def writing_def
    from stop consider "stage ?m = 0" | "stage ?m = 1" | "stage ?m = 2" | "stage ?m = 3" | "stage ?m = 4"
      by linarith
    then show ?thesis
    proof cases
      case 1
      with r have "r = (?m\<lparr>halted := True, stage := 1\<rparr>, ?lk)" by (simp add: shut)
      with 1 ok show ?thesis
        by (intro same_file_inv [OF inv, where i = i and m = "fst r" and fr = "fresh w"]) (simp_all add: goal_defs)
    next
      case 2
      with r have "r = (?m\<lparr>stage := 2\<rparr>, ?lk)"
        by (simp add: shut numeral_2_eq_2 split: if_splits)
      with 2 ok show ?thesis
        by (intro same_file_inv [OF inv, where i = i and m = "fst r" and fr = "fresh w"]) (simp_all add: goal_defs)
    next
      case 3
      with r have "r = (?m\<lparr>schedulerOn := False, stage := 3\<rparr>, ?lk)" by (simp add: shut)
      with 3 ok show ?thesis
        by (intro same_file_inv [OF inv, where i = i and m = "fst r" and fr = "fresh w"]) (simp_all add: goal_defs)
    next
      case 4
      with r have "r = (?m\<lparr>hooksOn := False, stage := 4\<rparr>, ?lk)" by (simp add: shut)
      with 4 ok show ?thesis
        by (intro same_file_inv [OF inv, where i = i and m = "fst r" and fr = "fresh w"]) (simp_all add: goal_defs)
    next
      case 5
      with r have "r = (?m\<lparr>watcherOn := False, stage := 5\<rparr>, ?lk)" by (simp add: shut)
      with 5 ok show ?thesis
        by (intro same_file_inv [OF inv, where i = i and m = "fst r" and fr = "fresh w"]) (simp_all add: goal_defs)
    qed
  qed
qed

lemma renewed_step_inv: "world_inv w \<Longrightarrow> renewed_step w w' \<Longrightarrow> world_inv w'"
proof (elim renewed_stepE)
  assume inv: "world_inv w" and time: "lease_fresh w" and "world_step w w'"
  from this(3) show "world_inv w'"
  proof cases
    case (tick i)
    with tick_inv [OF inv time, of i] show ?thesis by simp
  next
    case (step_end i n)
    with step_end_inv [OF inv] show ?thesis by simp
  next
    case (shutdown i r)
    with shutdown_inv [OF inv] show ?thesis by simp
  next
    case (time d)
    with inv show ?thesis by (simp add: world_inv_def)
  qed
qed

interpretation leases: invariant_system world_init renewed_step world_inv
  by unfold_locales (auto intro: world_inv_init renewed_step_inv)

section \<open>Shutdown\<close>

text \<open>
  A shutdown step: its name, how long it takes (\<open>None\<close>: it never returns) and the error it throws.
  The deadline timer races the sequence; on a tie the timer, armed after the first step began, fires
  first only if the sequence has not finished.
\<close>

definition SHUTDOWN_DEADLINE_MS :: number where "SHUTDOWN_DEADLINE_MS = 10000"

record shutdown_step =
  stepName :: string
  duration :: "number option"
  throws :: "string option"

datatype shutdown_report = StepFailed string string | DeadlinePassed string

record shutdown_result =
  exitCode :: nat
  reports :: "shutdown_report list"
  finished :: "string list"

fun run_sequence :: "number \<Rightarrow> shutdown_step list \<Rightarrow> bool \<Rightarrow> shutdown_report list \<Rightarrow> string list \<Rightarrow> shutdown_result" where
  "run_sequence left [] failed rs fin = \<lparr>exitCode = (if failed then 1 else 0), reports = rs, finished = fin\<rparr>"
| "run_sequence left (x # xs) failed rs fin =
     (case duration x of
        None \<Rightarrow> \<lparr>exitCode = 1, reports = rs @ [DeadlinePassed (stepName x)], finished = fin\<rparr>
      | Some d \<Rightarrow>
          if d > left then \<lparr>exitCode = 1, reports = rs @ [DeadlinePassed (stepName x)], finished = fin\<rparr>
          else (case throws x of
                  None \<Rightarrow> run_sequence (left - d) xs failed rs (fin @ [stepName x])
                | Some e \<Rightarrow> run_sequence (left - d) xs True (rs @ [StepFailed (stepName x) e]) (fin @ [stepName x])))"

text \<open>The returned function remembers its first run (\<open>running ??= run()\<close>).\<close>

definition shutdown_call :: "shutdown_step list \<Rightarrow> shutdown_result option \<Rightarrow> shutdown_result \<times> shutdown_result option" where
  "shutdown_call steps memo =
     (case memo of
        Some r \<Rightarrow> (r, Some r)
      | None \<Rightarrow> let r = run_sequence SHUTDOWN_DEADLINE_MS steps False [] [] in (r, Some r))"

text \<open>\<open>attachStdioShutdown\<close>: the end and the close of stdin run the shutdown once.\<close>

definition stdio_closed :: "bool \<Rightarrow> bool \<times> bool" where
  "stdio_closed called = (if called then (False, called) else (True, True))"

fun total_duration :: "shutdown_step list \<Rightarrow> number option" where
  "total_duration [] = Some 0"
| "total_duration (x # xs) =
     (case (duration x, total_duration xs) of (Some d, Some t) \<Rightarrow> Some (d + t) | _ \<Rightarrow> None)"

lemma run_sequence_in_time:
  assumes "total_duration xs = Some t" "t \<le> left" "\<forall>x \<in> set xs. \<forall>d. duration x = Some d \<longrightarrow> 0 \<le> d"
  shows "run_sequence left xs failed rs fin =
    \<lparr>exitCode = (if failed \<or> (\<exists>x \<in> set xs. throws x \<noteq> None) then 1 else 0),
     reports = rs @ map (\<lambda>x. StepFailed (stepName x) (the (throws x))) (filter (\<lambda>x. throws x \<noteq> None) xs),
     finished = fin @ map stepName xs\<rparr>"
  using assms
proof (induction xs arbitrary: t left failed rs fin)
  case (Cons x xs)
  then obtain d t' where d: "duration x = Some d" "total_duration xs = Some t'" "t = d + t'" "0 \<le> d"
    by (auto split: option.splits)
  have "0 \<le> t'" if "total_duration ys = Some t'" "\<forall>x \<in> set ys. \<forall>d. duration x = Some d \<longrightarrow> 0 \<le> d" for ys t'
    using that by (induction ys arbitrary: t') (auto split: option.splits)
  then have "0 \<le> t'" using d(2) Cons.prems(3) by simp
  with d Cons.prems Cons.IH [OF d(2), of "left - d"] show ?case
    by (auto split: option.split)
qed simp

lemma run_sequence_prefix:
  "\<exists>k \<le> length xs. finished (run_sequence left xs failed rs fin) = fin @ map stepName (take k xs)"
proof (induction xs arbitrary: left failed rs fin)
  case (Cons x xs)
  have later: "\<exists>k \<le> length (x # xs). finished (run_sequence l xs f r (fin @ [stepName x])) =
      fin @ map stepName (take k (x # xs))" for l f r
    using Cons.IH [of l f r "fin @ [stepName x]"] by (metis Suc_le_mono append.assoc append_Cons append_Nil length_Cons list.map(2) take_Suc_Cons)
  show ?case
    using later by (auto split: option.splits intro: exI [of _ 0])
qed simp

section \<open>Properties\<close>

definition lone_world :: world where
  "lone_world = \<lparr>members = (\<lambda>_. new_member), leaseFile = None, wclock = 0, fresh = 0\<rparr>"

definition led_world :: "member \<Rightarrow> world" where
  "led_world m = \<lparr>members = (\<lambda>_. new_member)(7 := m), leaseFile = Some (0, 0), wclock = 0, fresh = Suc 0\<rparr>"

definition leader :: member where
  "leader = startMailboxWriters 3 (new_member\<lparr>ltoken := Some 0\<rparr>)"

lemma led_world_reachable: "reachable world_init renewed_step (led_world leader)"
proof -
  let ?w1 = "(put_member 7 (tick 0 0 0 new_member None) lone_world)\<lparr>fresh := Suc 0\<rparr>"
  let ?w2 = "put_member 7 (step_end 3 (members ?w1 7) (leaseFile ?w1)) ?w1"
  have "reachable world_init renewed_step lone_world"
    by (rule reach_init) (simp add: world_init_def lone_world_def)
  moreover have "world_step lone_world ?w1"
    using world_step.tick [of lone_world 7] by (simp add: lone_world_def)
  then have "renewed_step lone_world ?w1"
    by (rule renewed_step.renewed [rotated]) (simp add: lease_fresh_def lone_world_def)
  ultimately have "reachable world_init renewed_step ?w1" by (rule reach_step)
  moreover have "renewed_step ?w1 ?w2"
    by (rule renewed_step.renewed [OF _ world_step.step_end])
      (simp add: lease_fresh_def put_member_def tick_def step_begin_def acquireClaim_cases
        lone_world_def new_member_def WRITER_LEASE_STALE_MS_def WRITER_LEASE_RENEW_MS_def)
  ultimately have "reachable world_init renewed_step ?w2" by (rule reach_step)
  moreover have "?w2 = led_world leader"
    by (simp add: put_member_def tick_def step_begin_def step_end_def acquireClaim_cases leader_def led_world_def
        lone_world_def startMailboxWriters_def new_member_def Let_def)
  ultimately show ?thesis by simp
qed

lemma led_world_stage:
  assumes "reachable world_init renewed_step (led_world m)" "shutdown_stage m (Some (0, 0)) = Some (m', Some (0, 0))"
  shows "reachable world_init renewed_step (led_world m')"
proof -
  have "world_step (led_world m) (put_member 7 (m', Some (0, 0)) (led_world m))"
    by (rule world_step.shutdown) (simp add: led_world_def assms(2))
  then have "renewed_step (led_world m) (led_world m')"
    by (intro renewed_step.renewed)
      (simp_all add: lease_fresh_def led_world_def put_member_def WRITER_LEASE_STALE_MS_def WRITER_LEASE_RENEW_MS_def)
  with assms(1) show ?thesis by (rule reach_step)
qed

text \<open>
  C9: however the processes of a machine interleave their ticks, starts and shutdowns, while the
  lease on disk is renewed within its stale window at most one of them runs mailbox writers.
\<close>

theorem one_process_writes:
  assumes "reachable world_init renewed_step w" and "writing (members w i)" and "writing (members w j)"
  shows "i = j"
proof -
  from assms(1) have inv: "world_inv w" by (rule leases.reachable_inv)
  have tok: "\<exists>t. owns (members w k) t" if "writing (members w k)" for k
    using member_facts(3) [OF inv, of k] that by (auto simp: member_ok_def owns_def)
  then obtain t t' where t: "owns (members w i) t" "owns (members w j) t'"
    using assms(2,3) by blast
  have "t = t'" using member_facts(1) [OF inv t(1)] member_facts(1) [OF inv t(2)] by auto
  with t show ?thesis using member_facts(2) [OF inv] by blast
qed

theorem one_process_writes_witness:
  "\<exists>w. reachable world_init renewed_step w \<and> writing (members w 7) \<and> (\<forall>i. writing (members w i) \<longrightarrow> i = 7)"
proof -
  have w: "writing (members (led_world leader) 7)"
    by (simp add: led_world_def leader_def startMailboxWriters_def new_member_def writing_def Let_def)
  have "i = 7" if "writing (members (led_world leader) i)" for i
    using one_process_writes [OF led_world_reachable that w] .
  with led_world_reachable w show ?thesis by blast
qed

text \<open>
  The lease is freed by a shutdown only when no process of the machine runs writers: the process
  that releases has stopped its own in the steps before, and the lock still names it.
\<close>

theorem lease_released_after_writers:
  assumes "reachable world_init renewed_step w"
    and "shutdown_stage (members w i) (leaseFile w) = Some (m', lk')" and "lk' \<noteq> leaseFile w"
  shows "lk' = None \<and> (\<forall>j. \<not> writing (members w j)) \<and> \<not> writing m'"
proof -
  from assms(1) have inv: "world_inv w" by (rule leases.reachable_inv)
  note ok = member_facts(3) [OF inv]
  from assms(2,3) have st: "stage (members w i) = 5" 
    and rel: "m' = (fst (release (members w i) (leaseFile w)))\<lparr>stage := Suc (stage (fst (release (members w i) (leaseFile w))))\<rparr>"
    "lk' = snd (release (members w i) (leaseFile w))"
    by (auto simp: shutdown_stage_def Let_def split: if_splits prod.splits)
  have off: "\<not> writing (members w i)" using ok [of i] st by (simp add: member_ok_def writing_def)
  obtain t where t: "ltoken (members w i) = Some t"
    using rel assms(3) by (cases "ltoken (members w i)") (auto simp: release_def)
  then have own: "owns (members w i) t" by (simp add: owns_def)
  then obtain u where u: "leaseFile w = Some (t, u)" using member_facts(1) [OF inv] by blast
  have "\<not> writing (members w j)" for j
  proof
    assume wr: "writing (members w j)"
    then obtain t' where "owns (members w j) t'"
      using ok [of j] by (auto simp: member_ok_def owns_def)
    with own u member_facts(1) [OF inv] member_facts(2) [OF inv] have "j = i" by fastforce
    with wr off show False by simp
  qed
  moreover have "\<not> writing m'"
    using rel(1) t off by (simp add: release_def writing_def)
  ultimately show ?thesis using rel(2) t u by (simp add: release_def releaseClaim_own)
qed

theorem lease_released_after_writers_witness:
  "\<exists>w m'. reachable world_init renewed_step w \<and> shutdown_stage (members w 7) (leaseFile w) = Some (m', None) \<and>
     leaseFile w \<noteq> None \<and> (\<forall>j. \<not> writing (members w j))"
proof -
  define m where "m = (\<lambda>k. leader\<lparr>halted := True, stage := k\<rparr>)"
  let ?m5 = "stopWatcher (stopHooks (stopScheduler (m 5)))"
  have st: "stage leader = 0" "running leader = NoStep" "ltoken leader = Some 0"
    by (simp_all add: leader_def startMailboxWriters_def new_member_def Let_def)
  note defs = shutdown_stage_def Let_def m_def stopScheduler_def stopHooks_def stopWatcher_def st
  have "reachable world_init renewed_step (led_world (m 1))"
    by (rule led_world_stage [OF led_world_reachable]) (simp add: defs)
  then have "reachable world_init renewed_step (led_world (m 2))"
    by (rule led_world_stage) (simp add: defs)
  then have "reachable world_init renewed_step (led_world (stopScheduler (m 3)))"
    by (rule led_world_stage) (simp add: defs)
  then have "reachable world_init renewed_step (led_world (stopHooks (stopScheduler (m 4))))"
    by (rule led_world_stage) (simp add: defs)
  then have r: "reachable world_init renewed_step (led_world ?m5)"
    by (rule led_world_stage) (simp add: defs)
  let ?w = "led_world ?m5"
  have rel: "shutdown_stage (members ?w 7) (leaseFile ?w) =
      Some ((fst (release ?m5 (Some (0, 0))))\<lparr>stage := 6\<rparr>, None)"
    by (simp add: led_world_def shutdown_stage_def Let_def m_def stopScheduler_def stopHooks_def stopWatcher_def
        release_def releaseClaim_def st)
  have "\<forall>j. \<not> writing (members ?w j)"
    using lease_released_after_writers [OF r rel] by (simp add: led_world_def)
  with r rel show ?thesis by (intro exI [of _ ?w] exI) (simp add: led_world_def)
qed

text \<open>
  A process whose lease another took over notices at its next tick: it stops hooks, watcher and
  scheduler, no longer leads, and leaves the new holder's lock alone; its own release does too.
\<close>

theorem taken_over_lease_stops_writers:
  assumes "running m = NoStep" and "ltoken m = Some t" and "lk = Some (t', u)" and "t' \<noteq> t"
  shows "\<not> writing (fst (tick now fr clk m lk)) \<and> \<not> leading (fst (tick now fr clk m lk)) \<and>
    snd (tick now fr clk m lk) = lk \<and> snd (release m lk) = lk"
  using assms
  by (simp add: tick_def step_begin_def stillHeld_def onLose_def stopScheduler_def stopHooks_def
      stopWatcher_def writing_def leading_def release_def releaseClaim_def)

theorem taken_over_lease_stops_writers_witness:
  "\<not> writing (fst (tick 9 5 9 (startMailboxWriters 3 (new_member\<lparr>ltoken := Some 1\<rparr>)) (Some (2, 8))))"
  using taken_over_lease_stops_writers [of "startMailboxWriters 3 (new_member\<lparr>ltoken := Some 1\<rparr>)" 1 "Some (2, 8)" 2 8]
  by (simp add: startMailboxWriters_def new_member_def Let_def)

text \<open>
  Shutdown runs its steps in order, each at most once however often it is called; when they fit
  the deadline every step runs even after one failed, and the exit code is 0 exactly when none did;
  otherwise it still returns, with exit code 1.
\<close>

theorem shutdown_runs_once_in_order:
  assumes "\<forall>x \<in> set steps. \<forall>d. duration x = Some d \<longrightarrow> 0 \<le> d"
  shows "fst (shutdown_call steps (snd (shutdown_call steps None))) = fst (shutdown_call steps None) \<and>
    (\<exists>k. finished (fst (shutdown_call steps None)) = map stepName (take k steps)) \<and>
    (case total_duration steps of
       Some t \<Rightarrow> t \<le> SHUTDOWN_DEADLINE_MS \<longrightarrow>
         finished (fst (shutdown_call steps None)) = map stepName steps \<and>
         (exitCode (fst (shutdown_call steps None)) = 0 \<longleftrightarrow> (\<forall>x \<in> set steps. throws x = None))
     | None \<Rightarrow> exitCode (fst (shutdown_call steps None)) = 1)"
proof -
  have hang: "exitCode (run_sequence l xs f r fin) = 1" if "total_duration xs = None" for xs l f r fin
    using that by (induction xs arbitrary: l f r fin) (auto split: option.splits)
  show ?thesis
    using run_sequence_prefix [of steps SHUTDOWN_DEADLINE_MS False "[]" "[]"]
      run_sequence_in_time [of steps _ SHUTDOWN_DEADLINE_MS False "[]" "[]"] hang [of steps] assms
    by (auto simp: shutdown_call_def Let_def split: option.split)
qed

theorem shutdown_runs_once_in_order_witness:
  "finished (fst (shutdown_call [\<lparr>stepName = ''hooks'', duration = Some 5, throws = Some ''x''\<rparr>,
     \<lparr>stepName = ''server'', duration = Some 7, throws = None\<rparr>] None)) = [''hooks'', ''server'']"
  using shutdown_runs_once_in_order [of "[\<lparr>stepName = ''hooks'', duration = Some 5, throws = Some ''x''\<rparr>,
     \<lparr>stepName = ''server'', duration = Some 7, throws = None\<rparr>]"]
  by (simp add: SHUTDOWN_DEADLINE_MS_def)

end
