(* ===== verification/Types.thy ===== *)
theory Types
  imports Prelude
begin

text \<open>
  The shared data types of src/types/index.ts, as records with the source's fields (a prefix keeps
  the field names of different interfaces apart). An optional field is an \<open>option\<close>. A time that
  the code stores as an ISO string and reads back through \<open>Date\<close> is the value it reads back, with
  \<open>None\<close> for a date that does not parse (\<open>NaN\<close>).
\<close>

section \<open>Accounts\<close>

record emailAddress =
  ea_name :: "string option"
  ea_address :: string

record imapConfig =
  imap_host :: string
  imap_port :: nat
  imap_tls :: bool
  imap_starttls :: bool
  imap_verifySsl :: bool
  imap_disableImap4rev2 :: "bool option"
  imap_sieveHost :: "string option"
  imap_sievePort :: "nat option"

record smtpPool =
  pool_enabled :: bool
  pool_maxConnections :: nat
  pool_maxMessages :: nat

record smtpConfig =
  smtp_host :: string
  smtp_port :: nat
  smtp_tls :: bool
  smtp_starttls :: bool
  smtp_verifySsl :: bool
  smtp_pool :: "smtpPool option"

datatype oauthProvider = Google | Microsoft | CustomProvider

record oauth2Config =
  oa_provider :: oauthProvider
  oa_clientId :: string
  oa_clientSecret :: string
  oa_refreshToken :: string
  oa_accessToken :: "string option"
  oa_tokenExpiry :: "number option"
  oa_tokenUrl :: "string option"
  oa_authUrl :: "string option"
  oa_scopes :: "string list option"

record accountConfig =
  acc_name :: string
  acc_email :: string
  acc_fullName :: "string option"
  acc_username :: string
  acc_password :: "string option"
  acc_oauth2 :: "oauth2Config option"
  acc_sentMailbox :: "string option"
  acc_imap :: imapConfig
  acc_smtp :: smtpConfig

record watcherConfig =
  wc_enabled :: bool
  wc_folders :: "string list"
  wc_idleTimeout :: number

section \<open>Hook rules and alerts\<close>

record hookRuleMatch =
  match_from :: "string option"
  match_to :: "string option"
  match_subject :: "string option"

record hookRuleActions =
  act_labels :: "string list option"
  act_flag :: "bool option"
  act_markRead :: "bool option"
  act_alert :: "bool option"
  act_addToCalendar :: "bool option"
  act_moveTo :: "string option"

record hookRule =
  rule_name :: string
  rule_match :: hookRuleMatch
  rule_actions :: hookRuleActions

datatype priority = Urgent | High | Normal | Low

record alertsConfig =
  al_desktop :: bool
  al_sound :: bool
  al_urgencyThreshold :: priority
  al_webhookUrl :: string
  al_webhookEvents :: "priority list"
  al_allowPrivateWebhooks :: "bool option"

datatype newEmailMode = ModeTriage | ModeNotify | ModeNone

record hooksConfig =
  hc_onNewEmail :: newEmailMode
  hc_preset :: string
  hc_autoLabel :: bool
  hc_autoFlag :: bool
  hc_batchDelay :: number
  hc_customInstructions :: "string option"
  hc_systemPrompt :: "string option"
  hc_rules :: "hookRule list"
  hc_alerts :: alertsConfig
  hc_autoCalendar :: "bool option"
  hc_calendarName :: "string option"
  hc_calendarAlarmMinutes :: "number option"
  hc_calendarConfirm :: "bool option"

section \<open>Classification of arriving mail\<close>

record systemOneFolderSpec =
  sof_path :: string
  sof_description :: string
  sof_falseCriteria :: "string option"
  sof_priority :: "number option"

record systemOneThresholds =
  th_folderFitMin :: number
  th_spamHigh :: number
  th_spamUncertainLow :: number
  th_spamUncertainHigh :: number
  th_injectionHigh :: number
  th_importanceFlagMin :: number
  th_importanceMinConfidence :: number
  th_isCriticalMin :: number

record systemOneConfig =
  so_enabled :: bool
  so_model :: string
  so_includeBody :: bool
  so_bodyMaxChars :: nat
  so_autoMove :: bool
  so_autoFlag :: bool
  so_folders :: "systemOneFolderSpec list"
  so_sourceFolders :: "string list"
  so_thresholds :: systemOneThresholds

section \<open>Messages\<close>

record mailboxInfo =
  mbi_name :: string
  mbi_path :: string
  mbi_specialUse :: "string option"
  mbi_totalMessages :: nat
  mbi_unseenMessages :: nat

record emailMeta =
  em_id :: string
  em_subject :: string
  em_from :: emailAddress
  em_to :: "emailAddress list"
  em_date :: string
  em_seen :: bool
  em_flagged :: bool
  em_answered :: bool
  em_hasAttachments :: bool
  em_labels :: "string list"
  em_preview :: "string option"
  em_messageId :: "string option"

datatype labelStrategyType = Protonmail | Gmail | Keyword | Unsupported

record labelInfo =
  li_name :: string
  li_path :: "string option"
  li_strategy :: labelStrategyType

section \<open>Scheduled mail\<close>

datatype schedStatus = Pending | Sending | Sent | Failed

record scheduledEmail =
  se_id :: string
  se_account :: string
  se_to :: "string list"
  se_cc :: "string list option"
  se_bcc :: "string list option"
  se_subject :: string
  se_body :: string
  se_html :: bool
  se_sendAt :: "number option"
  se_createdAt :: number
  se_status :: schedStatus
  se_attempts :: nat
  se_lastError :: "string option"
  se_draftMessageId :: "string option"
  se_draftMailbox :: "string option"
  se_inReplyTo :: "string option"
  se_references :: "string list option"
  se_sentAt :: "number option"
  se_sentMessageId :: "string option"

end
