(* ===== verification/Texts.thy ===== *)
theory Texts
  imports Prelude
begin

text \<open>
  Text operations of the language's standard library that several components use: digits and
  numbers in decimal and hexadecimal (\<open>Number\<close>, \<open>toString\<close>, \<open>parseInt\<close> on texts of digits),
  \<open>split\<close>, \<open>replace\<close> of one character, and the control character classes, with their round trips.
  A character is one Latin-1 code unit.
\<close>

section \<open>Characters\<close>

definition is_digit :: "char \<Rightarrow> bool" where
  [model_defs]: "is_digit c \<longleftrightarrow> CHR ''0'' \<le> c \<and> c \<le> CHR ''9''"

definition is_lower :: "char \<Rightarrow> bool" where
  [model_defs]: "is_lower c \<longleftrightarrow> CHR ''a'' \<le> c \<and> c \<le> CHR ''z''"

definition is_upper :: "char \<Rightarrow> bool" where
  [model_defs]: "is_upper c \<longleftrightarrow> CHR ''A'' \<le> c \<and> c \<le> CHR ''Z''"

definition is_hex :: "char \<Rightarrow> bool" where
  [model_defs]: "is_hex c \<longleftrightarrow> is_digit c \<or> (CHR ''a'' \<le> c \<and> c \<le> CHR ''f'') \<or> (CHR ''A'' \<le> c \<and> c \<le> CHR ''F'')"

definition is_control :: "char \<Rightarrow> bool" where
  [model_defs]: "is_control c \<longleftrightarrow> of_char c \<le> (31 :: nat) \<or> of_char c = (127 :: nat)"

definition has_control :: "string \<Rightarrow> bool" where
  [model_defs]: "has_control s \<longleftrightarrow> list_ex is_control s"

section \<open>Decimal numbers\<close>

definition digit_value :: "char \<Rightarrow> nat" where
  [model_defs]: "digit_value c = of_char c - 48"

definition number_of :: "string \<Rightarrow> nat" where
  [model_defs]: "number_of s = foldl (\<lambda>n c. 10 * n + digit_value c) 0 s"

definition digit_char :: "nat \<Rightarrow> char" where
  [model_defs]: "digit_char d = char_of (48 + d)"

fun show_nat :: "nat \<Rightarrow> string" where
  "show_nat n = (if n < 10 then [digit_char n] else show_nat (n div 10) @ [digit_char (n mod 10)])"

declare show_nat.simps [simp del]

lemma char_less_eq_nat: "(a :: char) \<le> b \<longleftrightarrow> (of_char a :: nat) \<le> of_char b"
  by (simp add: less_eq_char_def)

lemma digit_char_facts:
  assumes "d < 10"
  shows "is_digit (digit_char d) \<and> digit_value (digit_char d) = d"
  using assms by (auto simp: digit_char_def is_digit_def digit_value_def char_less_eq_nat)

lemma show_nat_digits: "list_all is_digit (show_nat n) \<and> show_nat n \<noteq> []"
proof (induction n rule: show_nat.induct)
  case (1 n)
  then show ?case
    by (cases "n < 10") (simp_all add: show_nat.simps [of n] digit_char_facts)
qed

lemma number_of_snoc: "number_of (s @ [c]) = 10 * number_of s + digit_value c"
  by (simp add: number_of_def)

lemma number_of_show_nat [simp]: "number_of (show_nat n) = n"
proof (induction n rule: show_nat.induct)
  case (1 n)
  show ?case
  proof (cases "n < 10")
    case True
    then show ?thesis by (simp add: show_nat.simps [of n] number_of_def digit_char_facts)
  next
    case False
    then show ?thesis using 1
      by (simp add: show_nat.simps [of n] number_of_snoc digit_char_facts)
  qed
qed

lemma show_nat_hd: "0 < n \<Longrightarrow> hd (show_nat n) \<noteq> CHR ''0''"
proof (induction n rule: show_nat.induct)
  case (1 n)
  show ?case
  proof (cases "n < 10")
    case True
    then have "digit_value (digit_char n) = n" by (simp add: digit_char_facts)
    with 1 True show ?thesis by (auto simp: show_nat.simps [of n] digit_value_def)
  next
    case False
    then have "hd (show_nat n) = hd (show_nat (n div 10))"
      using show_nat_digits [of "n div 10"] by (simp add: show_nat.simps [of n])
    with False 1 show ?thesis by simp
  qed
qed

lemma digit_char_value: "is_digit c \<Longrightarrow> digit_char (digit_value c) = c"
  by (auto simp: digit_char_def is_digit_def digit_value_def char_less_eq_nat)

lemma digit_value_less: "is_digit c \<Longrightarrow> digit_value c < 10"
  by (auto simp: is_digit_def digit_value_def char_less_eq_nat)

lemma digit_char_0: "digit_char 0 = CHR ''0''"
  by code_simp

lemma show_nat_length: "n < 10 ^ k \<Longrightarrow> 0 < k \<Longrightarrow> length (show_nat n) \<le> k"
proof (induction n arbitrary: k rule: show_nat.induct)
  case (1 n)
  show ?case
  proof (cases "n < 10")
    case True
    with 1 show ?thesis by (simp add: show_nat.simps [of n])
  next
    case False
    with 1(2,3) obtain j where k: "k = Suc (Suc j)" by (cases k; cases "k - 1") auto
    with 1(2) have "n div 10 < 10 ^ Suc j" by (simp add: less_mult_imp_div_less mult.commute)
    with 1(1) [OF False, of "Suc j"] k False show ?thesis by (simp add: show_nat.simps [of n])
  qed
qed

text \<open>A text of digits without a leading zero is the decimal form of its value.\<close>

lemma show_nat_number_of:
  assumes "list_all is_digit s" "s \<noteq> []" "hd s \<noteq> CHR ''0'' \<or> length s = 1"
  shows "show_nat (number_of s) = s"
  using assms
proof (induction s rule: rev_induct)
  case (snoc c s)
  then have c: "is_digit c" by simp
  note cv = digit_value_less [OF c] digit_char_value [OF c]
  show ?case
  proof (cases "s = []")
    case True
    then show ?thesis using cv by (simp add: number_of_def show_nat.simps)
  next
    case False
    then have s: "hd s \<noteq> CHR ''0''" "list_all is_digit s" using snoc.prems by simp_all
    then have IH: "show_nat (number_of s) = s" using snoc.IH False by simp
    have "number_of s \<noteq> 0"
    proof
      assume "number_of s = 0"
      then have "s = ''0''" using IH digit_char_0 by (simp add: show_nat.simps)
      with s show False by simp
    qed
    then show ?thesis using IH cv
      by (simp add: number_of_snoc show_nat.simps [of "10 * number_of s + digit_value c"])
  qed
qed simp

section \<open>Hexadecimal numbers\<close>

definition hex_value :: "char \<Rightarrow> nat" where
  [model_defs]: "hex_value c =
     (if is_digit c then digit_value c
      else if CHR ''a'' \<le> c \<and> c \<le> CHR ''f'' then of_char c - 87 else of_char c - 55)"

definition hex_number_of :: "string \<Rightarrow> nat" where
  [model_defs]: "hex_number_of s = foldl (\<lambda>n c. 16 * n + hex_value c) 0 s"

definition hex_char :: "nat \<Rightarrow> char" where
  [model_defs]: "hex_char d = (if d < 10 then char_of (48 + d) else char_of (87 + d))"

fun show_hex :: "nat \<Rightarrow> string" where
  "show_hex n = (if n < 16 then [hex_char n] else show_hex (n div 16) @ [hex_char (n mod 16)])"

declare show_hex.simps [simp del]

definition is_lower_hex :: "char \<Rightarrow> bool" where
  [model_defs]: "is_lower_hex c \<longleftrightarrow> is_digit c \<or> (CHR ''a'' \<le> c \<and> c \<le> CHR ''f'')"

lemma hex_char_facts:
  assumes "d < 16"
  shows "is_lower_hex (hex_char d) \<and> hex_value (hex_char d) = d"
  using assms
  by (auto simp: hex_char_def is_lower_hex_def hex_value_def is_digit_def digit_value_def char_less_eq_nat)

lemma show_hex_digits: "list_all is_lower_hex (show_hex n) \<and> show_hex n \<noteq> []"
proof (induction n rule: show_hex.induct)
  case (1 n)
  then show ?case by (cases "n < 16") (simp_all add: show_hex.simps [of n] hex_char_facts)
qed

lemma hex_number_of_show_hex [simp]: "hex_number_of (show_hex n) = n"
proof (induction n rule: show_hex.induct)
  case (1 n)
  show ?case
  proof (cases "n < 16")
    case True
    then show ?thesis by (simp add: show_hex.simps [of n] hex_number_of_def hex_char_facts)
  next
    case False
    then show ?thesis using 1
      by (simp add: show_hex.simps [of n] hex_number_of_def hex_char_facts)
  qed
qed

lemma show_hex_length: "n < 16 ^ k \<Longrightarrow> 0 < k \<Longrightarrow> length (show_hex n) \<le> k"
proof (induction n arbitrary: k rule: show_hex.induct)
  case (1 n)
  show ?case
  proof (cases "n < 16")
    case True
    with 1 show ?thesis by (simp add: show_hex.simps [of n])
  next
    case False
    with 1(2) obtain j where k: "k = Suc (Suc j)" by (metis One_nat_def not0_implies_Suc power_0 power_one_right less_one gr_zeroI 1(3))
    with 1(2) have "n div 16 < 16 ^ Suc j" by (simp add: less_mult_imp_div_less mult.commute)
    with 1(1) [OF False, of "Suc j"] k False show ?thesis by (simp add: show_hex.simps [of n])
  qed
qed

section \<open>Splitting\<close>

fun split_on :: "char \<Rightarrow> string \<Rightarrow> string list" where
  "split_on c [] = [[]]"
| "split_on c (x # xs) =
     (if x = c then [] # split_on c xs
      else case split_on c xs of [] \<Rightarrow> [[x]] | p # ps \<Rightarrow> (x # p) # ps)"

lemma split_on_nonempty [simp]: "split_on c s \<noteq> []"
  by (induction s) (auto split: list.split)

lemma split_on_none: "c \<notin> set s \<Longrightarrow> split_on c s = [s]"
  by (induction s) auto

lemma split_on_append: "c \<notin> set s \<Longrightarrow> split_on c (s @ c # t) = s # split_on c t"
  by (induction s) auto

lemma split_on_parts: "p \<in> set (split_on c s) \<Longrightarrow> c \<notin> set p"
  by (induction s arbitrary: p) (auto split: if_splits list.splits)

lemma split_on_join: "join_with [c] (split_on c s) = s"
proof (induction s)
  case (Cons x s)
  obtain p ps where "split_on c s = p # ps" by (cases "split_on c s") auto
  with Cons show ?case by (cases ps) auto
qed simp

text \<open>The part after the last occurrence of a character, with the part up to and including it.\<close>

definition break_last :: "char \<Rightarrow> string \<Rightarrow> (string \<times> string) option" where
  [model_defs]: "break_last c s =
     (if c \<in> set s then
        let r = takeWhile (\<lambda>x. x \<noteq> c) (rev s) in Some (take (length s - length r) s, rev r)
      else None)"

lemma break_last_append: "c \<notin> set t \<Longrightarrow> break_last c (s @ c # t) = Some (s @ [c], t)"
proof -
  assume "c \<notin> set t"
  then have "takeWhile (\<lambda>x. x \<noteq> c) (rev t @ c # rev s) = rev t"
    by (subst takeWhile_append2) auto
  then show ?thesis by (simp add: break_last_def Let_def)
qed

section \<open>Replacing\<close>

definition replace_char :: "char \<Rightarrow> string \<Rightarrow> string \<Rightarrow> string" where
  [model_defs]: "replace_char c by s = concat (map (\<lambda>x. if x = c then by else [x]) s)"

section \<open>Trimming\<close>

lemma trim_trim [simp]: "trim (trim s) = trim s"
proof -
  have d: "dropWhile is_space (rev (dropWhile is_space (rev t))) = rev (dropWhile is_space (rev t))"
    if "t = [] \<or> \<not> is_space (hd t)" for t
  proof (cases "rev (dropWhile is_space (rev t))")
    case (Cons x xs)
    have "rev t = takeWhile is_space (rev t) @ dropWhile is_space (rev t)" by simp
    then have "t = rev (dropWhile is_space (rev t)) @ rev (takeWhile is_space (rev t))"
      by (metis rev_append rev_rev_ident)
    then have "hd t = x" "t \<noteq> []" using Cons by (metis append_Cons list.sel(1), metis append_Cons list.distinct(1))
    with that Cons show ?thesis by simp
  next
    case Nil
    then show ?thesis by (simp only: dropWhile.simps)
  qed
  have "dropWhile is_space s = [] \<or> \<not> is_space (hd (dropWhile is_space s))"
    using hd_dropWhile by blast
  from d [OF this] show ?thesis by (simp add: trim_def dropWhile_idem)
qed

section \<open>Patterns\<close>

text \<open>
  A regular expression as the list of the texts that can remain after a match at the start, longest
  match of a repetition last; a pattern matches when the list is not empty.
\<close>

type_synonym pattern = "string \<Rightarrow> string list"

definition p_lit :: "string \<Rightarrow> pattern" where
  [model_defs]: "p_lit t s = (if starts_with t s then [drop (length t) s] else [])"

fun p_star :: "(char \<Rightarrow> bool) \<Rightarrow> pattern" where
  "p_star P [] = [[]]"
| "p_star P (c # s) = (c # s) # (if P c then p_star P s else [])"

text \<open>At least \<open>m\<close> and at most \<open>n\<close> characters of a class.\<close>

fun p_range :: "(char \<Rightarrow> bool) \<Rightarrow> nat \<Rightarrow> nat \<Rightarrow> pattern" where
  "p_range P m n [] = (if m = 0 then [[]] else [])"
| "p_range P m n (c # s) =
     (if m = 0 then [c # s] else []) @ (if n > 0 \<and> P c then p_range P (m - 1) (n - 1) s else [])"

definition p_seq :: "pattern \<Rightarrow> pattern \<Rightarrow> pattern" where
  [model_defs]: "p_seq p q s = concat (map q (p s))"

definition p_alt :: "pattern \<Rightarrow> pattern \<Rightarrow> pattern" where
  [model_defs]: "p_alt p q s = p s @ q s"

definition p_end :: pattern where
  [model_defs]: "p_end s = (if s = [] then [[]] else [])"

definition p_matches :: "pattern \<Rightarrow> string \<Rightarrow> bool" where
  [model_defs]: "p_matches p s \<longleftrightarrow> p s \<noteq> []"

fun suffixes_of :: "string \<Rightarrow> string list" where
  "suffixes_of [] = [[]]"
| "suffixes_of (c # s) = (c # s) # suffixes_of s"

end
