(* ===== verification/SendAt.thy ===== *)
theory SendAt
  imports Types Texts
begin

text \<open>
  The parsing half of src/services/scheduler.service.ts: schedule ids (the only file names the queue
  reads or writes) and \<open>send_at\<close> dates. \<open>match_send_at\<close> is the regular expression
  \<open>SEND_AT_RE\<close>; \<open>date_value\<close> is what \<open>new Date\<close> gives for a text of that shape (ECMAScript's
  date-time string format: proleptic Gregorian days, \<open>NaN\<close> for a month, day or offset field
  outside its range).
\<close>

section \<open>Schedule ids\<close>

definition id_char_ok :: "nat \<Rightarrow> char \<Rightarrow> bool" where
  "id_char_ok i c \<longleftrightarrow>
     (if i \<in> {8, 13, 18, 23} then c = CHR ''-''
      else if i = 14 then c = CHR ''4''
      else if i = 19 then c \<in> {CHR ''8'', CHR ''9'', CHR ''a'', CHR ''b'', CHR ''A'', CHR ''B''}
      else is_hex c)"

definition SCHEDULE_ID_RE :: "string \<Rightarrow> bool" where
  "SCHEDULE_ID_RE s \<longleftrightarrow> length s = 36 \<and> list_all (\<lambda>(i, c). id_char_ok i c) (enumerate 0 s)"

definition JSON_SUFFIX :: string where [model_defs]: "JSON_SUFFIX = ''.json''"

definition scheduleIdFromFilename :: "string \<Rightarrow> string option" where
  "scheduleIdFromFilename filename =
     (if \<not> ends_with JSON_SUFFIX filename then None
      else let i = take (length filename - length JSON_SUFFIX) filename
           in if SCHEDULE_ID_RE i then Some i else None)"

datatype sched_error =
    InvalidId | InvalidAccount | NoRecipient | TooManyRecipients | InvalidRecipient string
  | LineBreaks string | TooLong string nat | InvalidSendAt string | NotInFuture | TooFarAhead
  | TooManyScheduled | AlreadyBeingSent | NotCancellable schedStatus | NotFound string
  | IoError string

definition queueFile :: "string \<Rightarrow> sched_error + string" where
  "queueFile i = (if \<not> SCHEDULE_ID_RE i then Inl InvalidId else Inr (i @ JSON_SUFFIX))"

definition lockFile :: "string \<Rightarrow> sched_error + string" where
  "lockFile i = (if \<not> SCHEDULE_ID_RE i then Inl InvalidId else Inr (i @ ''.lock''))"

lemma scheduleIdFromFilename_Some:
  "scheduleIdFromFilename f = Some i \<longleftrightarrow> f = i @ JSON_SUFFIX \<and> SCHEDULE_ID_RE i"
proof
  assume "scheduleIdFromFilename f = Some i"
  then have e: "ends_with JSON_SUFFIX f" "i = take (length f - length JSON_SUFFIX) f" "SCHEDULE_ID_RE i"
    by (auto simp: scheduleIdFromFilename_def Let_def split: if_splits)
  then have "drop (length f - length JSON_SUFFIX) f = JSON_SUFFIX" by (simp add: ends_with_def)
  with e show "f = i @ JSON_SUFFIX \<and> SCHEDULE_ID_RE i" by (metis append_take_drop_id)
qed (simp add: scheduleIdFromFilename_def ends_with_def Let_def)

lemma queueFile_inverse: "queueFile i = Inr f \<longleftrightarrow> scheduleIdFromFilename f = Some i"
  by (auto simp: queueFile_def scheduleIdFromFilename_Some)

lemma SCHEDULE_ID_RE_chars: "SCHEDULE_ID_RE s \<Longrightarrow> c \<in> set s \<Longrightarrow> is_hex c \<or> c = CHR ''-''"
proof -
  assume id: "SCHEDULE_ID_RE s" and c: "c \<in> set s"
  then obtain i where "i < length s" "s ! i = c" by (auto simp: in_set_conv_nth)
  then have "(i, c) \<in> set (enumerate 0 s)" by (simp add: in_set_enumerate_eq)
  with id have "id_char_ok i c" by (auto simp: SCHEDULE_ID_RE_def list_all_iff)
  moreover have "is_hex x" if "x \<in> {CHR ''4'', CHR ''8'', CHR ''9'', CHR ''a'', CHR ''b'', CHR ''A'', CHR ''B''}" for x
    using that by (elim insertE emptyE; hypsubst) code_simp+
  ultimately show ?thesis unfolding id_char_ok_def by (metis insert_iff)
qed

section \<open>The calendar\<close>

definition is_leap :: "nat \<Rightarrow> bool" where
  [model_defs]: "is_leap year \<longleftrightarrow> year mod 4 = 0 \<and> (year mod 100 \<noteq> 0 \<or> year mod 400 = 0)"

definition daysInMonth :: "nat \<Rightarrow> nat \<Rightarrow> nat" where
  "daysInMonth year month =
     (if month = 2 then if is_leap year then 29 else 28
      else if month = 4 \<or> month = 6 \<or> month = 9 \<or> month = 11 then 30 else 31)"

definition sendAtFieldsInvalid :: "nat \<Rightarrow> nat \<Rightarrow> nat \<Rightarrow> nat \<Rightarrow> nat \<Rightarrow> nat \<Rightarrow> bool" where
  "sendAtFieldsInvalid year month day hour minute second \<longleftrightarrow>
     month > 12 \<or> day > daysInMonth year month \<or> hour > 23 \<or> minute > 59 \<or> second > 59"

text \<open>Days from 0000-01-01 to the first of January of a year, and to the first of a month.\<close>

definition days_before_year :: "nat \<Rightarrow> nat" where
  "days_before_year y = 365 * y + (y + 3) div 4 + (y + 399) div 400 - (y + 99) div 100"

definition days_before_month :: "nat \<Rightarrow> nat \<Rightarrow> nat" where
  "days_before_month y m = sum_list (map (daysInMonth y) [1..<m])"

definition day_number :: "nat \<Rightarrow> nat \<Rightarrow> nat \<Rightarrow> int" where
  "day_number y m d = int (days_before_year y + days_before_month y m + d) - 719529"

section \<open>Matching\<close>

record sendAtMatch =
  f_year :: nat
  f_month :: nat
  f_day :: nat
  f_hour :: nat
  f_minute :: nat
  f_second :: nat
  f_milli :: nat
  f_offset :: "(bool \<times> nat \<times> nat) option"  \<comment> \<open>\<open>None\<close> for \<open>Z\<close>; else west, hours, minutes\<close>

definition digits :: "nat \<Rightarrow> string \<Rightarrow> (nat \<times> string) option" where
  "digits n s = (if n \<le> length s \<and> list_all is_digit (take n s)
     then Some (number_of (take n s), drop n s) else None)"

fun expect :: "char \<Rightarrow> string \<Rightarrow> string option" where
  "expect c [] = None"
| "expect c (x # xs) = (if x = c then Some xs else None)"

definition match_fraction :: "string \<Rightarrow> (nat \<times> string) option" where
  "match_fraction s =
     (case expect CHR ''.'' s of
        None \<Rightarrow> Some (0, s)
      | Some r \<Rightarrow>
          let ds = takeWhile is_digit (take 3 r) in
          if ds = [] then None
          else Some (number_of ds * 10 ^ (3 - length ds), drop (length ds) r))"

definition match_seconds :: "string \<Rightarrow> (nat \<times> nat \<times> string) option" where
  "match_seconds s =
     (case expect CHR '':'' s of
        None \<Rightarrow> Some (0, 0, s)
      | Some r \<Rightarrow>
          (case digits 2 r of
             None \<Rightarrow> None
           | Some (sec, r) \<Rightarrow>
               (case match_fraction r of None \<Rightarrow> None | Some (ms, r) \<Rightarrow> Some (sec, ms, r))))"

definition match_offset :: "string \<Rightarrow> (bool \<times> nat \<times> nat) option option" where
  "match_offset s =
     (if s = ''Z'' then Some None
      else case s of
        [] \<Rightarrow> None
      | c # r \<Rightarrow>
          if c \<noteq> CHR ''+'' \<and> c \<noteq> CHR ''-'' then None
          else Option.bind (digits 2 r) (\<lambda>(h, r).
               Option.bind (expect CHR '':'' r) (\<lambda>r.
               Option.bind (digits 2 r) (\<lambda>(m, r).
               if r = [] then Some (Some (c = CHR ''-'', h, m)) else None))))"

definition match_send_at :: "string \<Rightarrow> sendAtMatch option" where
  "match_send_at s =
     Option.bind (digits 4 s) (\<lambda>(y, s).
     Option.bind (expect CHR ''-'' s) (\<lambda>s.
     Option.bind (digits 2 s) (\<lambda>(mo, s).
     Option.bind (expect CHR ''-'' s) (\<lambda>s.
     Option.bind (digits 2 s) (\<lambda>(d, s).
     Option.bind (expect CHR ''T'' s) (\<lambda>s.
     Option.bind (digits 2 s) (\<lambda>(h, s).
     Option.bind (expect CHR '':'' s) (\<lambda>s.
     Option.bind (digits 2 s) (\<lambda>(mi, s).
     Option.bind (match_seconds s) (\<lambda>(sec, ms, s).
     Option.bind (match_offset s) (\<lambda>off.
     Some \<lparr>f_year = y, f_month = mo, f_day = d, f_hour = h, f_minute = mi, f_second = sec,
           f_milli = ms, f_offset = off\<rparr>)))))))))))"

definition offset_minutes :: "(bool \<times> nat \<times> nat) option \<Rightarrow> int option" where
  "offset_minutes off =
     (case off of
        None \<Rightarrow> Some 0
      | Some (west, h, m) \<Rightarrow>
          if h > 23 \<or> m > 59 then None
          else Some ((if west then - 1 else 1) * (60 * int h + int m)))"

definition date_value :: "sendAtMatch \<Rightarrow> int option" where
  "date_value f =
     (if f_month f = 0 \<or> f_month f > 12 \<or> f_day f = 0 \<or> f_day f > 31 then None
      else map_option (\<lambda>off.
        (day_number (f_year f) (f_month f) (f_day f) * 86400 + int (f_hour f) * 3600 +
         (int (f_minute f) - off) * 60 + int (f_second f)) * 1000 + int (f_milli f))
        (offset_minutes (f_offset f)))"

definition MS_PER_DAY :: int where "MS_PER_DAY = 24 * 60 * 60 * 1000"
definition MAX_SCHEDULE_AHEAD_MS :: int where "MAX_SCHEDULE_AHEAD_MS = 366 * MS_PER_DAY"

definition parseSendAt :: "string \<Rightarrow> int \<Rightarrow> sched_error + int" where
  "parseSendAt sendAt now =
     (case (if length sendAt \<le> 40 then match_send_at sendAt else None) of
        None \<Rightarrow> Inl (InvalidSendAt sendAt)
      | Some f \<Rightarrow>
          if sendAtFieldsInvalid (f_year f) (f_month f) (f_day f) (f_hour f) (f_minute f) (f_second f)
          then Inl (InvalidSendAt sendAt)
          else (case date_value f of
                  None \<Rightarrow> Inl (InvalidSendAt sendAt)
                | Some t \<Rightarrow>
                    if t \<le> now then Inl NotInFuture
                    else if t - now > MAX_SCHEDULE_AHEAD_MS then Inl TooFarAhead
                    else Inr t))"

section \<open>Properties\<close>

definition real_date :: "nat \<Rightarrow> nat \<Rightarrow> nat \<Rightarrow> bool" where
  "real_date y m d \<longleftrightarrow> m \<in> {1..12} \<and> d \<in> {1..daysInMonth y m}"

lemma ceil_div:
  assumes "0 < (k :: nat)"
  shows "(y + (k - 1)) div k = y div k + (if y mod k = 0 then 0 else 1)"
proof -
  define q r where "q = y div k" and "r = y mod k"
  have y: "y = r + q * k" and r: "r < k" using assms by (simp_all add: q_def r_def)
  have "y + (k - 1) = (r + (k - 1)) + q * k" using y by simp
  then have "(y + (k - 1)) div k = q + (r + (k - 1)) div k"
    using assms by (simp only: div_mult_self1 neq0_conv not_gr_zero [symmetric] simp_thms)
  moreover have "(r + (k - 1)) div k = (if r = 0 then 0 else 1)"
  proof (cases r)
    case 0
    with assms show ?thesis by simp
  next
    case (Suc r')
    then have "r + (k - 1) = r' + k" using assms by simp
    then have "(r + (k - 1)) div k = Suc (r' div k)" using assms by (simp only: div_add_self2 neq0_conv)
    with Suc r show ?thesis by simp
  qed
  ultimately show ?thesis by (simp add: q_def r_def)
qed

lemma ceil_div_Suc:
  fixes k :: nat
  assumes "k = j + 1"
  shows "(Suc y + j) div k = (y + j) div k + (if y mod k = 0 then 1 else 0)"
proof -
  have "0 < k" "k - 1 = j" "Suc y + j = y + k" using assms by simp_all
  moreover from this(1) have "(y + k) div k = Suc (y div k)" by simp
  ultimately have "(Suc y + j) div k = Suc (y div k)" by (simp only:)
  moreover have "(y + j) div k = y div k + (if y mod k = 0 then 0 else 1)"
    using ceil_div [of k y] \<open>0 < k\<close> \<open>k - 1 = j\<close> by (simp only:)
  ultimately show ?thesis by (simp only:) simp
qed

lemma leap_arith:
  "c \<le> 365 * y + a + d \<Longrightarrow> (p400 \<longrightarrow> p100) \<Longrightarrow> (p100 \<longrightarrow> p4) \<Longrightarrow>
   365 * Suc y + (a + (if p4 then 1 else 0)) + (d + (if p400 then 1 else 0)) - (c + (if p100 then 1 else 0)) =
   365 * y + a + d - c + (if p4 \<and> (\<not> p100 \<or> p400) then 366 else 365 :: nat)"
  by (cases p4; cases p100; cases p400; simp)

lemma century_dvd:
  "(y :: nat) mod 400 = 0 \<Longrightarrow> y mod 100 = 0"
  "(y :: nat) mod 100 = 0 \<Longrightarrow> y mod 4 = 0"
proof -
  assume "y mod 400 = 0"
  then have "400 dvd y" by (rule mod_0_imp_dvd)
  then have "100 dvd y" by (rule dvd_trans [rotated]) simp
  then show "y mod 100 = 0" by (rule dvd_imp_mod_0)
next
  assume "y mod 100 = 0"
  then have "100 dvd y" by (rule mod_0_imp_dvd)
  then have "4 dvd y" by (rule dvd_trans [rotated]) simp
  then show "y mod 4 = 0" by (rule dvd_imp_mod_0)
qed

lemma year_length: "days_before_year (Suc y) = days_before_year y + (if is_leap y then 366 else 365)"
proof -
  have four: "(Suc y + 3) div 4 = (y + 3) div 4 + (if y mod 4 = 0 then 1 else 0)"
    by (rule ceil_div_Suc) simp
  have hundred: "(Suc y + 99) div 100 = (y + 99) div 100 + (if y mod 100 = 0 then 1 else 0)"
    by (rule ceil_div_Suc) simp
  have fourh: "(Suc y + 399) div 400 = (y + 399) div 400 + (if y mod 400 = 0 then 1 else 0)"
    by (rule ceil_div_Suc) simp
  have "(y + 99) div 100 \<le> y" by (cases y) auto
  then have le: "(y + 99) div 100 \<le> 365 * y + (y + 3) div 4 + (y + 399) div 400"
    by (rule order_trans) simp
  show ?thesis
    unfolding days_before_year_def is_leap_def four hundred fourh
    using le century_dvd [of y] by (intro leap_arith) simp_all
qed

lemma days_before_month_Suc: "1 \<le> m \<Longrightarrow> days_before_month y (Suc m) = days_before_month y m + daysInMonth y m"
  by (simp add: days_before_month_def)

lemma days_before_month_13: "days_before_month y 13 = (if is_leap y then 366 else 365)"
  by (simp add: days_before_month_def upt_rec daysInMonth_def)

lemma days_before_month_1: "days_before_month y 1 = 0"
  by (simp add: days_before_month_def)

text \<open>
  An accepted \<open>send_at\<close> is exactly a text of the documented shape whose fields are a real
  calendar date and time of day with an offset in range, and whose instant lies after now and within
  the 366 day horizon; nothing is rolled over to another day.
\<close>

theorem parseSendAt_iff:
  "parseSendAt s now = Inr t \<longleftrightarrow>
     length s \<le> 40 \<and>
     (\<exists>f off. match_send_at s = Some f \<and> real_date (f_year f) (f_month f) (f_day f) \<and>
        f_hour f \<le> 23 \<and> f_minute f \<le> 59 \<and> f_second f \<le> 59 \<and> offset_minutes (f_offset f) = Some off \<and>
        t = (day_number (f_year f) (f_month f) (f_day f) * 86400 + int (f_hour f) * 3600 +
             (int (f_minute f) - off) * 60 + int (f_second f)) * 1000 + int (f_milli f) \<and>
        now < t \<and> t \<le> now + 366 * MS_PER_DAY)"
proof -
  have month: "daysInMonth y m \<le> 31" for y m by (simp add: daysInMonth_def)
  have valid: "\<not> sendAtFieldsInvalid y m d h mi sec \<and> \<not> (m = 0 \<or> m > 12 \<or> d = 0 \<or> d > 31) \<longleftrightarrow>
      real_date y m d \<and> h \<le> 23 \<and> mi \<le> 59 \<and> sec \<le> 59" for y m d h mi sec
    using month [of y m] by (auto simp: sendAtFieldsInvalid_def real_date_def)
  show ?thesis
    unfolding parseSendAt_def date_value_def MAX_SCHEDULE_AHEAD_MS_def
    using valid by (fastforce split: option.splits if_splits)
qed

text \<open>
  The day number behind the check is the proleptic Gregorian calendar: zero on 1970-01-01 and
  one more on the next day, across ends of months and of years, leap years included.
\<close>

theorem calendar_counts_days:
  assumes "real_date y m d"
  shows "day_number 1970 1 1 = 0 \<and>
    (if d < daysInMonth y m then real_date y m (d + 1) \<and> day_number y m (d + 1) = day_number y m d + 1
     else if m < 12 then real_date y (m + 1) 1 \<and> day_number y (m + 1) 1 = day_number y m d + 1
     else real_date (y + 1) 1 1 \<and> day_number (y + 1) 1 1 = day_number y m d + 1)"
proof -
  have pos: "1 \<le> daysInMonth y m" for y m by (simp add: daysInMonth_def)
  have epoch: "day_number 1970 1 1 = 0"
    by (simp add: day_number_def days_before_year_def days_before_month_def)
  have dec: "days_before_month y 12 + daysInMonth y 12 = (if is_leap y then 366 else 365)"
    using days_before_month_Suc [of 12 y] days_before_month_13 [of y] by simp
  show ?thesis
    using assms epoch pos dec days_before_month_Suc [of m y] year_length [of y] days_before_month_1
    by (cases "m = 12") (auto simp: day_number_def real_date_def)
qed

theorem calendar_counts_days_witness:
  "day_number 2028 3 1 = day_number 2028 2 29 + 1"
  using calendar_counts_days [of 2028 2 29] by (simp add: real_date_def daysInMonth_def is_leap_def)

text \<open>
  The queue touches only files named by a schedule id: a directory entry it accepts is the file
  \<open>queueFile\<close> names for that id, and an id has hexadecimal digits and dashes only, so no path
  separator or dot can leave the queue directory.
\<close>

theorem schedule_files_confined:
  assumes "scheduleIdFromFilename f = Some i"
  shows "queueFile i = Inr f \<and> f = i @ ''.json'' \<and> (\<forall>c \<in> set i. is_hex c \<or> c = CHR ''-'')"
  using assms queueFile_inverse SCHEDULE_ID_RE_chars
  by (auto simp: scheduleIdFromFilename_Some JSON_SUFFIX_def)

theorem schedule_files_confined_witness:
  "queueFile ''0f8fad5b-d9cb-469f-a165-70867728950e'' = Inr ''0f8fad5b-d9cb-469f-a165-70867728950e.json''"
proof -
  have "scheduleIdFromFilename ''0f8fad5b-d9cb-469f-a165-70867728950e.json'' =
      Some ''0f8fad5b-d9cb-469f-a165-70867728950e''" by code_simp
  from schedule_files_confined [OF this] show ?thesis by simp
qed

end
