(* ===== verification/Scheduler.thy ===== *)
theory Scheduler
  imports SendAt FileClaim
begin

text \<open>
  The queue of scheduled mail (src/services/scheduler.service.ts). A \<open>queue\<close> is the disk: the
  pending directory with its sent subdirectory (file name to content, in directory order), the lock
  files, and \<open>smtpLog\<close>, one entry for each message handed to SMTP (past the rate limit) with
  whether SMTP accepted it. What the code does not decide is an \<open>env\<close>: the answer of SMTP, which
  writes and renames fail, whether the draft can be deleted, the clock and the next claim token.
  \<open>processQueueFile\<close> and its helpers are the methods of the same names; a thrown error is
  \<open>Inl\<close>. The functions run without interleaving; \<open>FileClaim\<close> covers the race for a claim.
\<close>

section \<open>Constants and state\<close>

definition SCHEDULER_INTERVAL_MS :: number where "SCHEDULER_INTERVAL_MS = 60000"
definition STALE_LOCK_MS :: number where "STALE_LOCK_MS = 5 * 60 * 1000"
definition CLAIM_RENEW_MS :: number where "CLAIM_RENEW_MS = STALE_LOCK_MS / 5"
definition MAX_ATTEMPTS :: nat where "MAX_ATTEMPTS = 3"
definition MAX_SCHEDULE_RECIPIENTS :: nat where "MAX_SCHEDULE_RECIPIENTS = 50"
definition MAX_HEADER_LINE_CHARS :: nat where "MAX_HEADER_LINE_CHARS = 998"
definition MAX_SCHEDULE_BODY_CHARS :: nat where "MAX_SCHEDULE_BODY_CHARS = 5000000"
definition MAX_PENDING_SCHEDULES :: nat where "MAX_PENDING_SCHEDULES = 100"
definition MAX_ACCOUNT_NAME_CHARS :: nat where "MAX_ACCOUNT_NAME_CHARS = 128"

datatype qfile = Json scheduledEmail | Garbage

record queue =
  pendingDir :: "(string, qfile) jsmap"
  sentDir :: "(string, qfile) jsmap"
  locks :: "string \<Rightarrow> lockfile"
  smtpLog :: "(string \<times> bool) list"
  deletedDrafts :: "(string \<times> string \<times> string) list"

datatype smtp_answer = Accepted string | RateLimited string | Refused string

record env =
  smtp :: "scheduledEmail \<Rightarrow> smtp_answer"
  writeFails :: "scheduledEmail \<Rightarrow> string option"
  moveFails :: "string \<Rightarrow> string option"
  draftDeletable :: "string \<Rightarrow> string \<Rightarrow> string \<Rightarrow> bool"
  nowMs :: number
  claimTok :: token

datatype delivery_outcome = OutSent | OutFailed | OutDeferred | OutSkipped

record delivery =
  outcome :: delivery_outcome
  dl_error :: "string option"

definition delivery_of :: "delivery_outcome \<Rightarrow> delivery" where
  [model_defs]: "delivery_of out = \<lparr>outcome = out, dl_error = None\<rparr>"

section \<open>Reading a record\<close>

definition readFile :: "string \<Rightarrow> (string, qfile) jsmap \<Rightarrow> string + scheduledEmail" where
  "readFile f dir =
     (case js_get dir f of
        None \<Rightarrow> Inl ''ENOENT''
      | Some Garbage \<Rightarrow> Inl ''SyntaxError''
      | Some (Json e) \<Rightarrow> Inr e)"

definition readScheduled :: "string \<Rightarrow> (string, qfile) jsmap \<Rightarrow> string + scheduledEmail option" where
  "readScheduled f dir =
     (case js_get dir f of
        None \<Rightarrow> Inr None
      | Some Garbage \<Rightarrow> Inl ''SyntaxError''
      | Some (Json e) \<Rightarrow> Inr (Some e))"

definition isDelivered :: "scheduledEmail \<Rightarrow> string \<Rightarrow> bool" where
  "isDelivered e i \<longleftrightarrow> se_id e = i \<and> se_status e = Sent"

definition isSendTimeReached :: "number option \<Rightarrow> number \<Rightarrow> bool" where
  "isSendTimeReached sendAt now = (case sendAt of None \<Rightarrow> True | Some t \<Rightarrow> \<not> t > now)"

definition isDue :: "scheduledEmail \<Rightarrow> string \<Rightarrow> number \<Rightarrow> bool" where
  "isDue e i now \<longleftrightarrow>
     se_id e = i \<and> se_status e \<noteq> Failed \<and> se_status e \<noteq> Sent \<and> isSendTimeReached (se_sendAt e) now"

section \<open>Writing\<close>

definition lockName :: "string \<Rightarrow> string" where [model_defs]: "lockName i = i @ ''.lock''"
definition fileName :: "string \<Rightarrow> string" where [model_defs]: "fileName i = i @ ''.json''"

definition claimSchedule :: "env \<Rightarrow> string \<Rightarrow> number \<Rightarrow> queue \<Rightarrow> token option \<times> queue" where
  "claimSchedule E i now q =
     (case acquireClaim STALE_LOCK_MS now (claimTok E) (nowMs E) (locks q (lockName i)) of
        (t, lk) \<Rightarrow> (t, q\<lparr>locks := (locks q)(lockName i := lk)\<rparr>))"

definition unclaimSchedule :: "string \<Rightarrow> token \<Rightarrow> queue \<Rightarrow> queue" where
  "unclaimSchedule i t q = q\<lparr>locks := (locks q)(lockName i := releaseClaim t (locks q (lockName i)))\<rparr>"

definition writeScheduledFile :: "env \<Rightarrow> scheduledEmail \<Rightarrow> queue \<Rightarrow> (string + unit) \<times> queue" where
  "writeScheduledFile E e q =
     (if \<not> SCHEDULE_ID_RE (se_id e) then (Inl ''Schedule id is not valid'', q)
      else case writeFails E e of
        Some err \<Rightarrow> (Inl err, q)
      | None \<Rightarrow> (Inr (), q\<lparr>pendingDir := js_set (fileName (se_id e)) (Json e) (pendingDir q)\<rparr>))"

definition moveToSent :: "env \<Rightarrow> string \<Rightarrow> queue \<Rightarrow> (string + unit) \<times> queue" where
  "moveToSent E i q =
     (if \<not> SCHEDULE_ID_RE i then (Inl ''Schedule id is not valid'', q)
      else case (moveFails E i, js_get (pendingDir q) (fileName i)) of
        (Some err, _) \<Rightarrow> (Inl err, q)
      | (None, None) \<Rightarrow> (Inl ''ENOENT'', q)
      | (None, Some f) \<Rightarrow>
          (Inr (), q\<lparr>pendingDir := js_delete (fileName i) (pendingDir q),
                      sentDir := js_set (fileName i) f (sentDir q)\<rparr>))"

definition writeSendFailure :: "env \<Rightarrow> string \<Rightarrow> string \<Rightarrow> queue \<Rightarrow> queue" where
  "writeSendFailure E i errorMsg q =
     (case readFile (fileName i) (pendingDir q) of
        Inl _ \<Rightarrow> q
      | Inr e \<Rightarrow>
          (let e' = e\<lparr>se_status := (if se_attempts e \<ge> MAX_ATTEMPTS then Failed else Pending),
                      se_lastError := Some errorMsg\<rparr>
           in case writeFails E e' of
                Some _ \<Rightarrow> q
              | None \<Rightarrow> q\<lparr>pendingDir := js_set (fileName i) (Json e') (pendingDir q)\<rparr>))"

section \<open>Delivery\<close>

definition recordSent :: "env \<Rightarrow> scheduledEmail \<Rightarrow> queue \<Rightarrow> string option \<times> queue" where
  "recordSent E sent q =
     (case writeScheduledFile E sent q of
        (w, q1) \<Rightarrow>
          (case moveToSent E (se_id sent) q1 of
             (m, q2) \<Rightarrow>
               ((case w of
                   Inl err \<Rightarrow> Some err
                 | Inr _ \<Rightarrow> (case m of Inl err \<Rightarrow> Some err | Inr _ \<Rightarrow> None)), q2)))"

text \<open>The mirror draft, deleted when both of its fields are set; a failure is swallowed.\<close>

definition deleteDraft :: "env \<Rightarrow> scheduledEmail \<Rightarrow> queue \<Rightarrow> bool \<times> queue" where
  "deleteDraft E e q =
     (case (se_draftMessageId e, se_draftMailbox e) of
        (Some mid, Some box) \<Rightarrow>
          if mid \<noteq> [] \<and> box \<noteq> [] \<and> draftDeletable E (se_account e) mid box
          then (True, q\<lparr>deletedDrafts := deletedDrafts q @ [(se_account e, mid, box)]\<rparr>)
          else (False, q)
      | _ \<Rightarrow> (False, q))"

definition recordDelivery :: "env \<Rightarrow> scheduledEmail \<Rightarrow> string \<Rightarrow> queue \<Rightarrow> delivery \<times> queue" where
  "recordDelivery E sending messageId q =
     (case recordSent E (sending\<lparr>se_status := Sent, se_sentAt := Some (nowMs E), se_sentMessageId := Some messageId\<rparr>) q of
        (recordError, q1) \<Rightarrow>
          (case deleteDraft E sending q1 of
             (_, q2) \<Rightarrow>
               (case recordError of
                  None \<Rightarrow> (delivery_of OutSent, q2)
                | Some err \<Rightarrow>
                    (\<lparr>outcome = OutSent, dl_error = Some (''sent, but the queue record was not updated: '' @ err)\<rparr>, q2))))"

definition sendClaimedEmail :: "env \<Rightarrow> scheduledEmail \<Rightarrow> string \<Rightarrow> queue \<Rightarrow> (string + delivery) \<times> queue" where
  "sendClaimedEmail E queued i q =
     (let sending = queued\<lparr>se_status := Sending, se_attempts := Suc (se_attempts queued)\<rparr> in
      case writeScheduledFile E sending q of
        (Inl err, q1) \<Rightarrow> (Inl err, q1)
      | (Inr _, q1) \<Rightarrow>
          (case smtp E sending of
             RateLimited msg \<Rightarrow>
               (case writeScheduledFile E (queued\<lparr>se_lastError := Some msg\<rparr>) q1 of
                  (Inl err, q2) \<Rightarrow> (Inl err, q2)
                | (Inr _, q2) \<Rightarrow> (Inr (delivery_of OutDeferred), q2))
           | Refused msg \<Rightarrow> (Inl msg, q1\<lparr>smtpLog := smtpLog q1 @ [(i, False)]\<rparr>)
           | Accepted mid \<Rightarrow>
               (case recordDelivery E sending mid (q1\<lparr>smtpLog := smtpLog q1 @ [(i, True)]\<rparr>) of
                  (d, q2) \<Rightarrow> (Inr d, q2))))"

definition sendIfStillDue :: "env \<Rightarrow> string \<Rightarrow> number \<Rightarrow> queue \<Rightarrow> (string + delivery) \<times> queue" where
  "sendIfStillDue E i now q =
     (case readScheduled (fileName i) (pendingDir q) of
        Inl err \<Rightarrow> (Inl err, q)
      | Inr None \<Rightarrow> (Inr (delivery_of OutSkipped), q)
      | Inr (Some e) \<Rightarrow>
          if \<not> isDue e i now then (Inr (delivery_of OutSkipped), q)
          else if se_attempts e \<ge> MAX_ATTEMPTS then
            (case writeScheduledFile E (e\<lparr>se_status := Failed, se_lastError := Some ''Max retry attempts exceeded''\<rparr>) q of
               (Inl err, q') \<Rightarrow> (Inl err, q')
             | (Inr _, q') \<Rightarrow> (Inr (delivery_of OutFailed), q'))
          else sendClaimedEmail E e i q)"

definition settleDelivered :: "env \<Rightarrow> string \<Rightarrow> queue \<Rightarrow> delivery \<times> queue" where
  "settleDelivered E i q = (delivery_of OutSkipped, snd (moveToSent E i q))"

definition failDelivery :: "env \<Rightarrow> string \<Rightarrow> string \<Rightarrow> queue \<Rightarrow> delivery \<times> queue" where
  "failDelivery E i err q = (\<lparr>outcome = OutFailed, dl_error = Some err\<rparr>, writeSendFailure E i err q)"

definition processQueueFile :: "env \<Rightarrow> string \<Rightarrow> number \<Rightarrow> queue \<Rightarrow> delivery \<times> queue" where
  "processQueueFile E f now q =
     (case scheduleIdFromFilename f of
        None \<Rightarrow> (delivery_of OutSkipped, q)
      | Some i \<Rightarrow>
          (case readFile (fileName i) (pendingDir q) of
             Inl err \<Rightarrow> failDelivery E i err q
           | Inr e \<Rightarrow>
               if \<not> isDelivered e i \<and> \<not> isDue e i now then (delivery_of OutSkipped, q)
               else
                 (case claimSchedule E i now q of
                    (None, q1) \<Rightarrow> (delivery_of OutSkipped, q1)
                  | (Some t, q1) \<Rightarrow>
                      (let (d, q2) =
                         (if isDelivered e i then settleDelivered E i q1
                          else (case sendIfStillDue E i now q1 of
                                  (Inl err, q2) \<Rightarrow> failDelivery E i err q2
                                | (Inr d, q2) \<Rightarrow> (d, q2)))
                       in (d, unclaimSchedule i t q2)))))"

record check_result =
  cr_sent :: nat
  cr_failed :: nat
  cr_deferred :: nat
  cr_errors :: "string list"

definition count_delivery :: "string \<Rightarrow> delivery \<Rightarrow> check_result \<Rightarrow> check_result" where
  "count_delivery f d r =
     (let r1 = (case outcome d of
                  OutSent \<Rightarrow> r\<lparr>cr_sent := Suc (cr_sent r)\<rparr>
                | OutDeferred \<Rightarrow> r\<lparr>cr_deferred := Suc (cr_deferred r)\<rparr>
                | OutFailed \<Rightarrow> r\<lparr>cr_failed := Suc (cr_failed r)\<rparr>
                | OutSkipped \<Rightarrow> r)
      in if outcome d = OutSkipped then r
         else case dl_error d of None \<Rightarrow> r1 | Some err \<Rightarrow> r1\<lparr>cr_errors := cr_errors r1 @ [f @ '': '' @ err]\<rparr>)"

fun process_files :: "env \<Rightarrow> number \<Rightarrow> string list \<Rightarrow> check_result \<Rightarrow> queue \<Rightarrow> check_result \<times> queue" where
  "process_files E now [] r q = (r, q)"
| "process_files E now (f # fs) r q =
     (case processQueueFile E f now q of (d, q') \<Rightarrow> process_files E now fs (count_delivery f d r) q')"

definition checkAndSend :: "env \<Rightarrow> queue \<Rightarrow> check_result \<times> queue" where
  "checkAndSend E q =
     process_files E (nowMs E) (filter (\<lambda>f. scheduleIdFromFilename f \<noteq> None) (js_keys (pendingDir q)))
       \<lparr>cr_sent = 0, cr_failed = 0, cr_deferred = 0, cr_errors = []\<rparr> q"

section \<open>Scheduling\<close>

definition assertAccount :: "string \<Rightarrow> sched_error + unit" where
  "assertAccount account =
     assertE (\<not> (trim account = [] \<or> length account > MAX_ACCOUNT_NAME_CHARS \<or> has_control account)) InvalidAccount"

definition validateInputLength :: "string \<Rightarrow> nat \<Rightarrow> string \<Rightarrow> sched_error + unit" where
  "validateInputLength v mx field = assertE (\<not> length v > mx) (TooLong field mx)"

definition assertHeaderField :: "string \<Rightarrow> string \<Rightarrow> nat \<Rightarrow> sched_error + unit" where
  "assertHeaderField v field mx =
     bindE (assertE (\<not> (CHR 0x0D \<in> set v \<or> CHR 0x0A \<in> set v \<or> CHR 0x00 \<in> set v)) (LineBreaks field))
       (\<lambda>_. validateInputLength v mx field)"

fun assertAddresses :: "(string \<Rightarrow> bool) \<Rightarrow> string list \<Rightarrow> sched_error + unit" where
  "assertAddresses valid [] = Inr ()"
| "assertAddresses valid (v # vs) = (if valid v then assertAddresses valid vs else Inl (InvalidRecipient v))"

fun assertHeaderFields :: "string list \<Rightarrow> string \<Rightarrow> nat \<Rightarrow> sched_error + unit" where
  "assertHeaderFields [] field mx = Inr ()"
| "assertHeaderFields (v # vs) field mx = bindE (assertHeaderField v field mx) (\<lambda>_. assertHeaderFields vs field mx)"

record schedule_options =
  op_to :: "string list"
  op_subject :: string
  op_body :: string
  op_sendAt :: string
  op_cc :: "string list option"
  op_bcc :: "string list option"
  op_html :: "bool option"
  op_inReplyTo :: "string option"
  op_references :: "string list option"

definition opt_list :: "'a list option \<Rightarrow> 'a list" where
  [model_defs]: "opt_list x = (case x of None \<Rightarrow> [] | Some l \<Rightarrow> l)"

text \<open>The checks of \<open>schedule\<close>, in its order; \<open>valid\<close> is the address pattern the schema library supplies.\<close>

definition scheduleChecks :: "(string \<Rightarrow> bool) \<Rightarrow> string \<Rightarrow> schedule_options \<Rightarrow> int \<Rightarrow> sched_error + int" where
  "scheduleChecks valid account opt now =
     bindE (assertAccount account) (\<lambda>_.
     bindE (assertE (op_to opt \<noteq> []) NoRecipient) (\<lambda>_.
     bindE (assertE (\<not> length (op_to opt @ opt_list (op_cc opt) @ opt_list (op_bcc opt)) > MAX_SCHEDULE_RECIPIENTS)
       TooManyRecipients) (\<lambda>_.
     bindE (assertAddresses valid (op_to opt)) (\<lambda>_.
     bindE (assertAddresses valid (opt_list (op_cc opt))) (\<lambda>_.
     bindE (assertAddresses valid (opt_list (op_bcc opt))) (\<lambda>_.
     bindE (assertHeaderField (op_subject opt) ''Subject'' MAX_HEADER_LINE_CHARS) (\<lambda>_.
     bindE (validateInputLength (op_body opt) MAX_SCHEDULE_BODY_CHARS ''Body'') (\<lambda>_.
     bindE (case op_inReplyTo opt of None \<Rightarrow> Inr () | Some v \<Rightarrow> assertHeaderField v ''In-Reply-To'' MAX_HEADER_LINE_CHARS) (\<lambda>_.
     bindE (assertHeaderFields (opt_list (op_references opt)) ''References'' MAX_HEADER_LINE_CHARS) (\<lambda>_.
     parseSendAt (op_sendAt opt) now))))))))))"

definition liveStatus :: "schedStatus \<Rightarrow> bool" where
  [model_defs]: "liveStatus st \<longleftrightarrow> st = Pending \<or> st = Sending"

definition live_file :: "string \<times> qfile \<Rightarrow> bool" where
  "live_file p \<longleftrightarrow> scheduleIdFromFilename (fst p) \<noteq> None \<and>
     (case snd p of Garbage \<Rightarrow> False | Json e \<Rightarrow> liveStatus (se_status e))"

definition countLiveSchedules :: "(string, qfile) jsmap \<Rightarrow> nat" where
  "countLiveSchedules dir = length (filter live_file dir)"

text \<open>
  \<open>uuid\<close> is the id \<open>crypto.randomUUID\<close> draws and \<open>draft\<close> the answer of the best-effort
  \<open>saveDraft\<close> (its id and mailbox). The calls are serialised by \<open>enqueueSchedule\<close>.
\<close>

definition schedule ::
  "env \<Rightarrow> (string \<Rightarrow> bool) \<Rightarrow> string \<Rightarrow> (string \<times> string) option \<Rightarrow> string \<Rightarrow> schedule_options \<Rightarrow> int \<Rightarrow> queue \<Rightarrow>
    (sched_error + scheduledEmail) \<times> queue" where
  "schedule E valid uuid draft account opt now q =
     (case scheduleChecks valid account opt now of
        Inl err \<Rightarrow> (Inl err, q)
      | Inr sendAt \<Rightarrow>
          if countLiveSchedules (pendingDir q) \<ge> MAX_PENDING_SCHEDULES then (Inl TooManyScheduled, q)
          else
            (let e = \<lparr>se_id = uuid, se_account = account, se_to = op_to opt, se_cc = op_cc opt, se_bcc = op_bcc opt,
                      se_subject = op_subject opt, se_body = op_body opt,
                      se_html = (case op_html opt of None \<Rightarrow> False | Some b \<Rightarrow> b),
                      se_sendAt = Some (of_int sendAt), se_createdAt = nowMs E, se_status = Pending,
                      se_attempts = 0, se_lastError = None,
                      se_draftMessageId = map_option fst draft, se_draftMailbox = map_option snd draft,
                      se_inReplyTo = op_inReplyTo opt, se_references = op_references opt,
                      se_sentAt = None, se_sentMessageId = None\<rparr>
             in case writeScheduledFile E e q of
                  (Inl err, q') \<Rightarrow> (Inl (IoError err), q')
                | (Inr _, q') \<Rightarrow> (Inr e, q')))"

section \<open>Listing and cancelling\<close>

datatype list_status = ListPending | ListSent | ListFailed | ListAll

fun list_match :: "list_status \<Rightarrow> scheduledEmail \<Rightarrow> bool" where
  "list_match ListPending e = (se_status e = Pending)"
| "list_match ListSent e = (se_status e = Sent)"
| "list_match ListFailed e = (se_status e = Failed)"
| "list_match ListAll e = True"

definition readDir :: "(string, qfile) jsmap \<Rightarrow> scheduledEmail list" where
  "readDir dir =
     List.map_filter (\<lambda>(f, c). case (scheduleIdFromFilename f, c) of
        (Some i, Json e) \<Rightarrow> if se_id e \<noteq> i then None else Some e
      | _ \<Rightarrow> None) dir"

text \<open>
  \<open>resolve\<close> is the account resolution of the connection manager, \<open>None\<close> when it throws. A record
  whose date does not parse has no defined place in the code's sort; here it counts as time 0.
\<close>

definition filterAccountName :: "(string \<Rightarrow> string option) \<Rightarrow> string \<Rightarrow> string" where
  "filterAccountName resolve name = (case resolve name of None \<Rightarrow> name | Some n \<Rightarrow> n)"

definition list_scheduled ::
  "(string \<Rightarrow> string option) \<Rightarrow> string option \<Rightarrow> list_status \<Rightarrow> queue \<Rightarrow> scheduledEmail list" where
  "list_scheduled resolve account st q =
     (let emails = (if st \<noteq> ListSent then readDir (pendingDir q) else []) @
                   (if st = ListSent \<or> st = ListAll then readDir (sentDir q) else []);
          filtered = (case account of
             None \<Rightarrow> emails
           | Some a \<Rightarrow> if a = [] then emails
                       else filter (\<lambda>e. se_account e = filterAccountName resolve a) emails)
      in sort_key (\<lambda>e. case se_sendAt e of None \<Rightarrow> 0 | Some t \<Rightarrow> t) (filter (list_match st) filtered))"

definition assertCancellable :: "scheduledEmail \<Rightarrow> sched_error + unit" where
  "assertCancellable e =
     (if se_status e = Sending then Inl AlreadyBeingSent
      else if se_status e \<noteq> Pending then Inl (NotCancellable (se_status e)) else Inr ())"

definition cancelClaimed :: "env \<Rightarrow> string \<Rightarrow> queue \<Rightarrow> (sched_error + bool) \<times> queue" where
  "cancelClaimed E i q =
     (case readScheduled (fileName i) (pendingDir q) of
        Inl err \<Rightarrow> (Inl (IoError err), q)
      | Inr None \<Rightarrow> (Inl (NotFound i), q)
      | Inr (Some current) \<Rightarrow>
          (case assertCancellable current of
             Inl err \<Rightarrow> (Inl err, q)
           | Inr _ \<Rightarrow>
               (case deleteDraft E current q of
                  (draftDeleted, q') \<Rightarrow>
                    (Inr draftDeleted, q'\<lparr>pendingDir := js_delete (fileName i) (pendingDir q')\<rparr>))))"

definition cancel :: "env \<Rightarrow> string \<Rightarrow> queue \<Rightarrow> (sched_error + bool) \<times> queue" where
  "cancel E i q =
     (if \<not> SCHEDULE_ID_RE i then (Inl InvalidId, q)
      else case js_get (pendingDir q) (fileName i) of
        None \<Rightarrow> (Inl (NotFound i), q)
      | Some Garbage \<Rightarrow> (Inl (IoError ''SyntaxError''), q)
      | Some (Json e) \<Rightarrow>
          (case assertCancellable e of
             Inl err \<Rightarrow> (Inl err, q)
           | Inr _ \<Rightarrow>
               (case claimSchedule E i (nowMs E) q of
                  (None, q1) \<Rightarrow> (Inl AlreadyBeingSent, q1)
                | (Some t, q1) \<Rightarrow>
                    (case cancelClaimed E i q1 of (r, q2) \<Rightarrow> (r, unclaimSchedule i t q2)))))"

section \<open>The loop\<close>

datatype log_line = LogSent nat | LogFailed nat | LogError string | LogDeferred nat | LogCheckFailed string

text \<open>\<open>reportCheck\<close>: what one check logs; \<open>Inl\<close> is a check that threw.\<close>

definition reportCheck :: "string + check_result \<Rightarrow> log_line list" where
  "reportCheck r =
     (case r of
        Inl err \<Rightarrow> [LogCheckFailed err]
      | Inr c \<Rightarrow>
          (if cr_sent c > 0 then [LogSent (cr_sent c)] else []) @
          (if cr_failed c > 0 then [LogFailed (cr_failed c)] else []) @
          map LogError (cr_errors c) @
          (if cr_deferred c > 0 then [LogDeferred (cr_deferred c)] else []))"

text \<open>\<open>startSchedulerLoop\<close>: a timer tick starts a check only when none is running.\<close>

record loop_state =
  inCheck :: bool
  stopped :: bool
  checksStarted :: nat

datatype loop_event = TimerFires | CheckEnds | StopLoop

fun loop_step :: "loop_event \<Rightarrow> loop_state \<Rightarrow> loop_state" where
  "loop_step TimerFires s =
     (if stopped s \<or> inCheck s then s else s\<lparr>inCheck := True, checksStarted := Suc (checksStarted s)\<rparr>)"
| "loop_step CheckEnds s = s\<lparr>inCheck := False\<rparr>"
| "loop_step StopLoop s = s\<lparr>stopped := True\<rparr>"

section \<open>What one delivery changes\<close>

definition pending_file :: "queue \<Rightarrow> string \<Rightarrow> qfile option" where
  "pending_file q i = js_get (pendingDir q) (fileName i)"

definition sends :: "queue \<Rightarrow> string \<Rightarrow> nat" where
  "sends q i = length (filter (\<lambda>p. fst p = i) (smtpLog q))"

definition accepts :: "queue \<Rightarrow> string \<Rightarrow> nat" where
  "accepts q i = length (filter (\<lambda>p. p = (i, True)) (smtpLog q))"

text \<open>After an acceptance at least one of the two ways to take the mail out of the due set works.\<close>

definition reliable :: "env \<Rightarrow> bool" where
  "reliable E \<longleftrightarrow> (\<forall>e. se_status e = Sent \<longrightarrow> writeFails E e = None) \<or> (\<forall>i. moveFails E i = None)"

text \<open>
  The summary of a step on id \<open>i\<close>: other files stay; without an SMTP call the record keeps its id,
  never loses attempts and a sent record is untouched; with one, the attempt was on the record first.
\<close>

definition quiet_effect :: "string \<Rightarrow> queue \<Rightarrow> queue \<Rightarrow> bool" where
  "quiet_effect i q q' \<longleftrightarrow> smtpLog q' = smtpLog q \<and>
     (case pending_file q' i of
        None \<Rightarrow> True
      | Some Garbage \<Rightarrow> pending_file q i = Some Garbage
      | Some (Json e') \<Rightarrow> (\<exists>e. pending_file q i = Some (Json e) \<and> se_id e' = se_id e \<and>
          se_attempts e \<le> se_attempts e' \<and> (se_id e = i \<and> se_status e = Sent \<longrightarrow> e' = e)))"

definition send_effect :: "bool \<Rightarrow> string \<Rightarrow> queue \<Rightarrow> queue \<Rightarrow> bool" where
  "send_effect rel i q q' \<longleftrightarrow>
     (\<exists>b e. smtpLog q' = smtpLog q @ [(i, b)] \<and> pending_file q i = Some (Json e) \<and> se_id e = i \<and>
        se_status e \<noteq> Sent \<and> se_attempts e < MAX_ATTEMPTS \<and>
        (case pending_file q' i of
           None \<Rightarrow> True
         | Some Garbage \<Rightarrow> False
         | Some (Json e') \<Rightarrow> se_id e' = i \<and> se_attempts e' = Suc (se_attempts e) \<and> (b \<and> rel \<longrightarrow> se_status e' = Sent)))"

definition others_kept :: "string \<Rightarrow> queue \<Rightarrow> queue \<Rightarrow> bool" where
  "others_kept i q q' \<longleftrightarrow> (\<forall>f. f \<noteq> fileName i \<longrightarrow> js_get (pendingDir q') f = js_get (pendingDir q) f)"

definition delivery_effect :: "bool \<Rightarrow> string \<Rightarrow> queue \<Rightarrow> queue \<Rightarrow> bool" where
  "delivery_effect rel i q q' \<longleftrightarrow> others_kept i q q' \<and> (quiet_effect i q q' \<or> send_effect rel i q q')"

lemma effect_refl [simp]: "delivery_effect rel i q q"
  by (auto simp: delivery_effect_def others_kept_def quiet_effect_def split: option.split qfile.split)

lemma effect_same_dir:
  assumes "pendingDir q1 = pendingDir q" "smtpLog q1 = smtpLog q"
  shows "delivery_effect rel i q1 q' = delivery_effect rel i q q'"
    and "delivery_effect rel i q' q1 = delivery_effect rel i q' q"
proof -
  have "pending_file q1 = pending_file q" by (simp add: pending_file_def fun_eq_iff assms)
  note unfolds = delivery_effect_def others_kept_def quiet_effect_def send_effect_def assms this
  show "delivery_effect rel i q1 q' = delivery_effect rel i q q'" unfolding unfolds ..
  show "delivery_effect rel i q' q1 = delivery_effect rel i q' q" unfolding unfolds ..
qed

lemma claim_same_dir [simp]:
  "pendingDir (snd (claimSchedule E i now q)) = pendingDir q"
  "smtpLog (snd (claimSchedule E i now q)) = smtpLog q"
  "pendingDir (unclaimSchedule i t q) = pendingDir q"
  "smtpLog (unclaimSchedule i t q) = smtpLog q"
  by (simp_all add: claimSchedule_def unclaimSchedule_def split_beta)

lemma deleteDraft_same_dir [simp]:
  "pendingDir (snd (deleteDraft E e q)) = pendingDir q"
  "smtpLog (snd (deleteDraft E e q)) = smtpLog q"
  by (simp_all add: deleteDraft_def split: option.split)

lemma write_cases:
  obtains (fails) err where "writeScheduledFile E e q = (Inl err, q)" "SCHEDULE_ID_RE (se_id e) \<Longrightarrow> writeFails E e \<noteq> None"
  | (works) "writeScheduledFile E e q = (Inr (), q\<lparr>pendingDir := js_set (fileName (se_id e)) (Json e) (pendingDir q)\<rparr>)"
      "writeFails E e = None"
  by (cases "SCHEDULE_ID_RE (se_id e)"; cases "writeFails E e") (auto simp: writeScheduledFile_def)

lemma move_cases:
  obtains (fails) err where "moveToSent E i q = (Inl err, q)"
      "SCHEDULE_ID_RE i \<Longrightarrow> pending_file q i \<noteq> None \<Longrightarrow> moveFails E i \<noteq> None"
  | (works) f where "moveToSent E i q = (Inr (), q\<lparr>pendingDir := js_delete (fileName i) (pendingDir q),
        sentDir := js_set (fileName i) f (sentDir q)\<rparr>)"
  by (cases "SCHEDULE_ID_RE i"; cases "moveFails E i"; cases "js_get (pendingDir q) (fileName i)")
    (auto simp: moveToSent_def pending_file_def)

text \<open>Recording a delivery: the file is gone, or says sent, or (both writes failed) is as it was.\<close>

lemma recordSent_effect:
  assumes "SCHEDULE_ID_RE (se_id sent)" "pending_file q (se_id sent) \<noteq> None" "se_status sent = Sent"
  shows "smtpLog (snd (recordSent E sent q)) = smtpLog q \<and> others_kept (se_id sent) q (snd (recordSent E sent q)) \<and>
    pending_file (snd (recordSent E sent q)) (se_id sent) \<in>
      {None, Some (Json sent)} \<union> (if reliable E then {} else {pending_file q (se_id sent)})"
proof -
  let ?i = "se_id sent"
  obtain w q1 where w: "writeScheduledFile E sent q = (w, q1)" by fastforce
  obtain m q2 where m: "moveToSent E ?i q1 = (m, q2)" by fastforce
  have res: "snd (recordSent E sent q) = q2" by (simp add: recordSent_def w m)
  have q1: "smtpLog q1 = smtpLog q \<and> others_kept ?i q q1 \<and> pending_file q1 ?i \<noteq> None \<and>
      (pending_file q1 ?i = Some (Json sent) \<or> pending_file q1 ?i = pending_file q ?i \<and> writeFails E sent \<noteq> None)"
    using w assms by (cases rule: write_cases [of E sent q]) (auto simp: others_kept_def pending_file_def)
  have "smtpLog q2 = smtpLog q1 \<and> others_kept ?i q1 q2 \<and>
      (pending_file q2 ?i = None \<or> pending_file q2 ?i = pending_file q1 ?i \<and> moveFails E ?i \<noteq> None)"
    using m q1 assms(1) by (cases rule: move_cases [of E ?i q1]) (auto simp: others_kept_def pending_file_def)
  with q1 assms(3) show ?thesis
    unfolding res by (auto simp: reliable_def others_kept_def)
qed

lemma writeSendFailure_effect:
  "smtpLog (writeSendFailure E i err q) = smtpLog q \<and> others_kept i q (writeSendFailure E i err q) \<and>
   (case pending_file q i of
      Some (Json e) \<Rightarrow> (\<exists>e'. pending_file (writeSendFailure E i err q) i = Some (Json e') \<and>
        se_id e' = se_id e \<and> se_attempts e' = se_attempts e)
    | _ \<Rightarrow> writeSendFailure E i err q = q)"
  by (auto simp: writeSendFailure_def readFile_def pending_file_def others_kept_def Let_def
      split: option.split qfile.split)

text \<open>A pair of a result and a state in which a failed call has handed over no accepted mail.\<close>

definition call_effect :: "bool \<Rightarrow> string \<Rightarrow> queue \<Rightarrow> (string + delivery) \<times> queue \<Rightarrow> bool" where
  "call_effect rel i q res \<longleftrightarrow> delivery_effect rel i q (snd res) \<and>
     (isl (fst res) \<longrightarrow> smtpLog (snd res) \<noteq> smtpLog q @ [(i, True)])"

lemma recordDelivery_effect:
  fixes E :: env and e :: scheduledEmail
  defines "sending \<equiv> e\<lparr>se_status := Sending, se_attempts := Suc (se_attempts e)\<rparr>"
  assumes "SCHEDULE_ID_RE (se_id e)" "pending_file q (se_id e) = Some (Json e)" "se_status e \<noteq> Sent"
    "se_attempts e < MAX_ATTEMPTS"
    and q1: "q1 = q\<lparr>pendingDir := js_set (fileName (se_id e)) (Json sending) (pendingDir q), smtpLog := smtpLog q @ [(se_id e, True)]\<rparr>"
  shows "delivery_effect (reliable E) (se_id e) q (snd (recordDelivery E sending mid q1))"
proof -
  let ?i = "se_id e"
  let ?sent = "sending\<lparr>se_status := Sent, se_sentAt := Some (nowMs E), se_sentMessageId := Some mid\<rparr>"
  let ?q2 = "snd (recordSent E ?sent q1)"
  have f1: "pending_file q1 ?i = Some (Json sending)" by (simp add: q1 pending_file_def)
  have p: "se_id ?sent = ?i" "se_status ?sent = Sent" by (simp_all add: sending_def)
  have same: "pendingDir (snd (recordDelivery E sending mid q1)) = pendingDir ?q2"
    "smtpLog (snd (recordDelivery E sending mid q1)) = smtpLog ?q2"
    by (simp_all add: recordDelivery_def split_beta split: option.split)
  have eff: "smtpLog ?q2 = smtpLog q1 \<and> others_kept ?i q1 ?q2 \<and>
      pending_file ?q2 ?i \<in> {None, Some (Json ?sent)} \<union> (if reliable E then {} else {Some (Json sending)})"
    using recordSent_effect [of ?sent q1 E] assms(2) unfolding p f1 by simp
  have "others_kept ?i q ?q2" using eff by (auto simp: others_kept_def q1)
  moreover have "send_effect (reliable E) ?i q ?q2"
    unfolding send_effect_def using eff assms
    by (intro exI [of _ True] exI [of _ e]) (auto simp: q1 sending_def split: if_splits)
  ultimately have "delivery_effect (reliable E) ?i q ?q2" by (simp add: delivery_effect_def)
  then show ?thesis using effect_same_dir(2) [OF same] by blast
qed

lemma sendClaimedEmail_effect:
  assumes i: "SCHEDULE_ID_RE (se_id e)" "pending_file q (se_id e) = Some (Json e)" "se_status e \<noteq> Sent"
    "se_attempts e < MAX_ATTEMPTS"
  shows "call_effect (reliable E) (se_id e) q (sendClaimedEmail E e (se_id e) q)"
proof -
  let ?i = "se_id e"
  let ?sending = "e\<lparr>se_status := Sending, se_attempts := Suc (se_attempts e)\<rparr>"
  let ?q1 = "q\<lparr>pendingDir := js_set (fileName ?i) (Json ?sending) (pendingDir q)\<rparr>"
  show ?thesis
  proof (cases rule: write_cases [of E ?sending q])
    case (fails err)
    then show ?thesis by (simp add: sendClaimedEmail_def call_effect_def)
  next
    case works
    then have w: "writeScheduledFile E ?sending q = (Inr (), ?q1)" by simp
    show ?thesis
    proof (cases "smtp E ?sending")
      case (Accepted mid)
      then show ?thesis
        using recordDelivery_effect [OF i refl, of E mid] w
        by (simp add: sendClaimedEmail_def call_effect_def split_beta Let_def)
    next
      case (RateLimited msg)
      have quiet: "delivery_effect (reliable E) ?i q ?q1" "smtpLog ?q1 = smtpLog q"
        using i(2,3) by (auto simp: delivery_effect_def others_kept_def quiet_effect_def pending_file_def)
      let ?requeued = "e\<lparr>se_lastError := Some msg\<rparr>"
      have r: "sendClaimedEmail E e ?i q = (case writeScheduledFile E ?requeued ?q1 of
          (Inl err, q2) \<Rightarrow> (Inl err, q2) | (Inr _, q2) \<Rightarrow> (Inr (delivery_of OutDeferred), q2))"
        by (simp add: sendClaimedEmail_def w RateLimited Let_def)
      show ?thesis
      proof (cases rule: write_cases [of E ?requeued ?q1])
        case (fails err)
        then show ?thesis using quiet by (simp add: r call_effect_def)
      next
        case works
        then show ?thesis using i(2,3)
          by (auto simp: r call_effect_def delivery_effect_def others_kept_def quiet_effect_def pending_file_def)
      qed
    next
      case (Refused msg)
      then show ?thesis
        using w i
        by (auto simp: sendClaimedEmail_def call_effect_def delivery_effect_def others_kept_def send_effect_def pending_file_def)
    qed
  qed
qed

lemma sendIfStillDue_effect:
  assumes "SCHEDULE_ID_RE i"
  shows "call_effect (reliable E) i q (sendIfStillDue E i now q)"
proof (cases "readScheduled (fileName i) (pendingDir q)")
  case (Inl err)
  then show ?thesis by (simp add: sendIfStillDue_def call_effect_def)
next
  case (Inr found)
  show ?thesis
  proof (cases found)
    case None
    with Inr show ?thesis by (simp add: sendIfStillDue_def call_effect_def)
  next
    case (Some e)
    have rec: "pending_file q i = Some (Json e)"
      using Inr Some by (auto simp: readScheduled_def pending_file_def split: option.splits qfile.splits)
    let ?failed = "e\<lparr>se_status := Failed, se_lastError := Some ''Max retry attempts exceeded''\<rparr>"
    show ?thesis
    proof (cases "isDue e i now")
      case False
      with Inr Some show ?thesis by (simp add: sendIfStillDue_def call_effect_def)
    next
      case due: True
      then have e: "se_id e = i" "se_status e \<noteq> Sent" by (auto simp: isDue_def)
      show ?thesis
      proof (cases "se_attempts e \<ge> MAX_ATTEMPTS")
        case False
        then show ?thesis
          using sendClaimedEmail_effect [of e q E] e rec assms Inr Some due
          by (simp add: sendIfStillDue_def)
      next
        case True
        then show ?thesis
          using Inr Some due e rec
          by (cases rule: write_cases [of E ?failed q])
            (auto simp: sendIfStillDue_def call_effect_def delivery_effect_def others_kept_def quiet_effect_def
              pending_file_def)
      qed
    qed
  qed
qed

lemma failDelivery_effect:
  assumes "delivery_effect rel i q q1" "smtpLog q1 \<noteq> smtpLog q @ [(i, True)]"
    and fresh: "\<And>e. pending_file q i = Some (Json e) \<Longrightarrow> \<not> isDelivered e i"
  shows "delivery_effect rel i q (snd (failDelivery E i err q1))"
proof -
  let ?q2 = "writeSendFailure E i err q1"
  note w = writeSendFailure_effect [of E i err q1]
  show ?thesis
  proof (cases "\<exists>e1. pending_file q1 i = Some (Json e1)")
    case False
    then have "?q2 = q1" using w by (auto split: option.splits qfile.splits)
    with assms(1) show ?thesis by (simp add: failDelivery_def)
  next
    case True
    then obtain e1 e2 where e: "pending_file q1 i = Some (Json e1)" "pending_file ?q2 i = Some (Json e2)"
      "se_id e2 = se_id e1" "se_attempts e2 = se_attempts e1" using w by auto
    have o: "others_kept i q ?q2" using assms(1) w by (auto simp: delivery_effect_def others_kept_def)
    have l: "smtpLog ?q2 = smtpLog q1" using w by blast
    have "quiet_effect i q ?q2 \<or> send_effect rel i q ?q2"
      using assms(1,2) fresh e l
      by (auto simp: delivery_effect_def quiet_effect_def send_effect_def isDelivered_def)
    with o show ?thesis by (simp add: failDelivery_def delivery_effect_def)
  qed
qed

lemma settleDelivered_effect: "delivery_effect rel i q (snd (settleDelivered E i q))"
proof (cases rule: move_cases [of E i q])
  case (fails err)
  then show ?thesis by (simp add: settleDelivered_def)
next
  case (works f)
  then show ?thesis
    by (auto simp: settleDelivered_def delivery_effect_def others_kept_def quiet_effect_def pending_file_def)
qed

lemma claimed_file:
  "claimSchedule E i now q = (t, q1) \<Longrightarrow> pendingDir q1 = pendingDir q \<and> smtpLog q1 = smtpLog q"
  using claim_same_dir(1,2) [of E i now q] by simp

text \<open>The work done under the claim.\<close>

definition claimed_work :: "env \<Rightarrow> scheduledEmail \<Rightarrow> string \<Rightarrow> number \<Rightarrow> queue \<Rightarrow> delivery \<times> queue" where
  "claimed_work E e i now q =
     (if isDelivered e i then settleDelivered E i q
      else (case sendIfStillDue E i now q of
              (Inl err, q2) \<Rightarrow> failDelivery E i err q2
            | (Inr d, q2) \<Rightarrow> (d, q2)))"

lemma claimed_work_effect:
  assumes "SCHEDULE_ID_RE i" "pending_file q i = Some (Json e)"
  shows "delivery_effect (reliable E) i q (snd (claimed_work E e i now q))"
proof (cases "isDelivered e i")
  case True
  then show ?thesis by (simp add: claimed_work_def settleDelivered_effect)
next
  case False
  obtain r q2 where s: "sendIfStillDue E i now q = (r, q2)" by fastforce
  note c = sendIfStillDue_effect [OF assms(1), of E q now, unfolded s call_effect_def fst_conv snd_conv]
  show ?thesis
  proof (cases r)
    case (Inl err)
    then show ?thesis
      using failDelivery_effect [of "reliable E" i q q2 E err] c False assms(2) s
      by (simp add: claimed_work_def)
  next
    case (Inr d)
    with c s False show ?thesis by (simp add: claimed_work_def)
  qed
qed

lemma processQueueFile_effect:
  assumes f: "scheduleIdFromFilename f = Some i"
  shows "delivery_effect (reliable E) i q (snd (processQueueFile E f now q))"
proof (cases "readFile (fileName i) (pendingDir q)")
  case (Inl err)
  then have "\<And>e. pending_file q i \<noteq> Some (Json e)"
    by (auto simp: readFile_def pending_file_def split: option.splits qfile.splits)
  then show ?thesis
    using failDelivery_effect [of "reliable E" i q q E err] f Inl by (simp add: processQueueFile_def)
next
  case (Inr e)
  have file_e: "pending_file q i = Some (Json e)"
    using Inr by (auto simp: readFile_def pending_file_def split: option.splits qfile.splits)
  have i: "SCHEDULE_ID_RE i" using f by (simp add: scheduleIdFromFilename_Some)
  show ?thesis
  proof (cases "\<not> isDelivered e i \<and> \<not> isDue e i now")
    case True
    with f Inr show ?thesis by (simp add: processQueueFile_def)
  next
    case False
    obtain t q1 where c: "claimSchedule E i now q = (t, q1)" by fastforce
    note same = claimed_file [OF c]
    show ?thesis
    proof (cases t)
      case None
      then show ?thesis
        using f Inr False c effect_same_dir(2) [of q1 q "reliable E" i q] same
        by (simp add: processQueueFile_def)
    next
      case (Some tk)
      have p1: "pending_file q1 i = Some (Json e)" using file_e same by (simp add: pending_file_def)
      let ?q2 = "snd (claimed_work E e i now q1)"
      have "delivery_effect (reliable E) i q ?q2"
        using claimed_work_effect [OF i p1, of E now] effect_same_dir(1) [of q1 q] same by blast
      moreover have "snd (processQueueFile E f now q) = unclaimSchedule i tk ?q2"
        using f Inr False c Some by (auto simp: processQueueFile_def claimed_work_def split_beta Let_def)
      ultimately show ?thesis
        using effect_same_dir(2) [of "unclaimSchedule i tk ?q2" ?q2 "reliable E" i q] by simp
    qed
  qed
qed

section \<open>A life of the queue\<close>

datatype queue_event = Check env | CancelOne env string

fun queue_step :: "queue_event \<Rightarrow> queue \<Rightarrow> queue" where
  "queue_step (Check E) q = snd (checkAndSend E q)"
| "queue_step (CancelOne E i) q = snd (cancel E i q)"

fun event_env :: "queue_event \<Rightarrow> env" where
  "event_env (Check E) = E" | "event_env (CancelOne E i) = E"

definition run_queue :: "queue_event list \<Rightarrow> queue \<Rightarrow> queue" where
  "run_queue evs q = fold queue_step evs q"

lemma process_files_keeps:
  assumes step: "\<And>f i q. scheduleIdFromFilename f = Some i \<Longrightarrow> P q \<Longrightarrow> P (snd (processQueueFile E f now q))"
  shows "P q \<Longrightarrow> list_all (\<lambda>f. scheduleIdFromFilename f \<noteq> None) fs \<Longrightarrow> P (snd (process_files E now fs r q))"
proof (induction fs arbitrary: q r)
  case (Cons f fs)
  then obtain i where "scheduleIdFromFilename f = Some i" by auto
  from step [OF this Cons.prems(1)] Cons.IH Cons.prems(2) show ?case by (simp add: split_beta)
qed simp

lemma cancel_effect:
  "others_kept i q (snd (cancel E i q)) \<and> smtpLog (snd (cancel E i q)) = smtpLog q \<and>
   (pending_file (snd (cancel E i q)) i = None \<or> pending_file (snd (cancel E i q)) i = pending_file q i)"
proof -
  have work: "others_kept i q (snd (cancelClaimed E i q)) \<and> smtpLog (snd (cancelClaimed E i q)) = smtpLog q \<and>
      (pending_file (snd (cancelClaimed E i q)) i = None \<or> pending_file (snd (cancelClaimed E i q)) i = pending_file q i)" for q
    by (auto simp: cancelClaimed_def others_kept_def pending_file_def split_beta split: sum.split option.split)
  obtain t q1 where c: "claimSchedule E i (nowMs E) q = (t, q1)" by fastforce
  note same = claimed_file [OF c]
  show ?thesis
    using work [of q1] same
    by (auto simp: cancel_def c split_beta others_kept_def pending_file_def split: option.split qfile.split sum.split)
qed

lemma quiet_effect_same:
  "smtpLog q' = smtpLog q \<Longrightarrow> pending_file q' i = pending_file q i \<or> pending_file q' i = None \<Longrightarrow> quiet_effect i q q'"
  by (elim disjE; simp add: quiet_effect_def split: option.split qfile.split)

lemma quiet_effectD:
  assumes "quiet_effect i q q'"
  shows "pending_file q' i = Some (Json e') \<Longrightarrow> \<exists>e. pending_file q i = Some (Json e) \<and> se_id e' = se_id e \<and>
      se_attempts e \<le> se_attempts e' \<and> (isDelivered e i \<longrightarrow> e' = e)"
    and "pending_file q i = None \<Longrightarrow> pending_file q' i = None"
    and "pending_file q i = Some (Json e) \<Longrightarrow> isDelivered e i \<Longrightarrow> pending_file q' i \<in> {None, Some (Json e)}"
  using assms by (auto simp: quiet_effect_def isDelivered_def split: option.splits qfile.splits)

lemma cancel_delivery_effect: "delivery_effect rel i q (snd (cancel E i q))"
  using cancel_effect [of i q E] quiet_effect_same [of "snd (cancel E i q)" q i]
  unfolding delivery_effect_def by blast

lemma run_queue_keeps:
  assumes step: "\<And>i q q' E. E \<in> event_env ` set evs \<Longrightarrow> delivery_effect (reliable E) i q q' \<Longrightarrow> P q \<Longrightarrow> P q'"
    and "P q"
  shows "P (run_queue evs q)"
  using assms
proof (induction evs arbitrary: q)
  case (Cons ev evs)
  have "P (queue_step ev q)"
  proof (cases ev)
    case (Check E)
    have one: "P (snd (processQueueFile E f now q))" if "scheduleIdFromFilename f = Some i" "P q" for f i now q
      by (rule Cons.prems(1) [OF _ processQueueFile_effect [OF that(1)] that(2)]) (simp add: Check)
    have "P (snd (process_files E now fs r q))" if "list_all (\<lambda>f. scheduleIdFromFilename f \<noteq> None) fs" for now fs r
      by (rule process_files_keeps [where P = P, OF _ Cons.prems(2) that]) (rule one)
    then show ?thesis by (simp add: Check checkAndSend_def list_all_iff)
  next
    case (CancelOne E i)
    then show ?thesis using Cons.prems(1) [of E i q] Cons.prems(2) cancel_delivery_effect by simp
  qed
  then have "P (run_queue evs (queue_step ev q))"
    by (rule Cons.IH [rotated]) (rule Cons.prems(1), simp_all)
  then show ?case by (simp add: run_queue_def)
qed (simp add: run_queue_def)

lemma fileName_inj [simp]: "fileName i = fileName j \<longleftrightarrow> i = j"
  by (simp add: fileName_def)

definition attempts_inv :: "string \<Rightarrow> nat \<Rightarrow> queue \<Rightarrow> bool" where
  "attempts_inv i b q \<longleftrightarrow> sends q i \<le> b + MAX_ATTEMPTS \<and>
     (\<forall>e. pending_file q i = Some (Json e) \<and> se_id e = i \<longrightarrow> sends q i \<le> b + se_attempts e)"

definition accepted_inv :: "string \<Rightarrow> nat \<Rightarrow> queue \<Rightarrow> bool" where
  "accepted_inv i b q \<longleftrightarrow> accepts q i \<le> b \<or> (accepts q i = Suc b \<and>
     (pending_file q i = None \<or> (\<exists>e. pending_file q i = Some (Json e) \<and> isDelivered e i)))"

lemma other_file: "others_kept j q q' \<Longrightarrow> i \<noteq> j \<Longrightarrow> pending_file q' i = pending_file q i"
  by (simp add: others_kept_def pending_file_def)

lemma send_effectE:
  assumes "send_effect rel i q q'"
  obtains b e where "smtpLog q' = smtpLog q @ [(i, b)]" "pending_file q i = Some (Json e)" "se_id e = i"
    "se_status e \<noteq> Sent" "se_attempts e < MAX_ATTEMPTS"
    "pending_file q' i = None \<or> (\<exists>e'. pending_file q' i = Some (Json e') \<and> se_id e' = i \<and>
        se_attempts e' = Suc (se_attempts e) \<and> (b \<and> rel \<longrightarrow> se_status e' = Sent))"
proof -
  from assms obtain b e where e: "smtpLog q' = smtpLog q @ [(i, b)]" "pending_file q i = Some (Json e)" "se_id e = i"
    "se_status e \<noteq> Sent" "se_attempts e < MAX_ATTEMPTS"
    "case pending_file q' i of None \<Rightarrow> True | Some Garbage \<Rightarrow> False | Some (Json e') \<Rightarrow>
        se_id e' = i \<and> se_attempts e' = Suc (se_attempts e) \<and> (b \<and> rel \<longrightarrow> se_status e' = Sent)"
    unfolding send_effect_def by blast
  from e(6) have "pending_file q' i = None \<or> (\<exists>e'. pending_file q' i = Some (Json e') \<and> se_id e' = i \<and>
        se_attempts e' = Suc (se_attempts e) \<and> (b \<and> rel \<longrightarrow> se_status e' = Sent))"
    by (simp split: option.splits qfile.splits)
  with that e(1-5) show thesis by blast
qed

lemma attempts_inv_step:
  assumes eff: "delivery_effect rel j q q'" and inv: "attempts_inv i b q"
  shows "attempts_inv i b q'"
proof (cases "i = j")
  case False
  then have "pending_file q' i = pending_file q i" "sends q' i = sends q i"
    using eff other_file by (auto simp: delivery_effect_def quiet_effect_def send_effect_def sends_def)
  with inv show ?thesis by (simp add: attempts_inv_def)
next
  case True
  from eff consider "quiet_effect i q q'" | "send_effect rel i q q'" by (auto simp: delivery_effect_def True)
  then show ?thesis
  proof cases
    case 1
    then have same: "sends q' i = sends q i" by (simp add: quiet_effect_def sends_def)
    have "sends q i \<le> b + se_attempts e'" if e': "pending_file q' i = Some (Json e')" "se_id e' = i" for e'
    proof -
      obtain e where e: "pending_file q i = Some (Json e)" "se_id e' = se_id e" "se_attempts e \<le> se_attempts e'"
        using quiet_effectD(1) [OF 1 e'(1)] by (elim exE conjE)
      have "sends q i \<le> b + se_attempts e" using inv e(1,2) e'(2) by (simp add: attempts_inv_def)
      with e(3) show ?thesis by linarith
    qed
    with same inv show ?thesis by (simp add: attempts_inv_def)
  next
    case 2
    show ?thesis
    proof (cases rule: send_effectE [OF 2])
      case (1 bb e)
      have n: "sends q' i = Suc (sends q i)" using 1(1) by (simp add: sends_def)
      have "sends q i \<le> b + se_attempts e" using 1(2,3) inv by (simp add: attempts_inv_def)
      then have "sends q' i \<le> b + MAX_ATTEMPTS" "sends q' i \<le> b + Suc (se_attempts e)" using n 1(5) by linarith+
      with 1(6) show ?thesis unfolding attempts_inv_def by fastforce
    qed
  qed
qed

lemma accepted_inv_step:
  assumes eff: "delivery_effect True j q q'" and inv: "accepted_inv i b q"
  shows "accepted_inv i b q'"
proof (cases "i = j")
  case False
  then have "pending_file q' i = pending_file q i" "accepts q' i = accepts q i"
    using eff other_file by (auto simp: delivery_effect_def quiet_effect_def send_effect_def accepts_def)
  with inv show ?thesis by (simp add: accepted_inv_def)
next
  case True
  from eff consider "quiet_effect i q q'" | "send_effect True i q q'" by (auto simp: delivery_effect_def True)
  then show ?thesis
  proof cases
    case 1
    then have "accepts q' i = accepts q i" by (simp add: quiet_effect_def accepts_def)
    moreover have "pending_file q' i = None \<or> (\<exists>e. pending_file q' i = Some (Json e) \<and> isDelivered e i)"
      if "pending_file q i = None \<or> (\<exists>e. pending_file q i = Some (Json e) \<and> isDelivered e i)"
      using that quiet_effectD(2,3) [OF 1] by blast
    ultimately show ?thesis using inv unfolding accepted_inv_def by metis
  next
    case 2
    show ?thesis
    proof (cases rule: send_effectE [OF 2])
      case (1 bb e)
      then have "accepts q i \<le> b" using inv by (simp add: accepted_inv_def isDelivered_def)
      moreover have "accepts q' i = accepts q i + (if bb then 1 else 0)" using 1(1) by (simp add: accepts_def)
      ultimately show ?thesis using 1(6) by (auto simp: accepted_inv_def isDelivered_def)
    qed
  qed
qed

section \<open>Properties\<close>

text \<open>
  C2: whatever fails (writes, renames, the SMTP server, the draft folder) and however checks and
  cancels follow each other, one scheduled email is handed to SMTP at most \<open>MAX_ATTEMPTS\<close> times:
  the attempt is on the record before the hand-off.
\<close>

theorem at_most_three_handoffs: "sends (run_queue evs q) i \<le> sends q i + MAX_ATTEMPTS"
proof -
  have "attempts_inv i (sends q i) (run_queue evs q)"
    by (rule run_queue_keeps [where P = "attempts_inv i (sends q i)"]) (erule attempts_inv_step, assumption, simp add: attempts_inv_def)
  then show ?thesis by (simp add: attempts_inv_def)
qed


text \<open>Test data: a due mail, an SMTP server that accepts, and a full disk.\<close>

definition test_id :: string where [model_defs]: "test_id = ''0f8fad5b-d9cb-469f-a165-70867728950e''"

definition test_mail :: scheduledEmail where [model_defs]:
  "test_mail = \<lparr>se_id = test_id, se_account = ''work'', se_to = [''a@b.c''], se_cc = None, se_bcc = None,
     se_subject = ''s'', se_body = ''b'', se_html = False, se_sendAt = Some 5, se_createdAt = 1, se_status = Pending,
     se_attempts = 0, se_lastError = None, se_draftMessageId = None, se_draftMailbox = None,
     se_inReplyTo = None, se_references = None, se_sentAt = None, se_sentMessageId = None\<rparr>"

definition full_disk :: env where [model_defs]:
  "full_disk = \<lparr>smtp = (\<lambda>_. Accepted ''m''), writeFails = (\<lambda>e. if se_status e = Sent then Some ''ENOSPC'' else None),
     moveFails = (\<lambda>_. None), draftDeletable = (\<lambda>_ _ _. True), nowMs = 10, claimTok = 1\<rparr>"

definition test_queue :: queue where [model_defs]:
  "test_queue = \<lparr>pendingDir = [(fileName test_id, Json test_mail)], sentDir = [], locks = (\<lambda>_. None), smtpLog = [],
     deletedDrafts = []\<rparr>"

lemma test_id_RE: "SCHEDULE_ID_RE test_id"
  unfolding test_id_def by code_simp

lemma test_queue_run:
  "smtpLog (run_queue [Check full_disk, Check full_disk] test_queue) = [(test_id, True)]"
  by code_simp


lemma assertAddresses_Inr: "assertAddresses valid vs = Inr () \<longleftrightarrow> list_all valid vs"
  by (induction vs) auto

lemma scheduleChecks_Inr:
  assumes "scheduleChecks valid account opt now = Inr t"
  shows "op_to opt \<noteq> [] \<and> length (op_to opt @ opt_list (op_cc opt) @ opt_list (op_bcc opt)) \<le> MAX_SCHEDULE_RECIPIENTS \<and>
    list_all valid (op_to opt @ opt_list (op_cc opt) @ opt_list (op_bcc opt)) \<and>
    list_all (\<lambda>c. c \<noteq> CHR 0x0D \<and> c \<noteq> CHR 0x0A) (op_subject opt) \<and> now < t"
proof -
  have "parseSendAt s now = Inr t \<Longrightarrow> now < t" for s
    by (auto simp: parseSendAt_def split: option.splits if_splits)
  then show ?thesis using assms
    by (auto simp: scheduleChecks_def assertHeaderField_def assertAddresses_Inr list_all_iff bindE_Inr_iff)
qed

lemma live_count_set: "length (filter P (js_set k v m)) \<le> Suc (length (filter P m))"
  by (induction m) auto

text \<open>
  \<open>schedule\<close> either rejects and leaves the disk as it is, or stores one new pending record, with
  no attempt used, that is not due yet: at least one and at most 50 recipients, each a valid
  address, no line break in the subject, and the 100 live schedules are never exceeded.
\<close>

theorem schedule_stores_valid_pending:
  "case schedule E valid uuid draft account opt now q of
     (Inl err, q') \<Rightarrow> q' = q
   | (Inr e, q') \<Rightarrow>
       pending_file q' uuid = Some (Json e) \<and> others_kept uuid q q' \<and> smtpLog q' = smtpLog q \<and>
       se_id e = uuid \<and> se_status e = Pending \<and> se_attempts e = 0 \<and> \<not> isDue e uuid (of_int now) \<and>
       op_to opt \<noteq> [] \<and> length (op_to opt @ opt_list (op_cc opt) @ opt_list (op_bcc opt)) \<le> 50 \<and>
       list_all valid (op_to opt @ opt_list (op_cc opt) @ opt_list (op_bcc opt)) \<and>
       list_all (\<lambda>c. c \<noteq> CHR 0x0D \<and> c \<noteq> CHR 0x0A) (op_subject opt) \<and>
       countLiveSchedules (pendingDir q) < 100 \<and> countLiveSchedules (pendingDir q') \<le> 100"
proof -
  obtain r q' where s: "schedule E valid uuid draft account opt now q = (r, q')" by fastforce
  show ?thesis
  proof (cases r)
    case (Inl err)
    with s show ?thesis
      by (auto simp: schedule_def writeScheduledFile_def Let_def split: sum.splits if_splits option.splits)
  next
    case (Inr e)
    from s Inr obtain t where t: "scheduleChecks valid account opt now = Inr t"
      by (auto simp: schedule_def split: sum.splits)
    have e: "se_id e = uuid" "se_status e = Pending" "se_attempts e = 0" "se_sendAt e = Some (of_int t)"
      "countLiveSchedules (pendingDir q) < 100" "q' = q\<lparr>pendingDir := js_set (fileName uuid) (Json e) (pendingDir q)\<rparr>"
      using s Inr t
      by (auto simp: schedule_def writeScheduledFile_def Let_def MAX_PENDING_SCHEDULES_def split: sum.splits if_splits option.splits)
    have "countLiveSchedules (pendingDir q') \<le> 100"
      using e(5,6) live_count_set [of live_file "fileName uuid" "Json e" "pendingDir q"] by (simp add: countLiveSchedules_def)
    moreover have "\<not> isDue e uuid (of_int now)"
      using e(4) scheduleChecks_Inr [OF t] by (simp add: isDue_def isSendTimeReached_def)
    ultimately show ?thesis
      using scheduleChecks_Inr [OF t] e s Inr
      by (simp add: pending_file_def others_kept_def MAX_SCHEDULE_RECIPIENTS_def)
  qed
qed

lemma claim_frame:
  "pendingDir (snd (claimSchedule E i now q)) = pendingDir q \<and> smtpLog (snd (claimSchedule E i now q)) = smtpLog q \<and>
   sentDir (snd (claimSchedule E i now q)) = sentDir q \<and> deletedDrafts (snd (claimSchedule E i now q)) = deletedDrafts q"
  by (simp add: claimSchedule_def split_beta)

lemma cancelClaimed_cases:
  "case cancelClaimed E i q of
     (Inr d, q') \<Rightarrow> (\<exists>e. pending_file q i = Some (Json e) \<and> se_status e = Pending) \<and>
       pendingDir q' = js_delete (fileName i) (pendingDir q) \<and> smtpLog q' = smtpLog q \<and> sentDir q' = sentDir q
   | (Inl err, q') \<Rightarrow> q' = q"
proof (cases "pending_file q i")
  case None
  then show ?thesis by (simp add: cancelClaimed_def readScheduled_def pending_file_def)
next
  case (Some c)
  have draft: "pendingDir (snd (deleteDraft E e q)) = pendingDir q \<and> smtpLog (snd (deleteDraft E e q)) = smtpLog q \<and>
      sentDir (snd (deleteDraft E e q)) = sentDir q" for e
    by (simp add: deleteDraft_def split: option.split)
  from Some show ?thesis
    by (cases c) (simp_all add: cancelClaimed_def readScheduled_def pending_file_def assertCancellable_def split_beta draft)
qed

text \<open>
  \<open>cancel\<close> succeeds only on a pending record whose claim it took, and then that record and
  nothing else leaves the queue; on every error the queue directory is as it was. It never touches
  the record of a mail that is being sent, was sent or failed, and sends nothing.
\<close>

theorem cancel_removes_only_pending:
  "case cancel E i q of
     (Inr drafts, q') \<Rightarrow>
       (\<exists>e. pending_file q i = Some (Json e) \<and> se_status e = Pending) \<and> pending_file q' i = None \<and>
       others_kept i q q' \<and> smtpLog q' = smtpLog q \<and> sentDir q' = sentDir q
   | (Inl err, q') \<Rightarrow> pendingDir q' = pendingDir q \<and> smtpLog q' = smtpLog q \<and> deletedDrafts q' = deletedDrafts q"
proof -
  obtain t q1 where c: "claimSchedule E i (nowMs E) q = (t, q1)" by fastforce
  have same: "pendingDir q1 = pendingDir q \<and> smtpLog q1 = smtpLog q \<and> sentDir q1 = sentDir q \<and> deletedDrafts q1 = deletedDrafts q"
    using claim_frame [where E = E and i = i and now = "nowMs E" and q = q] unfolding c snd_conv .
  show ?thesis
  proof (cases "fst (cancel E i q)")
    case (Inl err)
    have "fst (cancelClaimed E i q1) = Inl err \<Longrightarrow> snd (cancelClaimed E i q1) = q1"
      using cancelClaimed_cases [where E = E and i = i and q = q1] by (auto split: prod.splits)
    with Inl same show ?thesis
      by (auto simp: cancel_def c unclaimSchedule_def split_beta split: option.splits qfile.splits if_splits sum.splits)
  next
    case (Inr d)
    then obtain tk q2 where t: "t = Some tk" "cancelClaimed E i q1 = (Inr d, q2)" "cancel E i q = (Inr d, unclaimSchedule i tk q2)"
      by (auto simp: cancel_def c split_beta prod_eq_iff split: option.splits qfile.splits if_splits sum.splits)
    with cancelClaimed_cases [where E = E and i = i and q = q1] same show ?thesis
      by (auto simp: pending_file_def others_kept_def unclaimSchedule_def)
  qed
qed

end
