(* ===== verification/Validation.thy ===== *)
theory Validation
  imports Texts "HOL-Library.Word"
begin

text \<open>
  Input validation (src/safety/validation.ts): mailbox and label names, message UIDs, search text,
  template escaping, and the webhook address check. Addresses are words: an IPv4 address is a
  \<open>32 word\<close>, an IPv6 address a \<open>128 word\<close>, a subnet rule compares the leading bits, as the
  runtime's \<open>BlockList\<close> does (which also holds an IPv4-mapped address against the IPv4 rules).
  \<open>isIP\<close> follows the runtime's grammar. The runtime's URL parser is the parameter \<open>parseUrl\<close>
  (protocol and hostname, \<open>None\<close> when it throws), the resolver the parameter \<open>resolve\<close>.
\<close>

section \<open>Names, ids and texts\<close>

datatype validation_error =
    EmptyName | Wildcard | ControlCharacters | NotAUid | EmptyQuery | NameTooLong | BadSegments
  | InvalidUrl string | BadProtocol string | PrivateAddress string | LookupFailed string | LookupTimeout

definition sanitizeMailboxName :: "string \<Rightarrow> validation_error + string" where
  "sanitizeMailboxName name =
     (let trimmed = trim name in
      if trimmed = [] then Inl EmptyName
      else if CHR ''*'' \<in> set trimmed \<or> CHR ''%'' \<in> set trimmed then Inl Wildcard
      else if has_control trimmed then Inl ControlCharacters
      else Inr trimmed)"

definition MAX_MESSAGE_UID :: nat where "MAX_MESSAGE_UID = 4294967295"

definition uid_shape :: "string \<Rightarrow> bool" where
  "uid_shape s \<longleftrightarrow> s \<noteq> [] \<and> is_digit (hd s) \<and> hd s \<noteq> CHR ''0'' \<and> list_all is_digit s \<and> length s \<le> 10"

definition parseMessageUid :: "string \<Rightarrow> validation_error + string" where
  "parseMessageUid emailId =
     (if \<not> uid_shape emailId then Inl NotAUid
      else if number_of emailId > MAX_MESSAGE_UID then Inl NotAUid
      else Inr emailId)"

definition query_char_stripped :: "char \<Rightarrow> bool" where
  [model_defs]: "query_char_stripped c \<longleftrightarrow> of_char c \<le> (8 :: nat) \<or> (11 \<le> (of_char c :: nat) \<and> of_char c \<le> (31 :: nat))"

definition sanitizeSearchQuery :: "string \<Rightarrow> validation_error + string" where
  "sanitizeSearchQuery query =
     (let cleaned = trim (filter (\<lambda>c. \<not> query_char_stripped c) query)
      in if cleaned = [] then Inl EmptyQuery else Inr cleaned)"

definition sanitizeTemplateVariable :: "string \<Rightarrow> bool \<Rightarrow> string" where
  "sanitizeTemplateVariable v html =
     (if \<not> html then v
      else replace_char CHR 0x27 ''&#39;''
        (replace_char CHR 0x22 ''&quot;''
          (replace_char CHR ''>'' ''&gt;''
            (replace_char CHR ''<'' ''&lt;'' (replace_char CHR ''&'' ''&amp;'' v)))))"

definition validateLabelName :: "string \<Rightarrow> validation_error + string" where
  "validateLabelName name =
     (let trimmed = trim name in
      if trimmed = [] then Inl EmptyName
      else if length trimmed > 200 then Inl NameTooLong
      else if has_control trimmed then Inl ControlCharacters
      else if list_ex (\<lambda>seg. seg = [] \<or> seg = ''.'' \<or> seg = ''..'') (split_on CHR ''/'' trimmed) then Inl BadSegments
      else Inr trimmed)"

section \<open>Addresses\<close>

definition stripHostBrackets :: "string \<Rightarrow> string" where
  "stripHostBrackets host =
     (let h1 = (case host of CHR ''['' # r \<Rightarrow> r | _ \<Rightarrow> host);
          h2 = (if h1 \<noteq> [] \<and> last h1 = CHR '']'' then butlast h1 else h1);
          h3 = (if h2 \<noteq> [] \<and> last h2 = CHR ''.'' then butlast h2 else h2)
      in to_lower h3)"

text \<open>The text is cut at each \<open>::\<close>, from the left.\<close>

fun split_double_colon :: "string \<Rightarrow> string list" where
  "split_double_colon [] = [[]]"
| "split_double_colon [x] = [[x]]"
| "split_double_colon (x # y # s) =
     (if x = CHR '':'' \<and> y = CHR '':'' then [] # split_double_colon s
      else case split_double_colon (y # s) of [] \<Rightarrow> [[x]] | p # ps \<Rightarrow> (x # p) # ps)"

definition dotted_suffix :: "string \<Rightarrow> bool" where
  "dotted_suffix s \<longleftrightarrow> (let parts = split_on CHR ''.'' s in
     length parts = 4 \<and> list_all (\<lambda>p. p \<noteq> [] \<and> length p \<le> 3 \<and> list_all is_digit p) parts)"

definition parseSide :: "string \<Rightarrow> nat list option" where
  "parseSide side =
     (if side = [] then Some []
      else let parts = split_on CHR '':'' side in
        if list_ex (\<lambda>p. \<not> (p \<noteq> [] \<and> length p \<le> 4 \<and> list_all is_lower_hex p)) parts then None
        else Some (map hex_number_of parts))"

definition expandDotted :: "string \<Rightarrow> string option" where
  "expandDotted host =
     (case break_last CHR '':'' host of
        Some (pre, suf) \<Rightarrow>
          if dotted_suffix suf then
            (let octets = map number_of (split_on CHR ''.'' suf) in
             if list_ex (\<lambda>n. n > 255) octets then None
             else Some (pre @ show_hex (octets ! 0 * 256 + octets ! 1) @ '':'' @ show_hex (octets ! 2 * 256 + octets ! 3)))
          else Some host
      | None \<Rightarrow> Some host)"

definition parseSides :: "string list \<Rightarrow> nat list option" where
  "parseSides sides =
     (case sides of
        [l] \<Rightarrow> (case parseSide l of None \<Rightarrow> None | Some left \<Rightarrow> if length left = 8 then Some left else None)
      | [l, r] \<Rightarrow>
          (case (parseSide l, parseSide r) of
             (Some left, Some right) \<Rightarrow>
               if length left + length right \<ge> 8 then None
               else Some (left @ replicate (8 - length left - length right) 0 @ right)
           | _ \<Rightarrow> None)
      | _ \<Rightarrow> None)"

definition parseIpv6Hextets :: "string \<Rightarrow> nat list option" where
  "parseIpv6Hextets host =
     (case expandDotted host of None \<Rightarrow> None | Some text \<Rightarrow> parseSides (split_double_colon text))"

definition dotted :: "nat \<Rightarrow> nat \<Rightarrow> nat \<Rightarrow> nat \<Rightarrow> string" where
  [model_defs]: "dotted a b c d = join_with ''.'' (map show_nat [a, b, c, d])"

definition ipv4FromHextets :: "nat \<Rightarrow> nat \<Rightarrow> string" where
  "ipv4FromHextets high low = dotted (high div 256) (high mod 256) (low div 256) (low mod 256)"

fun embedded_words :: "nat list \<Rightarrow> (nat \<times> nat) option" where
  "embedded_words [w0, w1, w2, w3, w4, w5, w6, w7] =
     (if w0 = 0 \<and> w1 = 0 \<and> w2 = 0 \<and> w3 = 0 \<and> w4 = 0 \<and> (w5 = 0xffff \<or> w5 = 0) then Some (w6, w7)
      else if w0 = 0x64 \<and> w1 = 0xff9b \<and> w2 = 0 \<and> w3 = 0 \<and> w4 = 0 \<and> w5 = 0 then Some (w6, w7)
      else if w0 = 0x2002 then Some (w1, w2)
      else None)"
| "embedded_words _ = None"

definition embeddedIpv4 :: "string \<Rightarrow> string option" where
  "embeddedIpv4 host =
     (case parseIpv6Hextets host of
        None \<Rightarrow> None
      | Some words \<Rightarrow> map_option (\<lambda>(h, l). ipv4FromHextets h l) (embedded_words words))"

subsection \<open>The runtime's \<open>isIP\<close>\<close>

definition strict_octet :: "string \<Rightarrow> bool" where
  [model_defs]: "strict_octet p \<longleftrightarrow> p \<noteq> [] \<and> list_all is_digit p \<and> (hd p = CHR ''0'' \<longrightarrow> length p = 1) \<and>
     length p \<le> 3 \<and> number_of p \<le> 255"

definition parseIpv4 :: "string \<Rightarrow> nat list option" where
  [model_defs]: "parseIpv4 s = (let parts = split_on CHR ''.'' s in
     if length parts = 4 \<and> list_all strict_octet parts then Some (map number_of parts) else None)"

definition strip_zone :: "string \<Rightarrow> string option" where
  [model_defs]: "strip_zone s = (let base = takeWhile (\<lambda>c. c \<noteq> CHR ''%'') s; zone = drop (length base) s in
     if zone = [] then Some base
     else if tl zone \<noteq> [] \<and>
       list_all (\<lambda>c. is_digit c \<or> is_lower c \<or> is_upper c \<or> c \<in> {CHR ''-'', CHR ''.'', CHR '':''}) (tl zone) then Some base
     else None)"

definition parseIpv6 :: "string \<Rightarrow> nat list option" where
  [model_defs]: "parseIpv6 s = Option.bind (strip_zone s) (\<lambda>base.
     case break_last CHR '':'' base of
       None \<Rightarrow> None
     | Some (_, suf) \<Rightarrow>
         if CHR ''.'' \<in> set suf \<and> parseIpv4 suf = None then None else parseIpv6Hextets base)"

definition isIP :: "string \<Rightarrow> nat" where
  [model_defs]: "isIP s = (if parseIpv4 s \<noteq> None then 4 else if parseIpv6 s \<noteq> None then 6 else 0)"

section \<open>The block list\<close>

definition ip4 :: "nat \<Rightarrow> nat \<Rightarrow> nat \<Rightarrow> nat \<Rightarrow> 32 word" where
  [model_defs]: "ip4 a b c d = of_nat (((a * 256 + b) * 256 + c) * 256 + d)"

definition ip6 :: "nat list \<Rightarrow> 128 word" where
  [model_defs]: "ip6 ws = of_nat (foldl (\<lambda>n w. n * 65536 + w) 0 ws)"

definition in_subnet :: "'a::len word \<Rightarrow> nat \<Rightarrow> 'a word \<Rightarrow> bool" where
  [model_defs]: "in_subnet base prefix a \<longleftrightarrow> drop_bit (LENGTH('a) - prefix) a = drop_bit (LENGTH('a) - prefix) base"

definition BLOCKED_IPV4 :: "(32 word \<times> nat) list" where
  "BLOCKED_IPV4 =
     [(ip4 0 0 0 0, 8), (ip4 10 0 0 0, 8), (ip4 127 0 0 0, 8), (ip4 169 254 0 0, 16), (ip4 172 16 0 0, 12),
      (ip4 192 168 0 0, 16), (ip4 100 64 0 0, 10), (ip4 192 0 0 0, 24), (ip4 198 18 0 0, 15), (ip4 240 0 0 0, 4)]"

definition BLOCKED_IPV6 :: "(128 word \<times> nat) list" where
  "BLOCKED_IPV6 =
     [(ip6 [0, 0, 0, 0, 0, 0, 0, 0], 128), (ip6 [0, 0, 0, 0, 0, 0, 0, 1], 128),
      (ip6 [0xfc00, 0, 0, 0, 0, 0, 0, 0], 7), (ip6 [0xfe80, 0, 0, 0, 0, 0, 0, 0], 10),
      (ip6 [0xfec0, 0, 0, 0, 0, 0, 0, 0], 10), (ip6 [0x64, 0xff9b, 1, 0, 0, 0, 0, 0], 48),
      (ip6 [0x100, 0, 0, 0, 0, 0, 0, 0], 64), (ip6 [0x100, 0, 0, 1, 0, 0, 0, 0], 64),
      (ip6 [0x5f00, 0, 0, 0, 0, 0, 0, 0], 16)]"

definition check_ipv4 :: "32 word \<Rightarrow> bool" where
  "check_ipv4 a \<longleftrightarrow> list_ex (\<lambda>(base, p). in_subnet base p a) BLOCKED_IPV4"

definition check_ipv6 :: "128 word \<Rightarrow> bool" where
  "check_ipv6 a \<longleftrightarrow> list_ex (\<lambda>(base, p). in_subnet base p a) BLOCKED_IPV6 \<or>
     (in_subnet (ip6 [0, 0, 0, 0, 0, 0xffff, 0, 0]) 96 a \<and> check_ipv4 (ucast a))"

definition check_address :: "string \<Rightarrow> bool" where
  [model_defs]: "check_address s =
     (case parseIpv4 s of
        Some [a, b, c, d] \<Rightarrow> check_ipv4 (ip4 a b c d)
      | _ \<Rightarrow> (case parseIpv6 s of Some ws \<Rightarrow> check_ipv6 (ip6 ws) | None \<Rightarrow> False))"

definition METADATA_WEBHOOK_HOSTS :: "string list" where
  "METADATA_WEBHOOK_HOSTS = [''metadata.google.internal'', ''metadata.goog'']"

definition WEBHOOK_LOOKUP_TIMEOUT_MS :: number where "WEBHOOK_LOOKUP_TIMEOUT_MS = 2000"

definition isBlockedWebhookHost :: "string \<Rightarrow> bool" where
  "isBlockedWebhookHost host =
     (let bare = stripHostBrackets host in
      if bare = ''localhost'' \<or> ends_with ''.localhost'' bare then True
      else if bare \<in> set METADATA_WEBHOOK_HOSTS then True
      else case embeddedIpv4 bare of
        Some embedded \<Rightarrow> check_address embedded
      | None \<Rightarrow>
          if isIP bare = 4 then check_address bare
          else if isIP bare = 6 then check_address bare
          else False)"

section \<open>Webhook URLs\<close>

definition validateWebhookUrl :: "(string \<Rightarrow> (string \<times> string) option) \<Rightarrow> bool \<Rightarrow> string \<Rightarrow> validation_error + unit" where
  "validateWebhookUrl parseUrl allowPrivate url =
     (case parseUrl url of
        None \<Rightarrow> Inl (InvalidUrl url)
      | Some (protocol, hostname) \<Rightarrow>
          if protocol \<noteq> ''https:'' \<and> protocol \<noteq> ''http:'' then Inl (BadProtocol protocol)
          else if allowPrivate then Inr ()
          else let bare = stripHostBrackets hostname in
            if isBlockedWebhookHost bare then Inl (PrivateAddress bare) else Inr ())"

text \<open>What a lookup gives: addresses, a failure, or no answer in time.\<close>

datatype lookup_result = Addresses "string list" | LookupError string | NoAnswer

definition createWebhookConnectLookup ::
  "(string \<Rightarrow> lookup_result) \<Rightarrow> bool \<Rightarrow> bool \<Rightarrow> string \<Rightarrow> validation_error + (string \<times> nat) list" where
  "createWebhookConnectLookup resolve allowPrivate wantAll hostname =
     (case resolve (stripHostBrackets hostname) of
        LookupError e \<Rightarrow> Inl (LookupFailed e)
      | NoAnswer \<Rightarrow> Inl LookupTimeout
      | Addresses addresses \<Rightarrow>
          if addresses = [] \<or> (\<not> allowPrivate \<and> list_ex isBlockedWebhookHost addresses)
          then Inl (PrivateAddress hostname)
          else let records = map (\<lambda>a. (a, if isIP a = 6 then 6 else 4)) addresses in
            Inr (if wantAll then records else [hd records]))"

definition resolveWebhookUrl ::
  "(string \<Rightarrow> (string \<times> string) option) \<Rightarrow> (string \<Rightarrow> lookup_result) \<Rightarrow> bool \<Rightarrow> string \<Rightarrow> validation_error + unit" where
  "resolveWebhookUrl parseUrl resolve allowPrivate url =
     bindE (validateWebhookUrl parseUrl allowPrivate url) (\<lambda>_.
       if allowPrivate then Inr ()
       else case parseUrl url of
         None \<Rightarrow> Inl (InvalidUrl url)
       | Some (_, hostname) \<Rightarrow>
           (let bare = stripHostBrackets hostname in
            if isIP bare \<noteq> 0 \<or> embeddedIpv4 bare \<noteq> None \<or> isBlockedWebhookHost bare then Inr ()
            else case resolve bare of
              NoAnswer \<Rightarrow> Inl LookupTimeout
            | LookupError _ \<Rightarrow> Inl (LookupFailed bare)
            | Addresses addresses \<Rightarrow>
                if addresses = [] \<or> list_ex isBlockedWebhookHost addresses
                then Inl (PrivateAddress bare) else Inr ()))"

section \<open>Facts about the parsers\<close>

lemma not_digit: "\<not> is_digit CHR ''.''" "\<not> is_digit CHR '':''"
  by (simp_all add: is_digit_def char_less_eq_nat)

lemma octet_text:
  assumes "n \<le> 255"
  shows "strict_octet (show_nat n) \<and> length (show_nat n) \<le> 3 \<and> CHR ''.'' \<notin> set (show_nat n) \<and> CHR '':'' \<notin> set (show_nat n)"
proof -
  have d: "list_all is_digit (show_nat n)" "show_nat n \<noteq> []" using show_nat_digits by auto
  have "length (show_nat n) \<le> 3" using show_nat_length [of n 3] assms by simp
  moreover have "hd (show_nat n) = CHR ''0'' \<longrightarrow> length (show_nat n) = 1"
    using show_nat_hd [of n] by (cases "n = 0") (auto simp: show_nat.simps)
  moreover have "c \<notin> set (show_nat n)" if "\<not> is_digit c" for c
    using d(1) that by (auto simp: list_all_iff)
  ultimately show ?thesis
    using d assms by (simp add: strict_octet_def not_digit)
qed

lemma dotted_split:
  assumes "a \<le> 255" "b \<le> 255" "c \<le> 255" "d \<le> 255"
  shows "split_on CHR ''.'' (dotted a b c d) = [show_nat a, show_nat b, show_nat c, show_nat d]"
  using assms by (simp add: dotted_def octet_text split_on_append split_on_none)

lemma parseIpv4_dotted:
  assumes "a \<le> 255" "b \<le> 255" "c \<le> 255" "d \<le> 255"
  shows "parseIpv4 (dotted a b c d) = Some [a, b, c, d]"
  using assms by (simp add: parseIpv4_def dotted_split octet_text Let_def)

lemma dotted_suffix_dotted:
  assumes "a \<le> 255" "b \<le> 255" "c \<le> 255" "d \<le> 255"
  shows "dotted_suffix (dotted a b c d)"
  using assms by (simp add: dotted_suffix_def dotted_split octet_text show_nat_digits)

lemma no_colon_dotted:
  assumes "a \<le> 255" "b \<le> 255" "c \<le> 255" "d \<le> 255"
  shows "CHR '':'' \<notin> set (dotted a b c d)"
  using assms by (simp add: dotted_def octet_text)

lemma show_hex_no_colon: "CHR '':'' \<notin> set (show_hex n)"
  using show_hex_digits [of n] by (auto simp: list_all_iff is_lower_hex_def is_digit_def char_less_eq_nat)

lemma parseSide_two:
  assumes "h < 65536" "l < 65536"
  shows "parseSide (show_hex h @ '':'' @ show_hex l) = Some [h, l]"
proof -
  have "length (show_hex n) \<le> 4" if "n < 65536" for n
    using show_hex_length [of n 4] that by simp
  with assms show ?thesis
    using show_hex_digits [of h] show_hex_digits [of l]
    by (simp add: parseSide_def split_on_append [OF show_hex_no_colon] split_on_none [OF show_hex_no_colon] Let_def)
qed

text \<open>Cutting at \<open>::\<close> a text whose only double colon is known.\<close>

lemma split_double_colon_none: "(\<And>i. Suc i < length s \<Longrightarrow> \<not> (s ! i = CHR '':'' \<and> s ! Suc i = CHR '':'')) \<Longrightarrow> split_double_colon s = [s]"
proof (induction s rule: split_double_colon.induct)
  case (3 x y s)
  have "\<not> (x = CHR '':'' \<and> y = CHR '':'')" using "3.prems" [of 0] by simp
  moreover have "split_double_colon (y # s) = [y # s]"
    using calculation "3.IH"(2) "3.prems" by (metis Suc_less_eq length_Cons nth_Cons_Suc)
  ultimately show ?case by simp
qed auto

lemma split_double_colon_hex:
  "split_double_colon (show_hex h @ '':'' @ show_hex l) = [show_hex h @ '':'' @ show_hex l]"
proof (rule split_double_colon_none)
  fix i
  let ?s = "show_hex h @ '':'' @ show_hex l"
  assume i: "Suc i < length ?s"
  have ne: "show_hex n ! k \<noteq> CHR '':''" if "k < length (show_hex n)" for n k
    using show_hex_no_colon [of n] that nth_mem by fastforce
  show "\<not> (?s ! i = CHR '':'' \<and> ?s ! Suc i = CHR '':'')"
  proof (cases "i = length (show_hex h)")
    case True
    with i ne [of 0 l] show ?thesis by (simp add: nth_append)
  next
    case False
    with i ne [of i h] ne [of "i - Suc (length (show_hex h))" l] show ?thesis
      by (auto simp: nth_append nth_Cons' split: if_splits)
  qed
qed

section \<open>Which addresses are blocked\<close>

lemma in_subnet_nat:
  fixes x y :: nat
  assumes "x < 2 ^ LENGTH('a::len)" "y < 2 ^ LENGTH('a)"
  shows "in_subnet (of_nat y :: 'a word) p (of_nat x) \<longleftrightarrow> x div 2 ^ (LENGTH('a) - p) = y div 2 ^ (LENGTH('a) - p)"
proof -
  have "unat (of_nat z :: 'a word) = z" if "z < 2 ^ LENGTH('a)" for z
    using that by (simp add: unat_of_nat take_bit_nat_eq_self)
  from this [OF assms(1)] this [OF assms(2)] show ?thesis
    unfolding in_subnet_def word_unat_eq_iff unat_drop_bit_eq by (simp add: drop_bit_eq_div)
qed

lemma ip4_in_subnet:
  assumes "a \<le> 255" "b \<le> 255" "c \<le> 255" "d \<le> 255" "a' \<le> 255" "b' \<le> 255" "c' \<le> 255" "d' \<le> 255"
  shows "in_subnet (ip4 a' b' c' d') p (ip4 a b c d) \<longleftrightarrow>
    (((a * 256 + b) * 256 + c) * 256 + d) div 2 ^ (32 - p) = (((a' * 256 + b') * 256 + c') * 256 + d') div 2 ^ (32 - p)"
  using in_subnet_nat [where 'a = 32, of "((a * 256 + b) * 256 + c) * 256 + d" "((a' * 256 + b') * 256 + c') * 256 + d'" p] assms
  by (simp add: ip4_def)

definition private_quad :: "nat \<Rightarrow> nat \<Rightarrow> nat \<Rightarrow> nat \<Rightarrow> bool" where
  "private_quad a b c d \<longleftrightarrow>
     a = 0 \<or> a = 10 \<or> a = 127 \<or> (a = 169 \<and> b = 254) \<or> (a = 172 \<and> 16 \<le> b \<and> b \<le> 31) \<or> (a = 192 \<and> b = 168) \<or>
     (a = 100 \<and> 64 \<le> b \<and> b \<le> 127) \<or> (a = 192 \<and> b = 0 \<and> c = 0) \<or> (a = 198 \<and> (b = 18 \<or> b = 19)) \<or> a \<ge> 240"

lemma quad_div:
  fixes a b c d :: nat
  assumes "a \<le> 255" "b \<le> 255" "c \<le> 255" "d \<le> 255"
  shows "(16777216 * a + 65536 * b + c * 256 + d) div 16777216 = a"
    and "(16777216 * a + 65536 * b + c * 256 + d) div 65536 = a * 256 + b"
    and "(16777216 * a + 65536 * b + c * 256 + d) div 256 = 65536 * a + b * 256 + c"
    and "(16777216 * a + 65536 * b + c * 256 + d) div 1048576 = a * 16 + b div 16"
    and "(16777216 * a + 65536 * b + c * 256 + d) div 4194304 = a * 4 + b div 64"
    and "(16777216 * a + 65536 * b + c * 256 + d) div 131072 = a * 128 + b div 2"
    and "(16777216 * a + 65536 * b + c * 256 + d) div 268435456 = a div 16"
proof -
  have q: "k * (b div k) \<le> b \<and> b < k * (b div k) + k" if "0 < k" for k
    using that mult_div_mod_eq [of k b] mod_less_divisor [of k b] by linarith
  have qa: "16 * (a div 16) \<le> a \<and> a < 16 * (a div 16) + 16" by linarith
  note bounds = assms qa q [of 16] q [of 64] q [of 2]
  show "(16777216 * a + 65536 * b + c * 256 + d) div 16777216 = a" by (rule div_nat_eqI) (use assms in simp_all)
  show "(16777216 * a + 65536 * b + c * 256 + d) div 65536 = a * 256 + b" by (rule div_nat_eqI) (use assms in simp_all)
  show "(16777216 * a + 65536 * b + c * 256 + d) div 256 = 65536 * a + b * 256 + c" by (rule div_nat_eqI) (use assms in simp_all)
  show "(16777216 * a + 65536 * b + c * 256 + d) div 1048576 = a * 16 + b div 16" by (rule div_nat_eqI) (use bounds in simp_all)
  show "(16777216 * a + 65536 * b + c * 256 + d) div 4194304 = a * 4 + b div 64" by (rule div_nat_eqI) (use bounds in simp_all)
  show "(16777216 * a + 65536 * b + c * 256 + d) div 131072 = a * 128 + b div 2" by (rule div_nat_eqI) (use bounds in simp_all)
  show "(16777216 * a + 65536 * b + c * 256 + d) div 268435456 = a div 16" by (rule div_nat_eqI) (use bounds in simp_all)
qed

lemma digit_eq:
  fixes a a' q q' k :: nat
  assumes "q < k" "q' < k"
  shows "a * k + q = a' * k + q' \<longleftrightarrow> a = a' \<and> q = q'"
proof
  assume e: "a * k + q = a' * k + q'"
  have "(a * k + q) div k = a" "(a' * k + q') div k = a'" using assms by simp_all
  with e show "a = a' \<and> q = q'" by simp
qed simp

lemma check_ipv4_iff:
  assumes "a \<le> 255" "b \<le> 255" "c \<le> 255" "d \<le> 255"
  shows "check_ipv4 (ip4 a b c d) \<longleftrightarrow> private_quad a b c d"
proof -
  have "b div 16 = 1 \<longleftrightarrow> 16 \<le> b \<and> b \<le> 31" "b div 64 = 1 \<longleftrightarrow> 64 \<le> b \<and> b \<le> 127"
    "b div 2 = 9 \<longleftrightarrow> b = 18 \<or> b = 19" "a div 16 = 15 \<longleftrightarrow> a \<ge> 240"
    using assms by linarith+
  moreover have "a * 16 + b div 16 = 2753 \<longleftrightarrow> a = 172 \<and> b div 16 = 1" "a * 4 + b div 64 = 401 \<longleftrightarrow> a = 100 \<and> b div 64 = 1"
    "a * 128 + b div 2 = 25353 \<longleftrightarrow> a = 198 \<and> b div 2 = 9"
    "a * 256 + b = 43518 \<longleftrightarrow> a = 169 \<and> b = 254" "a * 256 + b = 49320 \<longleftrightarrow> a = 192 \<and> b = 168"
    "(a * 256 + b) * 256 + c = 12582912 \<longleftrightarrow> a * 256 + b = 49152 \<and> c = 0" "a * 256 + b = 49152 \<longleftrightarrow> a = 192 \<and> b = 0"
    using assms digit_eq [of "b div 16" 16 1 a 172] digit_eq [of "b div 64" 4 1 a 100] digit_eq [of "b div 2" 128 9 a 198]
      digit_eq [of b 256 254 a 169] digit_eq [of b 256 168 a 192] digit_eq [of c 256 0 "a * 256 + b" 49152]
      digit_eq [of b 256 0 a 192]
    by simp_all
  ultimately show ?thesis
    using assms
    by (simp add: check_ipv4_def BLOCKED_IPV4_def ip4_in_subnet quad_div private_quad_def)
qed

lemma last_dotted:
  assumes "d \<le> 255"
  shows "is_digit (last (dotted a b c d)) \<and> dotted a b c d \<noteq> []"
proof -
  have "is_digit (last (show_nat d))" "show_nat d \<noteq> []"
    using show_nat_digits [of d] by (auto simp: list_all_iff)
  then show ?thesis by (simp add: dotted_def last_append)
qed

lemma ends_with_last: "ends_with p s \<Longrightarrow> p \<noteq> [] \<Longrightarrow> last s = last p"
  by (metis append_take_drop_id ends_with_def last_appendR)

text \<open>A text that is already bare and ends in a digit reaches the address checks.\<close>

lemma blocked_address_text:
  assumes "stripHostBrackets s = s" "is_digit (last s)" "s \<noteq> []"
  shows "isBlockedWebhookHost s \<longleftrightarrow> (case embeddedIpv4 s of Some e \<Rightarrow> check_address e | None \<Rightarrow> isIP s \<noteq> 0 \<and> check_address s)"
proof -
  have "\<not> is_digit CHR ''t''" "\<not> is_digit CHR ''l''" "\<not> is_digit CHR ''g''"
    by (simp_all add: is_digit_def char_less_eq_nat)
  then have "s \<noteq> ''localhost''" "\<not> ends_with ''.localhost'' s" "s \<notin> set METADATA_WEBHOOK_HOSTS"
    using assms(2) ends_with_last [of "''.localhost''" s] by (auto simp: METADATA_WEBHOOK_HOSTS_def)
  then show ?thesis
    by (auto simp: isBlockedWebhookHost_def assms(1) Let_def isIP_def check_address_def split: option.split)
qed

lemma to_lower_digits: "list_all (\<lambda>c. is_digit c \<or> is_lower_hex c \<or> c = CHR ''.'' \<or> c = CHR '':'') s \<Longrightarrow> to_lower s = s"
  by (induction s) (auto simp: to_lower_def to_lower_char_def is_digit_def is_lower_hex_def char_less_eq_nat)

lemma strip_bare:
  assumes "list_all (\<lambda>c. is_digit c \<or> is_lower_hex c \<or> c = CHR ''.'' \<or> c = CHR '':'') s" "s \<noteq> []" "last s \<noteq> CHR ''.''"
  shows "stripHostBrackets s = s"
proof -
  have n: "\<not> is_digit CHR ''[''" "\<not> is_lower_hex CHR ''[''" "\<not> is_digit CHR '']''" "\<not> is_lower_hex CHR '']''"
    by (simp_all add: is_digit_def is_lower_hex_def char_less_eq_nat)
  have c: "c \<in> set s \<Longrightarrow> c \<noteq> CHR ''['' \<and> c \<noteq> CHR '']''" for c
    using assms(1) n by (auto simp: list_all_iff)
  have "(case s of CHR ''['' # r \<Rightarrow> r | _ \<Rightarrow> s) = s"
    using c [of "hd s"] by (cases s) (auto split: char.split bool.split)
  moreover have "last s \<noteq> CHR '']''" using c [of "last s"] assms(2) by simp
  ultimately show ?thesis
    using assms(2,3) to_lower_digits [OF assms(1)] by (simp add: stripHostBrackets_def Let_def)
qed

lemma dotted_chars: "list_all (\<lambda>c. is_digit c \<or> is_lower_hex c \<or> c = CHR ''.'' \<or> c = CHR '':'') (dotted a b c d)"
  using show_nat_digits by (auto simp: dotted_def list_all_iff)

lemma embedded_dotted:
  assumes "a \<le> 255" "b \<le> 255" "c \<le> 255" "d \<le> 255"
  shows "embeddedIpv4 (dotted a b c d) = None"
proof -
  let ?s = "dotted a b c d"
  note nc = no_colon_dotted [OF assms]
  have "split_double_colon ?s = [?s]"
    by (rule split_double_colon_none) (use nc nth_mem in \<open>fastforce\<close>)
  moreover have "CHR ''.'' \<in> set ?s" by (simp add: dotted_def)
  moreover have "\<not> is_lower_hex CHR ''.''" by (simp add: is_lower_hex_def is_digit_def char_less_eq_nat)
  ultimately show ?thesis
    using nc by (auto simp: embeddedIpv4_def parseIpv6Hextets_def expandDotted_def break_last_def parseSides_def parseSide_def
        split_on_none list_all_iff)
qed

lemma blocked_ipv4_iff_raw:
  assumes "a \<le> 255" "b \<le> 255" "c \<le> 255" "d \<le> 255"
  shows "isBlockedWebhookHost (dotted a b c d) \<longleftrightarrow> private_quad a b c d"
proof -
  have "stripHostBrackets (dotted a b c d) = dotted a b c d"
    using last_dotted [OF assms(4)] not_digit(1) by (intro strip_bare dotted_chars) metis+
  then show ?thesis
    using last_dotted [OF assms(4)]
    by (simp add: blocked_address_text embedded_dotted [OF assms] isIP_def parseIpv4_dotted [OF assms]
        check_address_def check_ipv4_iff [OF assms])
qed

text \<open>
  C16: a dotted IPv4 address is refused as a webhook host exactly when it lies in one of the listed
  special-purpose ranges, loopback, private and link-local (cloud metadata) included.
\<close>

theorem blocked_ipv4_iff:
  assumes "a \<le> 255" "b \<le> 255" "c \<le> 255" "d \<le> 255"
  shows "isBlockedWebhookHost (dotted a b c d) \<longleftrightarrow> private_quad a b c d"
  by (rule blocked_ipv4_iff_raw [OF assms])

theorem blocked_ipv4_iff_witness:
  "isBlockedWebhookHost ''169.254.169.254'' \<and> \<not> isBlockedWebhookHost ''172.32.0.1''"
proof -
  have "dotted 169 254 169 254 = ''169.254.169.254''" "dotted 172 32 0 1 = ''172.32.0.1''" by code_simp+
  with blocked_ipv4_iff [of 169 254 169 254] blocked_ipv4_iff [of 172 32 0 1] show ?thesis
    by (simp add: private_quad_def)
qed

lemma ipv4FromHextets_pair:
  assumes "a \<le> 255" "b \<le> 255" "c \<le> 255" "d \<le> 255"
  shows "ipv4FromHextets (a * 256 + b) (c * 256 + d) = dotted a b c d"
  using assms by (simp add: ipv4FromHextets_def)

lemma expandDotted_prefix:
  assumes "a \<le> 255" "b \<le> 255" "c \<le> 255" "d \<le> 255"
  shows "expandDotted (p @ '':'' @ dotted a b c d) =
    Some (p @ '':'' @ show_hex (a * 256 + b) @ '':'' @ show_hex (c * 256 + d))"
  using break_last_append [OF no_colon_dotted [OF assms], of p] assms
  by (simp add: expandDotted_def dotted_suffix_dotted dotted_split Let_def)

lemma ffff: "list_all is_lower_hex ''ffff'' \<and> hex_number_of ''ffff'' = 65535"
  by (simp add: hex_number_of_def hex_value_def digit_value_def is_lower_hex_def is_digit_def char_less_eq_nat)

lemma zeros: "replicate 6 (0::nat) = [0, 0, 0, 0, 0, 0]" "replicate 5 (0::nat) = [0, 0, 0, 0, 0]"
  "replicate 4 (0::nat) = [0, 0, 0, 0]"
  by (simp_all add: numeral_eq_Suc)

lemma hex_pair_parse:
  assumes "h < 65536" "l < 65536"
  shows "parseSides (split_double_colon (''::'' @ show_hex h @ '':'' @ show_hex l)) = Some [0, 0, 0, 0, 0, 0, h, l]"
    and "parseSides (split_double_colon (''::ffff:'' @ show_hex h @ '':'' @ show_hex l)) = Some [0, 0, 0, 0, 0, 65535, h, l]"
    and "parseSides (split_double_colon (''64:ff9b::'' @ show_hex h @ '':'' @ show_hex l)) = Some [100, 65435, 0, 0, 0, 0, h, l]"
proof -
  let ?X = "show_hex h @ '':'' @ show_hex l"
  obtain x r where x: "show_hex h = x # r" "x \<noteq> CHR '':''"
    using show_hex_digits [of h] show_hex_no_colon [of h] by (cases "show_hex h") auto
  have X: "split_double_colon (x # r @ '':'' @ show_hex l) = [?X]"
    using split_double_colon_hex [of h l] by (simp add: x)
  note side = parseSide_two [OF assms]
  show "parseSides (split_double_colon (''::'' @ ?X)) = Some [0, 0, 0, 0, 0, 0, h, l]"
    using split_double_colon_hex [of h l] side by (simp add: parseSides_def parseSide_def [of "[]"] zeros)
  have "split_double_colon (''::ffff:'' @ ?X) = [[], ''ffff:'' @ ?X]"
    using x(2) X by (simp add: x(1))
  moreover have "parseSide (''ffff:'' @ ?X) = Some [65535, h, l]"
    using side split_on_append [of "CHR '':''" "''ffff''" ?X] ffff
    by (simp add: parseSide_def Let_def split: if_splits)
  ultimately show "parseSides (split_double_colon (''::ffff:'' @ ?X)) = Some [0, 0, 0, 0, 0, 65535, h, l]"
    by (simp add: parseSides_def parseSide_def [of "[]"] zeros)
  have "split_double_colon (''64:ff9b::'' @ ?X) = [''64:ff9b'', ?X]"
    using x(2) X by (simp add: x(1))
  moreover have "parseSide ''64:ff9b'' = Some [100, 65435]"
    by (simp add: parseSide_def hex_number_of_def hex_value_def digit_value_def is_lower_hex_def is_digit_def char_less_eq_nat)
  ultimately show "parseSides (split_double_colon (''64:ff9b::'' @ ?X)) = Some [100, 65435, 0, 0, 0, 0, h, l]"
    using side by (simp add: parseSides_def zeros)
qed

text \<open>
  An IPv4 address carried in IPv6 text (mapped, compatible or NAT64) is judged as that IPv4
  address, so none of these spellings reaches an address that the dotted spelling does not.
\<close>

theorem embedded_ipv4_judged_alike:
  assumes "a \<le> 255" "b \<le> 255" "c \<le> 255" "d \<le> 255"
  shows "isBlockedWebhookHost (''::ffff:'' @ dotted a b c d) = isBlockedWebhookHost (dotted a b c d) \<and>
    isBlockedWebhookHost (''::'' @ dotted a b c d) = isBlockedWebhookHost (dotted a b c d) \<and>
    isBlockedWebhookHost (''64:ff9b::'' @ dotted a b c d) = isBlockedWebhookHost (dotted a b c d)"
proof -
  have h: "a * 256 + b < 65536" "c * 256 + d < 65536" using assms by linarith+
  note emb = expandDotted_prefix [OF assms, of "'':''"] expandDotted_prefix [OF assms, of "''::ffff''"]
    expandDotted_prefix [OF assms, of "''64:ff9b:''"]
  have e: "embeddedIpv4 (p @ dotted a b c d) = Some (dotted a b c d)" if "p = ''::ffff:'' \<or> p = ''::'' \<or> p = ''64:ff9b::''" for p
    using that emb hex_pair_parse [OF h]
    by (auto simp: embeddedIpv4_def parseIpv6Hextets_def ipv4FromHextets_pair [OF assms])
  have pre: "list_all (\<lambda>c. is_digit c \<or> is_lower_hex c \<or> c = CHR ''.'' \<or> c = CHR '':'') p"
    if "p = ''::ffff:'' \<or> p = ''::'' \<or> p = ''64:ff9b::''" for p
    using that by (auto simp: is_digit_def is_lower_hex_def char_less_eq_nat)
  have "isBlockedWebhookHost (p @ dotted a b c d) = isBlockedWebhookHost (dotted a b c d)"
    if "p = ''::ffff:'' \<or> p = ''::'' \<or> p = ''64:ff9b::''" for p
  proof -
    have l: "is_digit (last (p @ dotted a b c d))" "dotted a b c d \<noteq> []"
      using last_dotted [OF assms(4)] by simp_all
    have "stripHostBrackets (p @ dotted a b c d) = p @ dotted a b c d"
      using pre [OF that] dotted_chars l not_digit(1) by (intro strip_bare) auto
    then have "isBlockedWebhookHost (p @ dotted a b c d) = check_address (dotted a b c d)"
      using blocked_address_text l by (simp add: e [OF that])
    moreover have "check_address (dotted a b c d) = isBlockedWebhookHost (dotted a b c d)"
      by (simp add: blocked_ipv4_iff_raw [OF assms] check_address_def parseIpv4_dotted [OF assms] check_ipv4_iff [OF assms])
    ultimately show ?thesis by simp
  qed
  from this [of "''::ffff:''"] this [of "''::''"] this [of "''64:ff9b::''"] show ?thesis by simp
qed

theorem embedded_ipv4_judged_alike_witness:
  "isBlockedWebhookHost ''::ffff:127.0.0.2'' \<and> isBlockedWebhookHost ''64:ff9b::10.0.0.7''"
proof -
  have d: "dotted 127 0 0 2 = ''127.0.0.2''" "dotted 10 0 0 7 = ''10.0.0.7''" by code_simp+
  show ?thesis
    using embedded_ipv4_judged_alike [of 127 0 0 2] embedded_ipv4_judged_alike [of 10 0 0 7]
      blocked_ipv4_iff_raw [of 127 0 0 2] blocked_ipv4_iff_raw [of 10 0 0 7]
    by (simp add: d private_quad_def)
qed

section \<open>Ids, texts and connections\<close>

text \<open>
  The accepted message ids are exactly the decimal texts of the IMAP UIDs 1 to 2^32 - 1: no
  sequence set, no leading zero, no sign and no overflow gets through.
\<close>

theorem parseMessageUid_iff:
  "parseMessageUid s = Inr t \<longleftrightarrow> t = s \<and> (\<exists>n. 0 < n \<and> n < 2 ^ 32 \<and> s = show_nat n)"
proof
  assume "parseMessageUid s = Inr t"
  then have s: "t = s" "uid_shape s" "number_of s \<le> MAX_MESSAGE_UID"
    by (auto simp: parseMessageUid_def split: if_splits)
  then have sh: "show_nat (number_of s) = s"
    by (intro show_nat_number_of) (auto simp: uid_shape_def)
  have "number_of s \<noteq> 0"
  proof
    assume "number_of s = 0"
    then have "s = ''0''" using sh digit_char_0 by (simp add: show_nat.simps)
    with s(2) show False by (simp add: uid_shape_def)
  qed
  then show "t = s \<and> (\<exists>n. 0 < n \<and> n < 2 ^ 32 \<and> s = show_nat n)"
    using s sh by (intro conjI exI [of _ "number_of s"]) (simp_all add: MAX_MESSAGE_UID_def)
next
  assume "t = s \<and> (\<exists>n. 0 < n \<and> n < 2 ^ 32 \<and> s = show_nat n)"
  then obtain n where n: "t = s" "0 < n" "n < 2 ^ 32" "s = show_nat n" by blast
  have "length s \<le> 10" using show_nat_length [of n 10] n by simp
  then have "uid_shape s"
    using show_nat_digits [of n] show_nat_hd [OF n(2)]
    unfolding n(4) [symmetric] by (cases s) (simp_all add: uid_shape_def)
  with n show "parseMessageUid s = Inr t"
    by (simp add: parseMessageUid_def MAX_MESSAGE_UID_def)
qed

text \<open>One pass over the text, and the reader that undoes it.\<close>

definition escape_char :: "char \<Rightarrow> string" where
  "escape_char c =
     (if c = CHR ''&'' then ''&amp;'' else if c = CHR ''<'' then ''&lt;'' else if c = CHR ''>'' then ''&gt;''
      else if c = CHR 0x22 then ''&quot;'' else if c = CHR 0x27 then ''&#39;'' else [c])"

lemma replace_char_Nil [simp]: "replace_char c by [] = []"
  by (simp add: replace_char_def)

lemma replace_char_append: "replace_char c by (s @ t) = replace_char c by s @ replace_char c by t"
  by (simp add: replace_char_def)

lemma sanitize_one_pass: "sanitizeTemplateVariable s True = concat (map escape_char s)"
proof (induction s)
  case (Cons x s)
  have "sanitizeTemplateVariable (x # s) True = sanitizeTemplateVariable [x] True @ sanitizeTemplateVariable s True"
    using replace_char_append [of _ _ "[x]" s] by (simp add: sanitizeTemplateVariable_def replace_char_append)
  moreover have "sanitizeTemplateVariable [x] True = escape_char x"
    by (simp add: sanitizeTemplateVariable_def replace_char_def escape_char_def)
  ultimately show ?case using Cons by simp
qed (simp add: sanitizeTemplateVariable_def)

lemma escape_char_prefix: "escape_char a @ u = escape_char b @ v \<Longrightarrow> a = b \<and> u = v"
  by (simp add: escape_char_def split: if_splits)

lemma escape_char_nonempty: "escape_char a \<noteq> []"
  by (simp add: escape_char_def)

lemma escape_inj: "concat (map escape_char s) = concat (map escape_char t) \<Longrightarrow> s = t"
proof (induction s arbitrary: t)
  case Nil
  then show ?case using escape_char_nonempty by (cases t) auto
next
  case (Cons x s)
  then obtain y t' where t: "t = y # t'" using escape_char_nonempty by (cases t) auto
  with Cons.prems have "escape_char x @ concat (map escape_char s) = escape_char y @ concat (map escape_char t')" by simp
  from escape_char_prefix [OF this] Cons.IH t show ?case by blast
qed

text \<open>
  Escaping a template value in five passes is one pass over its characters; the result holds no
  markup character, two values never give the same text, and without HTML the value is unchanged.
\<close>

theorem template_escaping:
  "sanitizeTemplateVariable s True = concat (map escape_char s) \<and>
   list_all (\<lambda>c. c \<notin> {CHR ''<'', CHR ''>'', CHR 0x22, CHR 0x27}) (sanitizeTemplateVariable s True) \<and>
   inj (\<lambda>v. sanitizeTemplateVariable v True) \<and> sanitizeTemplateVariable s False = s"
proof -
  have "c \<in> set (escape_char x) \<Longrightarrow> c \<notin> {CHR ''<'', CHR ''>'', CHR 0x22, CHR 0x27}" for c x
    by (auto simp: escape_char_def split: if_splits)
  then have "list_all (\<lambda>c. c \<notin> {CHR ''<'', CHR ''>'', CHR 0x22, CHR 0x27}) (sanitizeTemplateVariable s True)"
    by (auto simp: sanitize_one_pass list_all_iff)
  moreover have "inj (\<lambda>v. sanitizeTemplateVariable v True)"
    by (rule injI) (simp add: sanitize_one_pass escape_inj)
  ultimately show ?thesis by (simp add: sanitize_one_pass) (simp add: sanitizeTemplateVariable_def)
qed

text \<open>
  A socket opened for a webhook connects only to an address that was checked: whatever the
  resolver answers, every delivered address was in that answer and is outside the blocked ranges,
  and an answer with one blocked address is refused whole.
\<close>

theorem connect_lookup_delivers_checked:
  "case createWebhookConnectLookup resolve False wantAll host of
     Inr records \<Rightarrow> (\<exists>addresses. resolve (stripHostBrackets host) = Addresses addresses \<and>
         set (map fst records) \<subseteq> set addresses \<and> list_all (\<lambda>a. \<not> isBlockedWebhookHost a) addresses \<and>
         records \<noteq> [] \<and> list_all (\<lambda>(a, f). f = (if isIP a = 6 then 6 else 4)) records \<and>
         (wantAll \<and> map fst records = addresses \<or> \<not> wantAll \<and> records = [(hd addresses, if isIP (hd addresses) = 6 then 6 else 4)]))
   | Inl e \<Rightarrow> (case resolve (stripHostBrackets host) of
         Addresses addresses \<Rightarrow> e = PrivateAddress host \<and> (addresses = [] \<or> list_ex isBlockedWebhookHost addresses)
       | LookupError msg \<Rightarrow> e = LookupFailed msg
       | NoAnswer \<Rightarrow> e = LookupTimeout)"
proof (cases "resolve (stripHostBrackets host)")
  case (Addresses as)
  show ?thesis
  proof (cases "as = [] \<or> list_ex isBlockedWebhookHost as")
    case True
    with Addresses show ?thesis by (auto simp: createWebhookConnectLookup_def)
  next
    case False
    then have "list_all (\<lambda>a. \<not> isBlockedWebhookHost a) as" "as \<noteq> []" by (auto simp: list_all_iff list_ex_iff)
    with Addresses False show ?thesis
      by (cases as) (auto simp: createWebhookConnectLookup_def Let_def list_all_iff comp_def)
  qed
qed (simp_all add: createWebhookConnectLookup_def)

text \<open>
  An accepted label or mailbox name is trimmed, not empty and free of control characters; a
  label has at most 200 characters and no path segment that is empty, dot or dot-dot; a mailbox
  holds no IMAP wildcard; and checking an accepted name again accepts it unchanged.
\<close>

theorem accepted_names_clean:
  "(case validateLabelName name of Inl _ \<Rightarrow> True
    | Inr t \<Rightarrow> t = trim name \<and> t \<noteq> [] \<and> length t \<le> 200 \<and> \<not> has_control t \<and>
        list_all (\<lambda>seg. seg \<notin> {[], ''.'', ''..''}) (split_on CHR ''/'' t) \<and> validateLabelName t = Inr t) \<and>
   (case sanitizeMailboxName name of Inl _ \<Rightarrow> True
    | Inr t \<Rightarrow> t = trim name \<and> t \<noteq> [] \<and> \<not> has_control t \<and> CHR ''*'' \<notin> set t \<and> CHR ''%'' \<notin> set t \<and>
        sanitizeMailboxName t = Inr t)"
  by (auto simp: validateLabelName_def sanitizeMailboxName_def Let_def trim_trim list_all_iff list_ex_iff)

end
