(* ===== verification/LocalPaths.thy ===== *)
theory LocalPaths
  imports Texts
begin

text \<open>
  Which local files may be read or written (src/safety/local-paths.ts). The POSIX path functions
  of the runtime (\<open>resolve\<close>, \<open>relative\<close>, \<open>normalize\<close>, \<open>basename\<close>) are written out over segments;
  \<open>cwd\<close> is the working directory. The file system's \<open>realpath\<close> is the parameter \<open>realpath\<close>,
  \<open>None\<close> when it fails. A character is a Latin-1 code unit, two UTF-8 bytes from 128 on.
\<close>

section \<open>The runtime's path functions\<close>

definition segments :: "string \<Rightarrow> string list" where
  [model_defs]: "segments s = filter (\<lambda>p. p \<noteq> []) (split_on CHR ''/'' s)"

definition push_segment :: "bool \<Rightarrow> string list \<Rightarrow> string \<Rightarrow> string list" where
  [model_defs]: "push_segment allowAbove st seg =
     (if seg = ''.'' then st
      else if seg = ''..'' then
        (if st \<noteq> [] \<and> last st \<noteq> ''..'' then butlast st else if allowAbove then st @ [''..''] else st)
      else st @ [seg])"

definition normalize_segments :: "bool \<Rightarrow> string list \<Rightarrow> string list" where
  [model_defs]: "normalize_segments allowAbove segs = foldl (push_segment allowAbove) [] segs"

definition isAbsolute :: "string \<Rightarrow> bool" where
  [model_defs]: "isAbsolute s \<longleftrightarrow> starts_with ''/'' s"

definition resolve_segments :: "string \<Rightarrow> string \<Rightarrow> string list" where
  [model_defs]: "resolve_segments cwd s =
     normalize_segments False ((if isAbsolute s then [] else segments cwd) @ segments s)"

definition resolve_path :: "string \<Rightarrow> string \<Rightarrow> string" where
  [model_defs]: "resolve_path cwd s = ''/'' @ join_with ''/'' (resolve_segments cwd s)"

definition posix_normalize :: "string \<Rightarrow> string" where
  [model_defs]: "posix_normalize s =
     (let segs = normalize_segments (\<not> isAbsolute s) (segments s); trail = ends_with ''/'' s;
          body = join_with ''/'' segs
      in if s = [] then ''.''
         else if body = [] then (if isAbsolute s then ''/'' else if trail then ''./'' else ''.'')
         else (if isAbsolute s then ''/'' else []) @ body @ (if trail then ''/'' else []))"

fun drop_common :: "string list \<Rightarrow> string list \<Rightarrow> string list \<times> string list" where
  "drop_common (x # xs) (y # ys) = (if x = y then drop_common xs ys else (x # xs, y # ys))"
| "drop_common xs ys = (xs, ys)"

definition relative_segments :: "string list \<Rightarrow> string list \<Rightarrow> string list" where
  [model_defs]: "relative_segments source target =
     (case drop_common source target of (up, down) \<Rightarrow> replicate (length up) ''..'' @ down)"

definition path_relative :: "string \<Rightarrow> string \<Rightarrow> string \<Rightarrow> string" where
  [model_defs]: "path_relative cwd source target =
     join_with ''/'' (relative_segments (resolve_segments cwd source) (resolve_segments cwd target))"

definition posix_basename :: "string \<Rightarrow> string" where
  [model_defs]: "posix_basename s =
     (let t = rev (dropWhile (\<lambda>c. c = CHR ''/'') (rev s)) in rev (takeWhile (\<lambda>c. c \<noteq> CHR ''/'') (rev t)))"

section \<open>Refused locations\<close>

definition BROAD_ROOT_NAMES :: "string list" where
  "BROAD_ROOT_NAMES = [''Users'', ''home'', ''private'', ''var'', ''tmp'', ''opt'', ''usr'', ''etc'', ''proc'', ''sys'',
     ''dev'', ''boot'', ''root'']"

definition SYSTEM_PREFIXES :: "string list" where
  "SYSTEM_PREFIXES = [''/etc'', ''/private/etc'', ''/proc'', ''/sys'', ''/dev'', ''/boot'']"

definition APP_DATA_TREES :: "string list" where
  "APP_DATA_TREES = [''Library'', ''AppData'', ''snap'']"

definition resolvedHome :: "(string \<Rightarrow> string option) \<Rightarrow> string \<Rightarrow> string" where
  "resolvedHome realpath homeDir = (case realpath homeDir of None \<Rightarrow> homeDir | Some r \<Rightarrow> r)"

definition slashes :: "string \<Rightarrow> string" where
  [model_defs]: "slashes s = map (\<lambda>c. if c = CHR 0x5C then CHR ''/'' else c) s"

definition hiddenSegment :: "string \<Rightarrow> bool" where
  "hiddenSegment filePath \<longleftrightarrow>
     list_ex (\<lambda>part. starts_with ''.'' part \<and> part \<noteq> ''.'' \<and> part \<noteq> ''..'') (split_on CHR ''/'' (slashes filePath))"

definition isSystemPath :: "string \<Rightarrow> bool" where
  "isSystemPath filePath \<longleftrightarrow>
     (let normalized = posix_normalize (slashes filePath) in
      list_ex (\<lambda>prefix. normalized = prefix \<or> starts_with (prefix @ ''/'') normalized) SYSTEM_PREFIXES)"

definition isAppDataTree :: "string \<Rightarrow> string \<Rightarrow> string \<Rightarrow> bool" where
  "isAppDataTree cwd filePath homeDir \<longleftrightarrow>
     (let relative = path_relative cwd (resolve_path cwd homeDir) (resolve_path cwd filePath) in
      if relative = [] \<or> starts_with ''..'' relative \<or> isAbsolute relative then False
      else let parts = split_on CHR ''/'' relative; top = hd parts; second = hd (tl parts @ [[]]) in
        if top = [] \<or> top \<notin> set APP_DATA_TREES then False
        else if top = ''Library'' then \<not> (second = ''Mobile Documents'' \<or> second = ''CloudStorage'')
        else True)"

definition isDisallowedLocalPath :: "string \<Rightarrow> string \<Rightarrow> string \<Rightarrow> bool" where
  "isDisallowedLocalPath cwd filePath homeDir \<longleftrightarrow>
     hiddenSegment filePath \<or> isSystemPath filePath \<or> isAppDataTree cwd filePath homeDir"

section \<open>Roots\<close>

definition broadRootPaths :: "(string \<Rightarrow> string option) \<Rightarrow> string list" where
  "broadRootPaths realpath =
     (let children = map (\<lambda>name. ''/'' @ name) BROAD_ROOT_NAMES
      in children @ List.map_filter realpath children)"

definition specificRoot :: "(string \<Rightarrow> string option) \<Rightarrow> string \<Rightarrow> string \<Rightarrow> string list \<Rightarrow> string option" where
  "specificRoot realpath cwd rt broad =
     (let resolved = resolve_path cwd rt in
      if resolved = ''/'' \<or> resolved \<in> set broad then None
      else case realpath resolved of
        None \<Rightarrow> Some resolved
      | Some canon \<Rightarrow> if canon \<in> set broad then None else Some canon)"

definition specificRoots :: "(string \<Rightarrow> string option) \<Rightarrow> string \<Rightarrow> string \<Rightarrow> string list" where
  "specificRoots realpath cwd home =
     (let candidates = (let c = resolve_path cwd cwd; h = resolve_path cwd home in if c = h then [c] else [c, h])
      in List.map_filter (\<lambda>c. specificRoot realpath cwd c (broadRootPaths realpath)) candidates)"

definition isInsideRoot :: "string \<Rightarrow> string \<Rightarrow> string \<Rightarrow> bool \<Rightarrow> bool" where
  "isInsideRoot cwd candidate rt allowRoot \<longleftrightarrow>
     (let relative = path_relative cwd rt candidate in
      if relative = [] then allowRoot
      else relative \<noteq> ''..'' \<and> \<not> starts_with ''../'' relative \<and> \<not> isAbsolute relative)"

definition isInsideAny :: "string \<Rightarrow> string \<Rightarrow> string list \<Rightarrow> bool" where
  "isInsideAny cwd candidate roots \<longleftrightarrow> list_ex (\<lambda>rt. isInsideRoot cwd candidate rt False) roots"

datatype path_error = PathNotAllowed

definition assertAllowedLocalPath :: "string \<Rightarrow> string \<Rightarrow> string list \<Rightarrow> string \<Rightarrow> path_error + unit" where
  "assertAllowedLocalPath cwd filePath roots homeDir =
     (if isDisallowedLocalPath cwd filePath homeDir \<or> \<not> isInsideAny cwd filePath roots
      then Inl PathNotAllowed else Inr ())"

section \<open>Attachment file names\<close>

definition SANITIZED_ATTACHMENT_NAME_MAX_BYTES :: nat where "SANITIZED_ATTACHMENT_NAME_MAX_BYTES = 255"

definition FILENAME_UNSAFE :: "char list" where
  "FILENAME_UNSAFE = [CHR ''/'', CHR 0x5C, CHR ''?'', CHR ''%'', CHR ''*'', CHR '':'', CHR ''|'', CHR 0x22, CHR ''<'', CHR ''>'']"

definition isUnsafeFilenameChar :: "char \<Rightarrow> bool" where
  "isUnsafeFilenameChar c \<longleftrightarrow> of_char c \<le> (31 :: nat) \<or> of_char c = (127 :: nat) \<or> c \<in> set FILENAME_UNSAFE"

definition char_bytes :: "char \<Rightarrow> nat" where
  [model_defs]: "char_bytes c = (if of_char c < (128 :: nat) then 1 else 2)"

definition byteLength :: "string \<Rightarrow> nat" where
  [model_defs]: "byteLength s = sum_list (map char_bytes s)"

fun prefixWithinUtf8Bytes :: "string \<Rightarrow> nat \<Rightarrow> string" where
  "prefixWithinUtf8Bytes [] maxBytes = []"
| "prefixWithinUtf8Bytes (c # cs) maxBytes =
     (if char_bytes c > maxBytes then [] else c # prefixWithinUtf8Bytes cs (maxBytes - char_bytes c))"

definition lastDot :: "string \<Rightarrow> nat option" where
  [model_defs]: "lastDot s = (case break_last CHR ''.'' s of None \<Rightarrow> None | Some (pre, _) \<Rightarrow> Some (length pre - 1))"

definition limitAttachmentFilename :: "string \<Rightarrow> string" where
  "limitAttachmentFilename cleaned =
     (if byteLength cleaned \<le> SANITIZED_ATTACHMENT_NAME_MAX_BYTES then cleaned
      else let whole = prefixWithinUtf8Bytes cleaned SANITIZED_ATTACHMENT_NAME_MAX_BYTES in
        case lastDot cleaned of
          None \<Rightarrow> whole
        | Some dot \<Rightarrow>
            if dot = 0 then whole
            else let extension = drop dot cleaned in
              if byteLength extension < SANITIZED_ATTACHMENT_NAME_MAX_BYTES then
                (let stem = prefixWithinUtf8Bytes (take dot cleaned) (SANITIZED_ATTACHMENT_NAME_MAX_BYTES - byteLength extension)
                 in if stem \<noteq> [] then stem @ extension else whole)
              else whole)"

definition sanitizeAttachmentFilename :: "string \<Rightarrow> string" where
  "sanitizeAttachmentFilename filename =
     (let base = posix_basename (filter (\<lambda>c. c \<noteq> CHR 0x00) (slashes filename));
          cleaned = trim (dropWhile (\<lambda>c. c = CHR ''.'') (map (\<lambda>c. if isUnsafeFilenameChar c then CHR ''_'' else c) base))
      in if cleaned = [] \<or> cleaned = ''.'' \<or> cleaned = ''..'' then ''attachment''
         else limitAttachmentFilename cleaned)"

section \<open>Properties\<close>

definition plain_segment :: "string \<Rightarrow> bool" where
  "plain_segment s \<longleftrightarrow> s \<noteq> [] \<and> s \<noteq> ''.'' \<and> s \<noteq> ''..'' \<and> CHR ''/'' \<notin> set s"

lemma segments_no_slash: "p \<in> set (segments s) \<Longrightarrow> p \<noteq> [] \<and> CHR ''/'' \<notin> set p"
  by (auto simp: segments_def split_on_parts)

lemma push_segment_plain:
  "list_all plain_segment st \<Longrightarrow> seg \<noteq> [] \<Longrightarrow> CHR ''/'' \<notin> set seg \<Longrightarrow> list_all plain_segment (push_segment False st seg)"
  by (auto simp: push_segment_def plain_segment_def list_all_iff dest: in_set_butlastD)

lemma normalize_plain:
  "list_all plain_segment st \<Longrightarrow> list_all (\<lambda>p. p \<noteq> [] \<and> CHR ''/'' \<notin> set p) segs \<Longrightarrow>
   list_all plain_segment (foldl (push_segment False) st segs)"
  by (induction segs arbitrary: st) (simp_all add: push_segment_plain)

lemma resolve_plain: "list_all plain_segment (resolve_segments cwd s)"
  unfolding resolve_segments_def normalize_segments_def
  by (rule normalize_plain) (auto simp: list_all_iff dest: segments_no_slash)

lemma drop_common_spec:
  "drop_common xs ys = (up, down) \<Longrightarrow> \<exists>c. xs = c @ up \<and> ys = c @ down \<and> (up = [] \<or> down = [] \<or> hd up \<noteq> hd down)"
proof (induction xs ys arbitrary: up down rule: drop_common.induct)
  case (1 x xs y ys)
  show ?case
  proof (cases "x = y")
    case True
    with 1 obtain c where "xs = c @ up \<and> ys = c @ down \<and> (up = [] \<or> down = [] \<or> hd up \<noteq> hd down)" by auto
    with True show ?thesis by (intro exI [of _ "x # c"]) simp
  next
    case False
    with 1 show ?thesis by auto
  qed
qed auto

lemma join_head: "segs \<noteq> [] \<Longrightarrow> \<exists>r. join_with ''/'' segs = hd segs @ r \<and> (r = [] \<or> hd r = CHR ''/'')"
proof (cases segs)
  case (Cons x xs)
  then show ?thesis by (cases xs) auto
qed simp

lemma starts_with_Nil [simp]: "starts_with p [] \<longleftrightarrow> p = []"
  by (auto simp: starts_with_def)

lemma dotdot_head: "plain_segment x \<Longrightarrow> (r = [] \<or> hd r = CHR ''/'') \<Longrightarrow> x @ r \<noteq> ''..'' \<and> \<not> starts_with ''../'' (x @ r) \<and> \<not> isAbsolute (x @ r)"
proof -
  assume x: "plain_segment x" and r: "r = [] \<or> hd r = CHR ''/''"
  obtain a y where a: "x = a # y" "a \<noteq> CHR ''/''" "CHR ''/'' \<notin> set y" "x \<noteq> ''.''" "x \<noteq> ''..''"
    using x by (cases x) (auto simp: plain_segment_def)
  then show ?thesis using r
    by (cases y; cases "tl y"; cases r) (auto simp: starts_with_iff isAbsolute_def)
qed

lemma isInsideRoot_segments:
  "isInsideRoot cwd candidate base allowRoot \<longleftrightarrow>
    (\<exists>suffix. resolve_segments cwd candidate = resolve_segments cwd base @ suffix \<and> (allowRoot \<or> suffix \<noteq> []))"
proof -
  let ?b = "resolve_segments cwd base" and ?c = "resolve_segments cwd candidate"
  obtain up down where d: "drop_common ?b ?c = (up, down)" by fastforce
  then obtain c where c: "?b = c @ up" "?c = c @ down" "up = [] \<or> down = [] \<or> hd up \<noteq> hd down"
    using drop_common_spec [OF d] by blast
  let ?rel = "replicate (length up) ''..'' @ down"
  have rel: "path_relative cwd base candidate = join_with ''/'' ?rel"
    by (simp add: path_relative_def relative_segments_def d)
  have plain: "list_all plain_segment down" using resolve_plain [of cwd candidate] c(2) by simp
  have prefix: "(\<exists>suffix. ?c = ?b @ suffix \<and> (allowRoot \<or> suffix \<noteq> [])) \<longleftrightarrow> up = [] \<and> (allowRoot \<or> down \<noteq> [])"
    using c by (cases up; cases down) auto
  show ?thesis
  proof (cases up)
    case Nil
    show ?thesis
    proof (cases down)
      case Nil
      with \<open>up = []\<close> show ?thesis unfolding prefix by (simp add: isInsideRoot_def rel)
    next
      case (Cons x xs)
      then obtain r where r: "join_with ''/'' down = x @ r" "r = [] \<or> hd r = CHR ''/''"
        using join_head [of down] by auto
      have "plain_segment x" using plain Cons by simp
      with dotdot_head [OF this r(2)] r(1) Nil Cons show ?thesis
        unfolding prefix by (simp add: isInsideRoot_def rel plain_segment_def Let_def)
    qed
  next
    case (Cons x xs)
    then have "hd ?rel = ''..''" "?rel \<noteq> []" by simp_all
    then obtain r where r: "join_with ''/'' ?rel = ''..'' @ r" "r = [] \<or> hd r = CHR ''/''"
      using join_head [of ?rel] by metis
    have "\<not> isInsideRoot cwd candidate base allowRoot"
      using r(2) unfolding isInsideRoot_def rel r(1) by (cases r) (auto simp: starts_with_iff Let_def)
    with Cons show ?thesis unfolding prefix by simp
  qed
qed

text \<open>
  \<open>isInsideRoot\<close> holds exactly when the segments of the root are a prefix of those of the
  candidate, both resolved: no \<open>..\<close>, no doubled slash and no sibling whose name merely begins like
  the root leads out of it, and a name such as \<open>..notes\<close> stays inside.
\<close>

theorem isInsideRoot_iff:
  "isInsideRoot cwd candidate base allowRoot \<longleftrightarrow>
    (\<exists>suffix. resolve_segments cwd candidate = resolve_segments cwd base @ suffix \<and>
       (if suffix = [] then allowRoot else True))"
proof -
  have "(if suffix = [] then allowRoot else True) \<longleftrightarrow> (allowRoot \<or> suffix \<noteq> [])" for suffix :: "string list" by simp
  then show ?thesis by (simp only: isInsideRoot_segments)
qed

lemma slashes_same: "CHR 0x5C \<notin> set s \<Longrightarrow> slashes s = s"
  by (induction s) (auto simp: slashes_def)

lemma normalize_subset: "set (foldl (push_segment b) st segs) \<subseteq> set st \<union> set segs \<union> {''..''}"
proof (induction segs arbitrary: st)
  case (Cons seg segs)
  have "set (push_segment b st seg) \<subseteq> set st \<union> {seg, ''..''}"
    by (auto simp: push_segment_def dest: in_set_butlastD)
  with Cons [of "push_segment b st seg"] show ?case by auto
qed auto

lemma not_hidden_segments:
  assumes "\<not> hiddenSegment f" "CHR 0x5C \<notin> set f" "isAbsolute f"
  shows "list_all (\<lambda>seg. \<not> starts_with ''.'' seg) (resolve_segments cwd f)"
proof -
  have "\<not> starts_with ''.'' seg" if seg: "seg \<in> set (resolve_segments cwd f)" for seg
  proof -
    have plain: "plain_segment seg" using resolve_plain [of cwd f] seg by (auto simp: list_all_iff)
    then have "seg \<in> set (segments f)"
      using seg normalize_subset [of False "[]" "segments f"] assms(3)
      by (auto simp: resolve_segments_def normalize_segments_def plain_segment_def)
    then have "seg \<in> set (split_on CHR ''/'' f)" by (simp add: segments_def)
    with assms(1) plain show ?thesis
      by (auto simp: hiddenSegment_def slashes_same [OF assms(2)] list_ex_iff plain_segment_def)
  qed
  then show ?thesis by (simp add: list_all_iff)
qed

lemma join_append:
  "xs \<noteq> [] \<Longrightarrow> ys \<noteq> [] \<Longrightarrow> join_with sep (xs @ ys) = join_with sep xs @ sep @ join_with sep ys"
proof (induction xs)
  case (Cons x xs)
  then show ?case by (cases xs; cases ys) auto
qed simp

lemma system_path_prefix:
  assumes f: "isAbsolute f" "CHR 0x5C \<notin> set f" "resolve_segments cwd f = pre @ rest" "''/'' @ join_with ''/'' pre \<in> set SYSTEM_PREFIXES" "pre \<noteq> []"
  shows "isSystemPath f"
proof -
  let ?segs = "resolve_segments cwd f"
  let ?sys = "''/'' @ join_with ''/'' pre" and ?trail = "if ends_with ''/'' f then ''/'' else []"
  have plain: "list_all plain_segment ?segs" by (rule resolve_plain)
  have "hd ?segs \<noteq> []" using plain f(3,5) by (cases pre) (auto simp: plain_segment_def)
  moreover obtain r where "join_with ''/'' ?segs = hd ?segs @ r" using join_head [of ?segs] f(3,5) by auto
  ultimately have ne: "join_with ''/'' ?segs \<noteq> []" by simp
  have "f \<noteq> []" using f(1) by (auto simp: isAbsolute_def starts_with_def)
  moreover have "normalize_segments False (segments f) = ?segs" using f(1) by (simp add: resolve_segments_def)
  ultimately have n: "posix_normalize f = ''/'' @ join_with ''/'' ?segs @ ?trail"
    using f(1) ne by (simp add: posix_normalize_def Let_def)
  have "posix_normalize f = ?sys \<or> starts_with (?sys @ ''/'') (posix_normalize f)"
    using f(5) by (cases "rest = []") (auto simp: n f(3) join_append starts_with_iff)
  with f(4) show ?thesis
    unfolding isSystemPath_def slashes_same [OF f(2)] Let_def list_ex_iff by blast
qed



section \<open>File names\<close>

lemma byteLength_simps [simp]:
  "byteLength [] = 0" "byteLength (c # s) = char_bytes c + byteLength s" "byteLength (s @ t) = byteLength s + byteLength t"
  by (simp_all add: byteLength_def)

lemma char_bytes_range: "1 \<le> char_bytes c \<and> char_bytes c \<le> 2"
  by (simp add: char_bytes_def)

lemma prefix_bytes:
  "byteLength (prefixWithinUtf8Bytes s m) \<le> m \<and> set (prefixWithinUtf8Bytes s m) \<subseteq> set s \<and>
   (byteLength s > m \<longrightarrow> m \<le> Suc (byteLength (prefixWithinUtf8Bytes s m)))"
proof (induction s m rule: prefixWithinUtf8Bytes.induct)
  case (2 c cs m)
  then show ?case using char_bytes_range [of c] by auto
qed simp

lemma limit_filename:
  "set (limitAttachmentFilename s) \<subseteq> set s \<and> byteLength (limitAttachmentFilename s) \<le> 255 \<and>
   (limitAttachmentFilename s = s \<or> byteLength (limitAttachmentFilename s) \<ge> 254)"
proof (cases "byteLength s \<le> 255")
  case True
  then show ?thesis by (simp add: limitAttachmentFilename_def SANITIZED_ATTACHMENT_NAME_MAX_BYTES_def)
next
  case False
  let ?whole = "prefixWithinUtf8Bytes s 255"
  have whole: "set ?whole \<subseteq> set s \<and> byteLength ?whole \<le> 255 \<and> byteLength ?whole \<ge> 254"
    using prefix_bytes [of s 255] False by simp
  show ?thesis
  proof (cases "limitAttachmentFilename s = ?whole")
    case False
    then obtain dot where d: "byteLength (drop dot s) < 255"
      "limitAttachmentFilename s = prefixWithinUtf8Bytes (take dot s) (255 - byteLength (drop dot s)) @ drop dot s"
      using \<open>\<not> byteLength s \<le> 255\<close>
      by (auto simp: limitAttachmentFilename_def Let_def SANITIZED_ATTACHMENT_NAME_MAX_BYTES_def split: option.splits if_splits)
    have "byteLength s = byteLength (take dot s) + byteLength (drop dot s)"
      by (metis append_take_drop_id byteLength_simps(3))
    then show ?thesis
      using d prefix_bytes [of "take dot s" "255 - byteLength (drop dot s)"] \<open>\<not> byteLength s \<le> 255\<close>
        set_take_subset [of dot s] set_drop_subset [of dot s] by auto
  qed (use whole in simp)
qed

text \<open>
  A sanitized attachment name is one non-empty path segment: no separator, control or reserved
  character, never \<open>.\<close> or \<open>..\<close>, and at most 255 bytes.
\<close>

theorem sanitized_filename_safe:
  "list_all (\<lambda>c. \<not> isUnsafeFilenameChar c) (sanitizeAttachmentFilename f) \<and>
   plain_segment (sanitizeAttachmentFilename f) \<and> byteLength (sanitizeAttachmentFilename f) \<le> 255"
proof -
  define cleaned where "cleaned = trim (dropWhile (\<lambda>c. c = CHR ''.'') (map (\<lambda>c. if isUnsafeFilenameChar c then CHR ''_'' else c)
    (posix_basename (filter (\<lambda>c. c \<noteq> CHR 0x00) (slashes f)))))"
  let ?r = "sanitizeAttachmentFilename f"
  have u: "\<not> isUnsafeFilenameChar CHR ''_''" by (simp add: isUnsafeFilenameChar_def FILENAME_UNSAFE_def)
  have safe: "\<not> isUnsafeFilenameChar c" if "c \<in> set cleaned" for c
  proof -
    have "c \<in> set (map (\<lambda>c. if isUnsafeFilenameChar c then CHR ''_'' else c)
        (posix_basename (filter (\<lambda>c. c \<noteq> CHR 0x00) (slashes f))))"
      using that unfolding cleaned_def trim_def by (auto dest!: set_dropWhileD)
    with u show ?thesis by auto
  qed
  show ?thesis
  proof (cases "cleaned = [] \<or> cleaned = ''.'' \<or> cleaned = ''..''")
    case True
    then have "?r = ''attachment''" by (auto simp: sanitizeAttachmentFilename_def cleaned_def Let_def)
    then show ?thesis
      by (simp add: isUnsafeFilenameChar_def FILENAME_UNSAFE_def plain_segment_def char_bytes_def)
  next
    case False
    then have r: "?r = limitAttachmentFilename cleaned"
      unfolding sanitizeAttachmentFilename_def cleaned_def Let_def by (simp only: if_False)
    have "list_all (\<lambda>c. \<not> isUnsafeFilenameChar c) ?r"
      using limit_filename [of cleaned] safe unfolding r by (auto simp: list_all_iff)
    moreover have "isUnsafeFilenameChar CHR ''/''" by (simp add: isUnsafeFilenameChar_def FILENAME_UNSAFE_def)
    moreover have "?r \<noteq> [] \<and> ?r \<noteq> ''.'' \<and> ?r \<noteq> ''..''"
      using limit_filename [of cleaned] False unfolding r by (auto simp: char_bytes_def)
    ultimately show ?thesis using limit_filename [of cleaned] unfolding r by (auto simp: plain_segment_def list_all_iff)
  qed
qed

text \<open>Leading dots are dropped before the name is trimmed, so a dot behind a space survives.\<close>

lemma leading_dot_behind_space: "sanitizeAttachmentFilename ''.bashrc'' = ''bashrc'' \<and> sanitizeAttachmentFilename '' .bashrc'' = ''.bashrc''"
  by code_simp

end
