(* ===== verification/HttpGuard.thy ===== *)
theory HttpGuard
  imports Texts
begin

text \<open>
  The listen policy and the request guard of the HTTP mode (src/safety/http-transport.ts). The runtime's
  URL parser is the parameter \<open>parseUrl\<close> (\<open>None\<close> when it throws). A request body arrives as a list of
  stream events, and a listening socket is an answer of the operating system. The lemmas show when a
  listener may face the network, which requests pass the guard, and that a body never exceeds its bound.
\<close>

section \<open>Limits and routes\<close>

definition DEFAULT_HTTP_BODY_LIMIT_BYTES :: int where "DEFAULT_HTTP_BODY_LIMIT_BYTES = 8 * 1024 * 1024"
definition DEFAULT_HTTP_PORT :: int where "DEFAULT_HTTP_PORT = 8080"

definition LOOPBACK_BIND_HOSTS :: "string list" where "LOOPBACK_BIND_HOSTS = [''127.0.0.1'', ''::1'']"
definition LOOPBACK_HOST_HEADERS :: "string list" where "LOOPBACK_HOST_HEADERS = [''127.0.0.1'', ''localhost'', ''[::1]'']"

definition ROUTE_METHODS :: "(string, string list) jsmap" where
  "ROUTE_METHODS = [(''/mcp'', [''GET'', ''POST'', ''DELETE'']), (''/health'', [''GET''])]"

definition METHODS :: "string list" where "METHODS = concat (js_values ROUTE_METHODS)"

record url =
  u_protocol :: string
  u_username :: string
  u_password :: string
  u_hostname :: string
  u_port :: string
  u_pathname :: string
  u_search :: string
  u_hash :: string
  u_origin :: string

type_synonym url_parser = "string \<Rightarrow> url option"

record httpListenPolicy =
  pl_hosts :: "string list"
  pl_port :: int
  pl_token :: "string option"
  pl_allowedHostnames :: "string list"
  pl_portAgnosticHostnames :: "string list"
  pl_bodyLimitBytes :: int

section \<open>Host names\<close>

datatype listen_error =
    InvalidHost string | InvalidPort | BadToken | TokenNeeded "string list" | TokenNeededFor "string list"
  | AllowlistNeeded | InvalidBodyLimit

definition host_and_port :: "string \<Rightarrow> bool" where
  "host_and_port s \<longleftrightarrow>
     (case split_on CHR '':'' s of
        [h, p] \<Rightarrow> h \<noteq> [] \<and> 1 \<le> length p \<and> length p \<le> 5 \<and> list_all is_digit p
      | _ \<Rightarrow> False)"

definition hostTokenShape :: "string \<Rightarrow> string" where
  "hostTokenShape trimmed =
     (if starts_with ''['' trimmed then trimmed
      else if host_and_port trimmed then trimmed
      else if CHR '':'' \<in> set trimmed then ''['' @ trimmed @ '']''
      else trimmed)"

definition drop_final_dot :: "string \<Rightarrow> string" where
  "drop_final_dot s = (if s \<noteq> [] \<and> last s = CHR ''.'' then butlast s else s)"

definition url_is_host_only :: "url \<Rightarrow> bool" where
  "url_is_host_only u \<longleftrightarrow> u_username u = [] \<and> u_password u = [] \<and> u_search u = [] \<and> u_hash u = [] \<and> u_pathname u = ''/''"

definition hostnameKey :: "url_parser \<Rightarrow> string \<Rightarrow> listen_error + string" where
  "hostnameKey parseUrl host =
     (let trimmed = drop_final_dot (to_lower (trim host)) in
      if trimmed = [] then Inl (InvalidHost host)
      else case parseUrl (''http://'' @ hostTokenShape trimmed) of
        None \<Rightarrow> Inl (InvalidHost host)
      | Some u \<Rightarrow> if \<not> url_is_host_only u then Inl (InvalidHost host) else Inr (drop_final_dot (to_lower (u_hostname u))))"

definition bindHost :: "url_parser \<Rightarrow> string \<Rightarrow> listen_error + string" where
  "bindHost parseUrl host =
     bindE (hostnameKey parseUrl host) (\<lambda>key.
       Inr (if key = ''[::]'' then ''::''
            else if starts_with ''['' key \<and> ends_with '']'' key then butlast (drop 1 key)
            else key))"

definition isWildcardBind :: "string \<Rightarrow> bool" where
  "isWildcardBind host \<longleftrightarrow> host = ''0.0.0.0'' \<or> host = ''::''"

definition loopback_part :: "string \<Rightarrow> nat option" where
  "loopback_part part = (if 1 \<le> length part \<and> length part \<le> 3 \<and> list_all is_digit part then Some (number_of part) else None)"

definition isLoopbackBindHost :: "string \<Rightarrow> bool" where
  "isLoopbackBindHost host \<longleftrightarrow>
     (let name = (if starts_with ''['' host \<and> ends_with '']'' host then butlast (drop 1 host) else host) in
      if name = ''localhost'' \<or> ends_with ''.localhost'' name \<or> name = ''::1'' then True
      else let parts = split_on CHR ''.'' name in
        if length parts \<noteq> 4 then False
        else let nums = map loopback_part parts in
          if list_ex (\<lambda>n. case n of None \<Rightarrow> True | Some v \<Rightarrow> v > 255) nums then False
          else hd nums = Some 127)"

definition visible_ascii :: "char \<Rightarrow> bool" where
  "visible_ascii c \<longleftrightarrow> CHR ''!'' \<le> c \<and> c \<le> CHR ''~''"

definition normalizeToken :: "string option \<Rightarrow> listen_error + string option" where
  "normalizeToken token =
     (case token of
        None \<Rightarrow> Inr None
      | Some t \<Rightarrow>
          (let trimmed = trim t in
           if trimmed = [] then Inr None
           else if \<not> list_all visible_ascii trimmed then Inl BadToken
           else Inr (Some trimmed)))"

definition parseHttpPort :: "string option \<Rightarrow> listen_error + int" where
  "parseHttpPort portArg =
     (case portArg of
        None \<Rightarrow> Inr DEFAULT_HTTP_PORT
      | Some p \<Rightarrow>
          if p = [] \<or> \<not> list_all is_digit p then Inl InvalidPort
          else let port = int (number_of p) in
            if port < 1 \<or> port > 65535 then Inl InvalidPort else Inr port)"

section \<open>The listen policy\<close>

fun filterE :: "('a \<Rightarrow> 'e + bool) \<Rightarrow> 'a list \<Rightarrow> 'e + 'a list" where
  "filterE f [] = Inr []"
| "filterE f (x # xs) = bindE (f x) (\<lambda>keep. bindE (filterE f xs) (\<lambda>ys. Inr (if keep then x # ys else ys)))"

fun foldE :: "('a \<Rightarrow> 's \<Rightarrow> 'e + 's) \<Rightarrow> 'a list \<Rightarrow> 's \<Rightarrow> 'e + 's" where
  "foldE f [] s = Inr s"
| "foldE f (x # xs) s = bindE (f x s) (foldE f xs)"

definition addAllowed :: "url_parser \<Rightarrow> string \<Rightarrow> string list \<Rightarrow> listen_error + string list" where
  "addAllowed parseUrl host allowed =
     bindE (hostnameKey parseUrl host) (\<lambda>key. Inr (if key \<in> set allowed then allowed else allowed @ [key]))"

definition addBoth :: "url_parser \<Rightarrow> string \<Rightarrow> string list \<times> string list \<Rightarrow> listen_error + string list \<times> string list" where
  "addBoth parseUrl host both =
     bindE (addAllowed parseUrl host (fst both)) (\<lambda>allowed.
     bindE (addAllowed parseUrl host (snd both)) (\<lambda>portAgnostic. Inr (allowed, portAgnostic)))"

record listen_input =
  in_host :: "string option"
  in_port :: int
  in_token :: "string option"
  in_allowedHosts :: "string list"
  in_bodyLimitBytes :: "int option"

definition listen_hosts :: "url_parser \<Rightarrow> string option \<Rightarrow> listen_error + string list" where
  "listen_hosts parseUrl host =
     (case host of
        None \<Rightarrow> Inr LOOPBACK_BIND_HOSTS
      | Some h \<Rightarrow> if trim h = [] then Inr LOOPBACK_BIND_HOSTS else bindE (bindHost parseUrl h) (\<lambda>b. Inr [b]))"

text \<open>The allowlist of \<open>resolveHttpListen\<close>, in the order the code fills it.\<close>

definition listen_allowlist ::
  "url_parser \<Rightarrow> string list \<Rightarrow> string list \<Rightarrow> listen_error + string list \<times> string list" where
  "listen_allowlist parseUrl hosts allowedHosts =
     bindE (if filter (\<lambda>h. \<not> isLoopbackBindHost h) hosts = [] then foldE (addAllowed parseUrl) LOOPBACK_HOST_HEADERS [] else Inr [])
       (\<lambda>allowed0.
     bindE (foldE (addBoth parseUrl) (filter (\<lambda>h. \<not> (isWildcardBind h \<or> isLoopbackBindHost h)) hosts) (allowed0, []))
       (\<lambda>(allowed1, portAgnostic1).
     bindE (foldE (addAllowed parseUrl)
         (filter (\<lambda>h. isLoopbackBindHost h \<and> h \<notin> {''127.0.0.1'', ''::1'', ''localhost''}) hosts) allowed1)
       (\<lambda>allowed2.
     foldE (addBoth parseUrl) (filter (\<lambda>h. trim h \<noteq> []) allowedHosts) (allowed2, portAgnostic1))))"

definition resolveHttpListen :: "url_parser \<Rightarrow> listen_input \<Rightarrow> listen_error + httpListenPolicy" where
  "resolveHttpListen parseUrl input =
     (if in_port input < 0 \<or> in_port input > 65535 then Inl InvalidPort
      else bindE (listen_hosts parseUrl (in_host input)) (\<lambda>hosts.
      bindE (normalizeToken (in_token input)) (\<lambda>token.
      let exposed = filter (\<lambda>h. \<not> isLoopbackBindHost h) hosts in
      if exposed \<noteq> [] \<and> token = None then Inl (TokenNeeded exposed)
      else let entries = filter (\<lambda>h. h \<noteq> []) (map trim (in_allowedHosts input)) in
      bindE (filterE (\<lambda>h. bindE (hostnameKey parseUrl h) (\<lambda>k. Inr (\<not> isLoopbackBindHost k))) entries) (\<lambda>publicAllowlist.
      if publicAllowlist \<noteq> [] \<and> token = None then Inl (TokenNeededFor publicAllowlist)
      else bindE (listen_allowlist parseUrl hosts (in_allowedHosts input)) (\<lambda>(allowed, portAgnostic).
      if list_ex isWildcardBind hosts \<and> allowed = [] then Inl AllowlistNeeded
      else let bodyLimit = (case in_bodyLimitBytes input of None \<Rightarrow> DEFAULT_HTTP_BODY_LIMIT_BYTES | Some n \<Rightarrow> n) in
      if bodyLimit < 1 then Inl InvalidBodyLimit
      else Inr \<lparr>pl_hosts = hosts, pl_port = in_port input, pl_token = token, pl_allowedHostnames = allowed,
        pl_portAgnosticHostnames = portAgnostic, pl_bodyLimitBytes = bodyLimit\<rparr>)))))"

definition nonEmpty :: "string option \<Rightarrow> string option" where
  "nonEmpty value = (case value of None \<Rightarrow> None | Some v \<Rightarrow> if trim v = [] then None else Some (trim v))"

text \<open>The launch options: two arguments and three variables of the environment.\<close>

definition readHttpLaunchOptions ::
  "url_parser \<Rightarrow> string option \<Rightarrow> string option \<Rightarrow> (string \<Rightarrow> string option) \<Rightarrow> listen_error + httpListenPolicy" where
  "readHttpLaunchOptions parseUrl portArg hostArg env =
     (let allowedHosts =
            (case env ''MCP_EMAIL_HTTP_ALLOWED_HOSTS'' of
               None \<Rightarrow> [] | Some l \<Rightarrow> filter (\<lambda>h. h \<noteq> []) (map trim (split_on CHR '','' l)))
      in bindE (parseHttpPort portArg) (\<lambda>port.
           resolveHttpListen parseUrl
             \<lparr>in_host = (case nonEmpty hostArg of Some h \<Rightarrow> Some h | None \<Rightarrow> nonEmpty (env ''MCP_EMAIL_HTTP_HOST'')),
              in_port = port, in_token = env ''MCP_EMAIL_HTTP_TOKEN'', in_allowedHosts = allowedHosts,
              in_bodyLimitBytes = None\<rparr>))"

section \<open>Requests\<close>

text \<open>A header of the request: absent, one value, or repeated.\<close>

datatype header = Absent | Single string | Repeated

record httpRequest =
  rq_method :: "string option"
  rq_url :: "string option"
  rq_host :: header
  rq_origin :: header
  rq_authorization :: header
  rq_secFetchSite :: header
  rq_contentType :: header
  rq_contentLength :: header

datatype refusal = Refused (ref_status: nat) (ref_message: string)

definition requestHostAllowed :: "string \<Rightarrow> int \<Rightarrow> httpListenPolicy \<Rightarrow> bool" where
  "requestHostAllowed hostname port policy \<longleftrightarrow>
     (if hostname \<notin> set (pl_allowedHostnames policy) then False
      else if hostname \<in> set (pl_portAgnosticHostnames policy) then True
      else port = pl_port policy)"

definition headerPort :: "url \<Rightarrow> int" where
  "headerPort u = (if u_port u \<noteq> [] then int (number_of (u_port u)) else if u_protocol u = ''https:'' then 443 else 80)"

text \<open>
  \<open>HOST_HEADER_RE\<close>: a bracketed run of hexadecimal digits and colons, or labels joined by dots, then an
  optional port of up to five digits. The result is the port part of a match.
\<close>

definition label_char :: "char \<Rightarrow> bool" where
  "label_char c \<longleftrightarrow> is_digit c \<or> is_lower c \<or> is_upper c"

definition host_label :: "string \<Rightarrow> bool" where
  "host_label l \<longleftrightarrow> l \<noteq> [] \<and> length l \<le> 63 \<and> label_char (hd l) \<and> label_char (last l) \<and>
     list_all (\<lambda>c. label_char c \<or> c = CHR ''-'') l"

definition port_suffix :: "string \<Rightarrow> string option option" where
  "port_suffix s =
     (case s of
        [] \<Rightarrow> Some None
      | c # d \<Rightarrow> if c = CHR '':'' \<and> 1 \<le> length d \<and> length d \<le> 5 \<and> list_all is_digit d then Some (Some d) else None)"

definition match_host_header :: "string \<Rightarrow> string option option" where
  "match_host_header raw =
     (case raw of
        [] \<Rightarrow> None
      | c # s \<Rightarrow>
          if c = CHR ''['' then
            (case dropWhile (\<lambda>x. is_hex x \<or> x = CHR '':'') s of
               [] \<Rightarrow> None
             | d # rest \<Rightarrow> if d = CHR '']'' then port_suffix rest else None)
          else if list_all host_label (split_on CHR ''.'' (takeWhile (\<lambda>x. x \<noteq> CHR '':'') raw))
          then port_suffix (dropWhile (\<lambda>x. x \<noteq> CHR '':'') raw)
          else None)"

definition hostDecision :: "url_parser \<Rightarrow> header \<Rightarrow> httpListenPolicy \<Rightarrow> refusal option" where
  "hostDecision parseUrl raw policy =
     (let bad = Some (Refused 403 ''Invalid Host header'') in
      case raw of
        Single r \<Rightarrow>
          if r = [] then bad
          else (case match_host_header r of
            None \<Rightarrow> bad
          | Some portPart \<Rightarrow>
              if (case portPart of None \<Rightarrow> False | Some p \<Rightarrow> length p > 1 \<and> starts_with ''0'' p) then bad
              else (case parseUrl (''http://'' @ r) of
                None \<Rightarrow> bad
              | Some u \<Rightarrow>
                  if \<not> url_is_host_only u then bad
                  else if \<not> requestHostAllowed (drop_final_dot (to_lower (u_hostname u))) (headerPort u) policy then bad
                  else None))
      | _ \<Rightarrow> bad)"

definition originDecision :: "url_parser \<Rightarrow> header \<Rightarrow> httpListenPolicy \<Rightarrow> refusal option" where
  "originDecision parseUrl raw policy =
     (let bad = Some (Refused 403 ''Invalid Origin header'') in
      case raw of
        Absent \<Rightarrow> None
      | Repeated \<Rightarrow> bad
      | Single r \<Rightarrow>
          (case parseUrl r of
             None \<Rightarrow> bad
           | Some u \<Rightarrow>
               if r \<noteq> u_origin u \<or> (u_protocol u \<noteq> ''http:'' \<and> u_protocol u \<noteq> ''https:'') \<or> u_username u \<noteq> [] \<or> u_password u \<noteq> []
               then bad
               else if \<not> requestHostAllowed (drop_final_dot (to_lower (u_hostname u))) (headerPort u) policy then bad
               else None))"

definition secFetchDecision :: "header \<Rightarrow> refusal option" where
  "secFetchDecision raw =
     (case raw of
        Absent \<Rightarrow> None
      | Repeated \<Rightarrow> Some (Refused 403 ''Forbidden'')
      | Single r \<Rightarrow> if to_lower (trim r) = ''cross-site'' then Some (Refused 403 ''Forbidden'') else None)"

text \<open>\<open>Inl ()\<close> is the answer \<open>invalid\<close>.\<close>

definition contentLengthValue :: "header \<Rightarrow> unit + int option" where
  "contentLengthValue raw =
     (case raw of
        Repeated \<Rightarrow> Inl ()
      | Absent \<Rightarrow> Inr None
      | Single r \<Rightarrow>
          if r = [] \<or> \<not> list_all is_digit r then Inl ()
          else let n = int (number_of r) in if n > 9007199254740991 then Inl () else Inr (Some n))"

definition contentLengthDecision :: "header \<Rightarrow> int \<Rightarrow> refusal option" where
  "contentLengthDecision raw limit =
     (case contentLengthValue raw of
        Inl _ \<Rightarrow> Some (Refused 400 ''Invalid Content-Length'')
      | Inr None \<Rightarrow> None
      | Inr (Some declared) \<Rightarrow> if declared > limit then Some (Refused 413 ''Payload too large'') else None)"

definition contentTypeDecision :: "string \<Rightarrow> header \<Rightarrow> refusal option" where
  "contentTypeDecision method raw =
     (let bad = Some (Refused 415 ''Unsupported media type'') in
      if method \<noteq> ''POST'' then None
      else case raw of
        Single r \<Rightarrow> if to_lower (trim (hd (split_on CHR '';'' r))) \<noteq> ''application/json'' then bad else None
      | _ \<Rightarrow> bad)"

text \<open>The octets of a text in UTF-8 (the texts here hold code points below 256).\<close>

definition utf8_char :: "char \<Rightarrow> nat list" where
  "utf8_char c = (let n = of_char c in if n < 128 then [n] else [192 + n div 64, 128 + n mod 64])"

definition utf8 :: "string \<Rightarrow> nat list" where
  "utf8 s = concat (map utf8_char s)"

definition bearer_token :: "header \<Rightarrow> string option" where
  "bearer_token authorization =
     (case authorization of
        Single a \<Rightarrow>
          if to_lower (take 7 a) = ''bearer '' \<and> drop 7 a \<noteq> [] \<and> list_all visible_ascii (drop 7 a) then Some (drop 7 a) else None
      | _ \<Rightarrow> None)"

definition bearerAuthorizationMatches :: "header \<Rightarrow> string \<Rightarrow> bool" where
  "bearerAuthorizationMatches authorization expected \<longleftrightarrow>
     (if expected = [] then False
      else let provided = bearer_token authorization;
               expectedBuf = utf8 expected;
               providedBuf = utf8 (case provided of None \<Rightarrow> [] | Some p \<Rightarrow> p);
               sameLength = (length providedBuf = length expectedBuf);
               left = (if sameLength then providedBuf else replicate (length expectedBuf) 0);
               equalBytes = (left = expectedBuf)
           in provided \<noteq> None \<and> sameLength \<and> equalBytes)"

datatype httpRoute = HealthRoute | McpRoute | MissingRoute | MethodRoute

definition resolveHttpRoute :: "string option \<Rightarrow> string option \<Rightarrow> httpRoute" where
  "resolveHttpRoute method url =
     (case js_get ROUTE_METHODS (case url of None \<Rightarrow> [] | Some u \<Rightarrow> u) of
        None \<Rightarrow> MissingRoute
      | Some methods \<Rightarrow>
          (case method of
             None \<Rightarrow> MethodRoute
           | Some m \<Rightarrow> if m \<notin> set methods then MethodRoute else if url = Some ''/health'' then HealthRoute else McpRoute))"

definition allowedMethods :: "string option \<Rightarrow> string" where
  "allowedMethods url =
     join_with '', '' (case js_get ROUTE_METHODS (case url of None \<Rightarrow> [] | Some u \<Rightarrow> u) of None \<Rightarrow> [] | Some ms \<Rightarrow> ms)"

definition first_refusal :: "refusal option \<Rightarrow> refusal option \<Rightarrow> refusal option" where
  [model_defs]: "first_refusal a b = (case a of None \<Rightarrow> b | Some r \<Rightarrow> Some r)"

definition evaluateHttpAccess :: "url_parser \<Rightarrow> httpRequest \<Rightarrow> httpListenPolicy \<Rightarrow> refusal option" where
  "evaluateHttpAccess parseUrl req policy =
     (let method = (case rq_method req of None \<Rightarrow> [] | Some m \<Rightarrow> m) in
      if method \<notin> set METHODS then
        (if js_get ROUTE_METHODS (case rq_url req of None \<Rightarrow> [] | Some u \<Rightarrow> u) \<noteq> None then Some (Refused 405 ''Method not allowed'')
         else Some (Refused 404 ''Not Found''))
      else first_refusal (hostDecision parseUrl (rq_host req) policy)
        (first_refusal (originDecision parseUrl (rq_origin req) policy)
          (first_refusal (secFetchDecision (rq_secFetchSite req))
            (first_refusal (contentLengthDecision (rq_contentLength req) (pl_bodyLimitBytes policy))
              (first_refusal (contentTypeDecision method (rq_contentType req))
                (case pl_token policy of
                   None \<Rightarrow> None
                 | Some token \<Rightarrow>
                     if token \<noteq> [] \<and> \<not> bearerAuthorizationMatches (rq_authorization req) token
                     then Some (Refused 401 ''Unauthorized'') else None))))))"

section \<open>Bodies\<close>

datatype 'e stream_event = Data "nat list" | EndOfBody | StreamError 'e

datatype 'e body_error = Guard refusal | Stream 'e

text \<open>The listeners of \<open>readLimitedBody\<close>; they are removed once the promise settles. \<open>None\<close>: not yet.\<close>

fun receive :: "int \<Rightarrow> nat list list \<Rightarrow> int \<Rightarrow> 'e stream_event list \<Rightarrow> ('e body_error + nat list) option" where
  "receive limit chunks received [] = None"
| "receive limit chunks received (Data chunk # es) =
     (let received' = received + int (length chunk) in
      if received' > limit then Some (Inl (Guard (Refused 413 ''Payload too large'')))
      else receive limit (chunks @ [chunk]) received' es)"
| "receive limit chunks received (EndOfBody # es) = Some (Inr (concat chunks))"
| "receive limit chunks received (StreamError e # es) = Some (Inl (Stream e))"

definition readLimitedBody :: "header \<Rightarrow> int \<Rightarrow> 'e stream_event list \<Rightarrow> ('e body_error + nat list) option" where
  "readLimitedBody contentLength limit events =
     (case contentLengthValue contentLength of
        Inl _ \<Rightarrow> Some (Inl (Guard (Refused 400 ''Invalid Content-Length'')))
      | Inr declared \<Rightarrow>
          if (case declared of None \<Rightarrow> False | Some n \<Rightarrow> n > limit) then Some (Inl (Guard (Refused 413 ''Payload too large'')))
          else receive limit [] 0 events)"

section \<open>Answers and listeners\<close>

text \<open>\<open>JSON.stringify\<close> of a text of code points below 256.\<close>

definition hex_char :: "nat \<Rightarrow> char" where
  [model_defs]: "hex_char n = ''0123456789abcdef'' ! (n mod 16)"

definition json_char :: "char \<Rightarrow> string" where
  "json_char c =
     (let n = of_char c :: nat in
      if n = 34 \<or> n = 92 then [char_of (92 :: nat), c]
      else if n = 8 then char_of (92 :: nat) # ''b''
      else if n = 9 then char_of (92 :: nat) # ''t''
      else if n = 10 then char_of (92 :: nat) # ''n''
      else if n = 12 then char_of (92 :: nat) # ''f''
      else if n = 13 then char_of (92 :: nat) # ''r''
      else if n < 32 then char_of (92 :: nat) # ''u00'' @ [hex_char (n div 16), hex_char n]
      else [c])"

definition json_string :: "string \<Rightarrow> string" where
  "json_string s = [char_of (34 :: nat)] @ concat (map json_char s) @ [char_of (34 :: nat)]"

definition show_int :: "int \<Rightarrow> string" where
  "show_int n = (if n < 0 then CHR ''-'' # show_nat (nat (- n)) else show_nat (nat n))"

definition rpcErrorBody :: "int \<Rightarrow> string \<Rightarrow> string" where
  "rpcErrorBody code message =
     ''{'' @ json_string ''jsonrpc'' @ '':'' @ json_string ''2.0'' @ '','' @ json_string ''error'' @ '':{'' @
     json_string ''code'' @ '':'' @ show_int code @ '','' @ json_string ''message'' @ '':'' @ json_string message @ ''},'' @
     json_string ''id'' @ '':null}''"

text \<open>A refusal: its status, its headers and its body.\<close>

datatype http_answer = Rejected nat "(string \<times> string) list" string | Handled | Destroyed

definition rejectRequest :: "string option \<Rightarrow> nat \<Rightarrow> string \<Rightarrow> http_answer" where
  "rejectRequest url status message =
     (let body = rpcErrorBody (- 32000) message in
      Rejected status
       ([(''Content-Type'', ''application/json''), (''Content-Length'', show_nat (length (utf8 body))),
         (''X-Content-Type-Options'', ''nosniff''), (''Cache-Control'', ''no-store''), (''Connection'', ''close'')] @
        (if status = 401 then [(''WWW-Authenticate'', ''Bearer'')] else []) @
        (if status = 405 then [(''Allow'', allowedMethods url)] else []))
       body)"

text \<open>How the handler of a request ends.\<close>

datatype handler_end = Answered | GuardError refusal bool | OtherError bool

definition onRequest :: "url_parser \<Rightarrow> httpListenPolicy \<Rightarrow> httpRequest \<Rightarrow> handler_end \<Rightarrow> http_answer" where
  "onRequest parseUrl active req result =
     (case evaluateHttpAccess parseUrl req active of
        Some r \<Rightarrow> rejectRequest (rq_url req) (ref_status r) (ref_message r)
      | None \<Rightarrow>
          (case result of
             Answered \<Rightarrow> Handled
           | GuardError r headersSent \<Rightarrow>
               if headersSent then Destroyed else rejectRequest (rq_url req) (ref_status r) (ref_message r)
           | OtherError headersSent \<Rightarrow>
               if headersSent then Destroyed else rejectRequest (rq_url req) 500 ''Internal error''))"

datatype listen_result = Listening string int | ListenFailed string

record listener_state =
  ls_servers :: "(string \<times> int) list"
  ls_boundPort :: int
  ls_bindError :: "string option"

definition skippableV6 :: "string \<Rightarrow> string \<Rightarrow> bool" where
  "skippableV6 host code \<longleftrightarrow> host = ''::1'' \<and> (code = ''EAFNOSUPPORT'' \<or> code = ''EADDRNOTAVAIL'')"

definition bind_one :: "(string \<Rightarrow> int \<Rightarrow> listen_result) \<Rightarrow> string \<Rightarrow> listener_state \<Rightarrow> listener_state" where
  "bind_one listenOn host s =
     (if ls_bindError s \<noteq> None then s
      else case listenOn host (ls_boundPort s) of
        Listening address port \<Rightarrow> s\<lparr>ls_servers := ls_servers s @ [(address, port)], ls_boundPort := port\<rparr>
      | ListenFailed code \<Rightarrow>
          if ls_servers s \<noteq> [] \<and> skippableV6 host code then s else s\<lparr>ls_bindError := Some code\<rparr>)"

datatype start_result = ListenError string "(string \<times> int) list" | Started httpListenPolicy "(string \<times> int) list"

text \<open>\<open>ListenError\<close> holds the servers that were opened and are closed before the error is thrown.\<close>

definition startGuardedHttpServers :: "(string \<Rightarrow> int \<Rightarrow> listen_result) \<Rightarrow> httpListenPolicy \<Rightarrow> start_result" where
  "startGuardedHttpServers listenOn policy =
     (let s = fold (bind_one listenOn) (pl_hosts policy) \<lparr>ls_servers = [], ls_boundPort = pl_port policy, ls_bindError = None\<rparr> in
      case ls_bindError s of
        Some code \<Rightarrow> ListenError code (ls_servers s)
      | None \<Rightarrow> if ls_servers s = [] then ListenError ''HTTP listen failed'' []
                else Started (policy\<lparr>pl_port := ls_boundPort s\<rparr>) (ls_servers s))"

definition formatHttpListenLines :: "(string \<times> int) list \<Rightarrow> string" where
  "formatHttpListenLines addresses =
     join_with [CHR 0x0A] (map (\<lambda>(address, port).
       let host = (if CHR '':'' \<in> set address then ''['' @ address @ '']'' else address); place = host @ '':'' @ show_int port in
       join_with [CHR 0x0A]
         [''mailoo HTTP server listening on '' @ place, ''  Endpoint : http://'' @ place @ ''/mcp'', ''  Health   : http://'' @ place @ ''/health''])
       addresses)"

section \<open>Facts about the policy\<close>

lemma foldE_keeps:
  assumes "\<And>x s s'. x \<in> set xs \<Longrightarrow> P s \<Longrightarrow> f x s = Inr s' \<Longrightarrow> P s'"
  shows "P s \<Longrightarrow> foldE f xs s = Inr s' \<Longrightarrow> P s'"
  using assms
proof (induction xs arbitrary: s)
  case (Cons x xs)
  from Cons.prems(2) obtain s1 where s1: "f x s = Inr s1" and rest: "foldE f xs s1 = Inr s'" by (auto simp: bindE_Inr_iff)
  have "P s1" by (rule Cons.prems(3) [OF _ Cons.prems(1) s1]) simp
  moreover have "\<And>x s s'. x \<in> set xs \<Longrightarrow> P s \<Longrightarrow> f x s = Inr s' \<Longrightarrow> P s'" using Cons.prems(3) by (meson list.set_intros(2))
  ultimately show ?case using Cons.IH rest by blast
qed simp

definition local_name :: "url_parser \<Rightarrow> string \<Rightarrow> bool" where
  "local_name parseUrl key \<longleftrightarrow>
     isLoopbackBindHost key \<or> (\<exists>h. hostnameKey parseUrl h = Inr key \<and> isLoopbackBindHost h)"

lemma addAllowed_keeps:
  assumes "addAllowed parseUrl host allowed = Inr allowed'" "list_all P allowed" "\<And>k. hostnameKey parseUrl host = Inr k \<Longrightarrow> P k"
  shows "list_all P allowed'"
  using assms by (auto simp: addAllowed_def bindE_Inr_iff split: if_splits)

lemma addBoth_keeps:
  assumes "addBoth parseUrl host both = Inr both'" "list_all P (fst both)" "\<And>k. hostnameKey parseUrl host = Inr k \<Longrightarrow> P k"
  shows "list_all P (fst both')"
  using assms addAllowed_keeps [of parseUrl host "fst both" _ P] by (auto simp: addBoth_def bindE_Inr_iff)

lemma loopback_headers: "h \<in> set LOOPBACK_HOST_HEADERS \<Longrightarrow> isLoopbackBindHost h"
proof -
  have "list_all isLoopbackBindHost LOOPBACK_HOST_HEADERS" by code_simp
  then show "h \<in> set LOOPBACK_HOST_HEADERS \<Longrightarrow> isLoopbackBindHost h" by (simp add: list_all_iff)
qed

lemma hostnameKey_trim: "hostnameKey parseUrl (trim h) = Inr k \<longleftrightarrow> hostnameKey parseUrl h = Inr k"
  by (simp add: hostnameKey_def Let_def split: option.split)

lemma allowlist_local:
  assumes "listen_allowlist parseUrl hosts extra = Inr (allowed, portAgnostic)"
    and "filter (\<lambda>h. \<not> isLoopbackBindHost h) hosts = []"
    and "\<And>h k. h \<in> set extra \<Longrightarrow> trim h \<noteq> [] \<Longrightarrow> hostnameKey parseUrl h = Inr k \<Longrightarrow> isLoopbackBindHost k"
  shows "list_all (local_name parseUrl) allowed"
proof -
  from assms(1,2) obtain a0 a1 b1 a2 where
    a0: "foldE (addAllowed parseUrl) LOOPBACK_HOST_HEADERS [] = Inr a0" and
    a1: "foldE (addBoth parseUrl) (filter (\<lambda>h. \<not> (isWildcardBind h \<or> isLoopbackBindHost h)) hosts) (a0, []) = Inr (a1, b1)" and
    a2: "foldE (addAllowed parseUrl) (filter (\<lambda>h. isLoopbackBindHost h \<and> h \<notin> {''127.0.0.1'', ''::1'', ''localhost''}) hosts) a1 = Inr a2" and
    a3: "foldE (addBoth parseUrl) (filter (\<lambda>h. trim h \<noteq> []) extra) (a2, b1) = Inr (allowed, portAgnostic)"
    by (fastforce simp: listen_allowlist_def bindE_Inr_iff)
  let ?L = "list_all (local_name parseUrl)"
  have none: "filter (\<lambda>h. \<not> (isWildcardBind h \<or> isLoopbackBindHost h)) hosts = []"
    using assms(2) by (auto simp: filter_empty_conv)
  have "local_name parseUrl k" if "h \<in> set LOOPBACK_HOST_HEADERS" "hostnameKey parseUrl h = Inr k" for h k
    using that loopback_headers unfolding local_name_def by blast
  then have "?L a0"
    by (intro foldE_keeps [where P = ?L, OF _ _ a0]) (auto elim: addAllowed_keeps)
  moreover have "a1 = a0" using a1 unfolding none by simp
  ultimately have "?L a1" by simp
  then have "?L a2"
    by (intro foldE_keeps [where P = ?L, OF _ _ a2]) (auto elim!: addAllowed_keeps simp: local_name_def)
  then have "?L (fst (a2, b1))" by simp
  then have "?L (fst (allowed, portAgnostic))"
    using a3 assms(3) by (rule_tac foldE_keeps [where P = "\<lambda>b. ?L (fst b)"]) (auto elim!: addBoth_keeps simp: local_name_def)
  then show ?thesis by simp
qed

lemma filterE_Nil: "filterE f xs = Inr [] \<Longrightarrow> x \<in> set xs \<Longrightarrow> f x = Inr b \<Longrightarrow> \<not> b"
  by (induction xs) (auto simp: bindE_Inr_iff split: if_splits)

lemma bindE_guard_Inr: "bindE r (\<lambda>x. if c x then Inl (e x) else f x) = Inr b \<Longrightarrow> \<exists>x. r = Inr x \<and> \<not> c x \<and> f x = Inr b"
  by (auto simp: bindE_Inr_iff split: if_splits)

lemma resolveHttpListen_Inr:
  assumes "resolveHttpListen parseUrl input = Inr policy"
  obtains hosts token public allowed agnostic where
    "listen_hosts parseUrl (in_host input) = Inr hosts" "normalizeToken (in_token input) = Inr token"
    "filter (\<lambda>h. \<not> isLoopbackBindHost h) hosts = [] \<or> token \<noteq> None"
    "filterE (\<lambda>h. bindE (hostnameKey parseUrl h) (\<lambda>k. Inr (\<not> isLoopbackBindHost k)))
       (filter (\<lambda>h. h \<noteq> []) (map trim (in_allowedHosts input))) = Inr public"
    "public = [] \<or> token \<noteq> None" "listen_allowlist parseUrl hosts (in_allowedHosts input) = Inr (allowed, agnostic)"
    "list_ex isWildcardBind hosts \<Longrightarrow> allowed \<noteq> []"
    "pl_hosts policy = hosts" "pl_port policy = in_port input" "pl_token policy = token"
    "pl_allowedHostnames policy = allowed" "1 \<le> pl_bodyLimitBytes policy" "0 \<le> in_port input" "in_port input \<le> 65535"
proof -
  have port: "\<not> (in_port input < 0 \<or> in_port input > 65535)" using assms by (auto simp: resolveHttpListen_def)
  obtain hosts where hosts: "listen_hosts parseUrl (in_host input) = Inr hosts"
    using assms port by (auto simp: resolveHttpListen_def bindE_Inr_iff)
  obtain token where token: "normalizeToken (in_token input) = Inr token"
    using assms port hosts by (auto simp: resolveHttpListen_def bindE_Inr_iff)
  have exposed: "filter (\<lambda>h. \<not> isLoopbackBindHost h) hosts = [] \<or> token \<noteq> None"
    using assms port hosts token by (auto simp: resolveHttpListen_def Let_def simp del: filter_empty_conv split: if_splits)
  note step = port hosts token exposed
  let ?public = "filterE (\<lambda>h. bindE (hostnameKey parseUrl h) (\<lambda>k. Inr (\<not> isLoopbackBindHost k)))
    (filter (\<lambda>h. h \<noteq> []) (map trim (in_allowedHosts input)))"
  from assms have eq: "bindE ?public (\<lambda>publicAllowlist.
      if publicAllowlist \<noteq> [] \<and> token = None then Inl (TokenNeededFor publicAllowlist)
      else bindE (listen_allowlist parseUrl hosts (in_allowedHosts input)) (\<lambda>(allowed, portAgnostic).
      if list_ex isWildcardBind hosts \<and> allowed = [] then Inl AllowlistNeeded
      else let bodyLimit = (case in_bodyLimitBytes input of None \<Rightarrow> DEFAULT_HTTP_BODY_LIMIT_BYTES | Some n \<Rightarrow> n) in
      if bodyLimit < 1 then Inl InvalidBodyLimit
      else Inr \<lparr>pl_hosts = hosts, pl_port = in_port input, pl_token = token, pl_allowedHostnames = allowed,
        pl_portAgnosticHostnames = portAgnostic, pl_bodyLimitBytes = bodyLimit\<rparr>)) = Inr policy"
    using step by (auto simp: resolveHttpListen_def Let_def)
  from bindE_guard_Inr [OF eq] obtain public where public: "?public = Inr public" "public = [] \<or> token \<noteq> None"
    and tail: "bindE (listen_allowlist parseUrl hosts (in_allowedHosts input)) (\<lambda>(allowed, portAgnostic).
      if list_ex isWildcardBind hosts \<and> allowed = [] then Inl AllowlistNeeded
      else let bodyLimit = (case in_bodyLimitBytes input of None \<Rightarrow> DEFAULT_HTTP_BODY_LIMIT_BYTES | Some n \<Rightarrow> n) in
      if bodyLimit < 1 then Inl InvalidBodyLimit
      else Inr \<lparr>pl_hosts = hosts, pl_port = in_port input, pl_token = token, pl_allowedHostnames = allowed,
        pl_portAgnosticHostnames = portAgnostic, pl_bodyLimitBytes = bodyLimit\<rparr>) = Inr policy"
    by blast
  from tail obtain allowed agnostic where allow: "listen_allowlist parseUrl hosts (in_allowedHosts input) = Inr (allowed, agnostic)"
    by (auto simp: bindE_Inr_iff)
  show thesis
    by (rule that [OF hosts token exposed public allow]) (use tail allow port in \<open>auto simp: Let_def split: if_splits\<close>)
qed

lemma normalizeToken_ok: "normalizeToken t = Inr (Some token) \<Longrightarrow> token \<noteq> [] \<and> list_all visible_ascii token"
  by (auto simp: normalizeToken_def Let_def split: option.splits if_splits)

text \<open>
  A listener that the network can reach has a bearer token of visible signs, and a listener on all
  interfaces has an allowlist; without a token only loopback addresses are bound and only loopback
  names are allowed in requests.
\<close>

lemma listen_policy_safe:
  assumes "resolveHttpListen parseUrl input = Inr policy"
  shows "(case pl_token policy of
       Some token \<Rightarrow> token \<noteq> [] \<and> list_all visible_ascii token
     | None \<Rightarrow> list_all isLoopbackBindHost (pl_hosts policy) \<and> list_all (local_name parseUrl) (pl_allowedHostnames policy)) \<and>
    (if list_ex isWildcardBind (pl_hosts policy) then pl_allowedHostnames policy \<noteq> [] else True) \<and>
    pl_hosts policy \<noteq> [] \<and> 0 \<le> pl_port policy \<and> pl_port policy \<le> 65535 \<and> 1 \<le> pl_bodyLimitBytes policy"
proof -
  let ?entries = "filter (\<lambda>h. h \<noteq> []) (map trim (in_allowedHosts input))"
  from assms obtain hosts token public allowed agnostic where
    r: "listen_hosts parseUrl (in_host input) = Inr hosts" "normalizeToken (in_token input) = Inr token"
      "filter (\<lambda>h. \<not> isLoopbackBindHost h) hosts = [] \<or> token \<noteq> None"
      "filterE (\<lambda>h. bindE (hostnameKey parseUrl h) (\<lambda>k. Inr (\<not> isLoopbackBindHost k))) ?entries = Inr public"
      "public = [] \<or> token \<noteq> None" "listen_allowlist parseUrl hosts (in_allowedHosts input) = Inr (allowed, agnostic)"
      "list_ex isWildcardBind hosts \<Longrightarrow> allowed \<noteq> []" and
    p: "pl_hosts policy = hosts" "pl_port policy = in_port input" "pl_token policy = token" "pl_allowedHostnames policy = allowed"
      "1 \<le> pl_bodyLimitBytes policy" "0 \<le> in_port input" "in_port input \<le> 65535"
    by (rule resolveHttpListen_Inr) (rule that)
  have "hosts \<noteq> []"
    using r(1) by (auto simp: listen_hosts_def LOOPBACK_BIND_HOSTS_def bindE_Inr_iff split: option.splits if_splits)
  moreover have "list_all isLoopbackBindHost hosts \<and> list_all (local_name parseUrl) allowed" if none: "token = None"
  proof
    have hosts: "filter (\<lambda>h. \<not> isLoopbackBindHost h) hosts = []" using r(3) none by simp
    then show "list_all isLoopbackBindHost hosts" by (auto simp: filter_empty_conv list_all_iff)
    show "list_all (local_name parseUrl) allowed"
    proof (rule allowlist_local [OF r(6) hosts])
      fix h k assume h: "h \<in> set (in_allowedHosts input)" "trim h \<noteq> []" "hostnameKey parseUrl h = Inr k"
      then have "hostnameKey parseUrl (trim h) = Inr k" by (simp add: hostnameKey_trim)
      then have key: "bindE (hostnameKey parseUrl (trim h)) (\<lambda>k. Inr (\<not> isLoopbackBindHost k)) = Inr (\<not> isLoopbackBindHost k)" by simp
      have "public = []" using r(5) none by simp
      with r(4) have none_public: "filterE (\<lambda>h. bindE (hostnameKey parseUrl h) (\<lambda>k. Inr (\<not> isLoopbackBindHost k))) ?entries = Inr []" by simp
      have "trim h \<in> set ?entries" using h by simp
      from filterE_Nil [OF none_public this key] show "isLoopbackBindHost k" by simp
    qed
  qed
  moreover have "t \<noteq> [] \<and> list_all visible_ascii t" if "token = Some t" for t
    using that r(2) normalizeToken_ok by simp
  ultimately show ?thesis
    unfolding p(1-4) using p(5-7) r(7) by (cases token) simp_all
qed

section \<open>Facts about requests\<close>

lemma utf8_simps [simp]: "utf8 [] = []" "utf8 (c # s) = utf8_char c @ utf8 s"
  by (simp_all add: utf8_def)

lemma utf8_ascii: "list_all visible_ascii t \<Longrightarrow> utf8 t = map of_char t"
proof (induction t)
  case (Cons c t)
  then have "(of_char c :: nat) \<le> 126" by (simp add: visible_ascii_def less_eq_char_def)
  with Cons show ?case by (simp add: utf8_char_def)
qed simp

lemma utf8_ascii_inject: "list_all visible_ascii t \<Longrightarrow> utf8 s = map of_char t \<Longrightarrow> s = t"
proof (induction s arbitrary: t)
  case (Cons c s)
  from Cons.prems(2) obtain d t' where t: "t = d # t'" by (cases t) (auto simp: utf8_char_def Let_def split: if_splits)
  with Cons.prems(1) have "(of_char d :: nat) \<le> 126" by (simp add: visible_ascii_def less_eq_char_def)
  with Cons.prems(2) t have "of_char c = (of_char d :: nat) \<and> utf8 s = map of_char t'"
    by (auto simp: utf8_char_def Let_def split: if_splits)
  with Cons t show ?case by simp
qed simp

lemma bearer_exact: "bearerAuthorizationMatches authorization expected \<longleftrightarrow> expected \<noteq> [] \<and> bearer_token authorization = Some expected"
proof
  assume l: "bearerAuthorizationMatches authorization expected"
  then have e: "expected \<noteq> []" by (auto simp: bearerAuthorizationMatches_def)
  with l obtain p where p: "bearer_token authorization = Some p" and u: "utf8 p = utf8 expected"
    by (auto simp: bearerAuthorizationMatches_def Let_def split: if_splits)
  have "list_all visible_ascii p" using p by (auto simp: bearer_token_def split: header.splits if_splits)
  with u have "expected = p" using utf8_ascii utf8_ascii_inject by metis
  with e p show "expected \<noteq> [] \<and> bearer_token authorization = Some expected" by simp
qed (simp add: bearerAuthorizationMatches_def)

lemma first_refusal_None [simp]: "first_refusal a b = None \<longleftrightarrow> a = None \<and> b = None"
  by (simp add: first_refusal_def split: option.split)

lemma receive_Inr_iff:
  "received \<le> limit \<Longrightarrow> receive limit chunks received events = Some (Inr body) \<longleftrightarrow>
    (\<exists>cs es. events = map Data cs @ EndOfBody # es \<and> body = concat chunks @ concat cs \<and>
       received + int (length (concat cs)) \<le> limit)"
proof (induction events arbitrary: chunks received)
  case (Cons e es)
  show ?case
  proof (cases e)
    case (Data c)
    have split: "(\<exists>cs es'. Data c # es = map Data cs @ EndOfBody # es' \<and> P cs) \<longleftrightarrow> (\<exists>cs es'. es = map Data cs @ EndOfBody # es' \<and> P (c # cs))"
      for P
    proof
      assume "\<exists>cs es'. Data c # es = map Data cs @ EndOfBody # es' \<and> P cs"
      then obtain cs es' where e: "Data c # es = map Data cs @ EndOfBody # es'" and p: "P cs" by blast
      from e obtain cs' where "cs = c # cs'" by (cases cs) auto
      with e p show "\<exists>cs es'. es = map Data cs @ EndOfBody # es' \<and> P (c # cs)" by auto
    next
      assume "\<exists>cs es'. es = map Data cs @ EndOfBody # es' \<and> P (c # cs)"
      then obtain cs es' where "es = map Data cs @ EndOfBody # es'" "P (c # cs)" by blast
      then show "\<exists>cs es'. Data c # es = map Data cs @ EndOfBody # es' \<and> P cs" by (intro exI [of _ "c # cs"]) auto
    qed
    show ?thesis
    proof (cases "received + int (length c) \<le> limit")
      case True
      then show ?thesis unfolding Data split using Cons.IH [OF True, of "chunks @ [c]"] by (simp add: add.assoc)
    next
      case False
      then show ?thesis unfolding Data split by auto
    qed
  qed (auto simp: Cons_eq_append_conv Cons.prems)
qed simp

lemma hostDecision_None:
  assumes "hostDecision parseUrl raw policy = None"
  shows "\<exists>r u. raw = Single r \<and> parseUrl (''http://'' @ r) = Some u \<and> url_is_host_only u \<and>
    requestHostAllowed (drop_final_dot (to_lower (u_hostname u))) (headerPort u) policy"
  using assms by (auto simp: hostDecision_def Let_def split: header.splits option.splits if_splits)

lemma originDecision_None:
  assumes "originDecision parseUrl raw policy = None"
  shows "case raw of Absent \<Rightarrow> True | Repeated \<Rightarrow> False
    | Single r \<Rightarrow> \<exists>u. parseUrl r = Some u \<and> r = u_origin u \<and> u_protocol u \<in> {''http:'', ''https:''} \<and>
        requestHostAllowed (drop_final_dot (to_lower (u_hostname u))) (headerPort u) policy"
  using assms by (auto simp: originDecision_def Let_def split: header.splits option.splits if_splits)

lemma requestHostAllowed_name: "requestHostAllowed h port policy \<Longrightarrow> h \<in> set (pl_allowedHostnames policy)"
  by (auto simp: requestHostAllowed_def split: if_splits)

lemma evaluateHttpAccess_None:
  assumes "evaluateHttpAccess parseUrl req policy = None"
  shows "hostDecision parseUrl (rq_host req) policy = None" "originDecision parseUrl (rq_origin req) policy = None"
    "secFetchDecision (rq_secFetchSite req) = None"
    "contentLengthDecision (rq_contentLength req) (pl_bodyLimitBytes policy) = None"
    "pl_token policy = Some t \<Longrightarrow> t \<noteq> [] \<Longrightarrow> bearerAuthorizationMatches (rq_authorization req) t"
    "rq_method req = Some ''POST'' \<Longrightarrow> contentTypeDecision ''POST'' (rq_contentType req) = None"
  using assms by (auto simp: evaluateHttpAccess_def Let_def split: if_splits)

lemma bearer_token_Some:
  assumes "bearer_token authorization = Some t"
  shows "\<exists>s. authorization = Single (s @ t) \<and> to_lower s = ''bearer ''"
proof -
  from assms obtain a where "authorization = Single a" "to_lower (take 7 a) = ''bearer ''" "t = drop 7 a"
    by (auto simp: bearer_token_def split: header.splits if_splits)
  then show ?thesis by (intro exI [of _ "take 7 a"]) simp
qed

definition name_allowed :: "url \<Rightarrow> httpListenPolicy \<Rightarrow> bool" where
  "name_allowed u policy \<longleftrightarrow> drop_final_dot (to_lower (u_hostname u)) \<in> set (pl_allowedHostnames policy)"

text \<open>
  C11: a request that the guard of a resolved listen policy passes either carries the configured bearer
  token to the last sign, or no token is configured, and then only loopback addresses are bound and the
  Host header names a loopback host (so a page that rebinds its name cannot reach the server). An Origin
  header, where present, is an http(s) origin of an allowed name.
\<close>

theorem passed_request_authorized:
  assumes "resolveHttpListen parseUrl input = Inr policy"
    and "evaluateHttpAccess parseUrl req policy = None"
  shows "\<exists>host u. rq_host req = Single host \<and> parseUrl (''http://'' @ host) = Some u \<and> name_allowed u policy \<and>
    (case pl_token policy of
       Some token \<Rightarrow> \<exists>s. rq_authorization req = Single (s @ token) \<and> to_lower s = ''bearer ''
     | None \<Rightarrow> list_all isLoopbackBindHost (pl_hosts policy) \<and>
         local_name parseUrl (drop_final_dot (to_lower (u_hostname u)))) \<and>
    (case rq_origin req of
       Absent \<Rightarrow> True
     | Single r \<Rightarrow> \<exists>v. parseUrl r = Some v \<and> r = u_origin v \<and> u_protocol v \<in> {''http:'', ''https:''} \<and> name_allowed v policy
     | Repeated \<Rightarrow> False)"
proof -
  note pass = evaluateHttpAccess_None [OF assms(2)]
  note safe = listen_policy_safe [OF assms(1)]
  from hostDecision_None [OF pass(1)] obtain host u where
    host: "rq_host req = Single host" "parseUrl (''http://'' @ host) = Some u" "name_allowed u policy"
    unfolding name_allowed_def using requestHostAllowed_name by blast
  have auth: "case pl_token policy of
       Some token \<Rightarrow> \<exists>s. rq_authorization req = Single (s @ token) \<and> to_lower s = ''bearer ''
     | None \<Rightarrow> list_all isLoopbackBindHost (pl_hosts policy) \<and>
         local_name parseUrl (drop_final_dot (to_lower (u_hostname u)))"
  proof (cases "pl_token policy")
    case None
    with safe host(3) show ?thesis by (auto simp: name_allowed_def list_all_iff)
  next
    case (Some token)
    with safe pass(5) have "bearer_token (rq_authorization req) = Some token" by (auto simp: bearer_exact)
    with Some bearer_token_Some show ?thesis by auto
  qed
  have origin: "case rq_origin req of
       Absent \<Rightarrow> True
     | Single r \<Rightarrow> \<exists>v. parseUrl r = Some v \<and> r = u_origin v \<and> u_protocol v \<in> {''http:'', ''https:''} \<and> name_allowed v policy
     | Repeated \<Rightarrow> False"
    using originDecision_None [OF pass(2)] requestHostAllowed_name unfolding name_allowed_def by (cases "rq_origin req") auto
  from host auth origin show ?thesis by blast
qed

definition sample_url :: "string \<Rightarrow> url" where
  "sample_url host = \<lparr>u_protocol = ''http:'', u_username = [], u_password = [], u_hostname = host, u_port = [],
     u_pathname = ''/'', u_search = [], u_hash = [], u_origin = ''http://'' @ host\<rparr>"

definition sample_parser :: url_parser where
  "sample_parser s = (if starts_with ''http://'' s then Some (sample_url (drop 7 s)) else None)"

definition sample_input :: listen_input where
  "sample_input = \<lparr>in_host = Some ''mail.example'', in_port = 80, in_token = Some ''s3cret'', in_allowedHosts = [], in_bodyLimitBytes = None\<rparr>"

definition sample_policy :: httpListenPolicy where
  "sample_policy = \<lparr>pl_hosts = [''mail.example''], pl_port = 80, pl_token = Some ''s3cret'', pl_allowedHostnames = [''mail.example''],
     pl_portAgnosticHostnames = [''mail.example''], pl_bodyLimitBytes = DEFAULT_HTTP_BODY_LIMIT_BYTES\<rparr>"

definition sample_request :: httpRequest where
  "sample_request = \<lparr>rq_method = Some ''POST'', rq_url = Some ''/mcp'', rq_host = Single ''mail.example'', rq_origin = Absent,
     rq_authorization = Single ''Bearer s3cret'', rq_secFetchSite = Absent, rq_contentType = Single ''application/json; charset=utf-8'',
     rq_contentLength = Single ''12''\<rparr>"

lemma sample_resolved: "resolveHttpListen sample_parser sample_input = Inr sample_policy"
  by code_simp

lemma sample_passed: "evaluateHttpAccess sample_parser sample_request sample_policy = None"
  by code_simp

theorem passed_request_authorized_witness:
  "\<exists>host u. rq_host sample_request = Single host \<and> sample_parser (''http://'' @ host) = Some u \<and> name_allowed u sample_policy \<and>
    (\<exists>s. rq_authorization sample_request = Single (s @ ''s3cret'') \<and> to_lower s = ''bearer '')"
proof -
  have "pl_token sample_policy = Some ''s3cret''" by (simp add: sample_policy_def)
  then show ?thesis using passed_request_authorized [OF sample_resolved sample_passed] by auto
qed

text \<open>
  Reading a body yields it exactly when the stream delivers chunks and then ends, the declared length
  is well formed and within the limit, and the chunks together are within the limit; the result is
  their concatenation. Every longer body is refused, whatever its header declared.
\<close>

theorem read_body_bounded:
  assumes "0 \<le> limit"
  shows "readLimitedBody contentLength limit events = Some (Inr body) \<longleftrightarrow>
    (case contentLengthValue contentLength of Inl _ \<Rightarrow> False | Inr None \<Rightarrow> True | Inr (Some n) \<Rightarrow> n \<le> limit) \<and>
    (\<exists>chunks later. events = map Data chunks @ EndOfBody # later \<and> body = concat chunks \<and> int (length body) \<le> limit)"
  using receive_Inr_iff [of 0 limit "[]" events body] assms
  by (auto simp: readLimitedBody_def split: sum.splits option.splits)

theorem read_body_bounded_witness:
  "readLimitedBody (Single ''3'') 3 [Data [1, 2], Data [3], EndOfBody] = (Some (Inr [1, 2, 3]) :: (nat body_error + nat list) option)"
proof -
  have "contentLengthValue (Single ''3'') = Inr (Some 3)" by code_simp
  moreover have "[Data [1, 2], Data [3], EndOfBody] = map Data [[1, 2], [3]] @ EndOfBody # ([] :: nat stream_event list)" by simp
  ultimately show ?thesis
    using read_body_bounded [of 3 "Single ''3''" "[Data [1, 2], Data [3], EndOfBody]" "[1, 2, 3]"] by fastforce
qed

section \<open>Facts about the listeners\<close>

lemma bind_one_port:
  assumes "\<And>host port address port'. listenOn host port = Listening address port' \<Longrightarrow> port' \<noteq> 0 \<and> (port \<noteq> 0 \<longrightarrow> port' = port)"
    and "list_all (\<lambda>(_, p). p \<noteq> 0 \<and> p = ls_boundPort s) (ls_servers s)"
  shows "list_all (\<lambda>(_, p). p \<noteq> 0 \<and> p = ls_boundPort (bind_one listenOn host s)) (ls_servers (bind_one listenOn host s))"
proof (cases "listenOn host (ls_boundPort s)")
  case (Listening address port)
  with assms show ?thesis by (cases "ls_boundPort s = 0") (fastforce simp: bind_one_def list_all_iff)+
next
  case (ListenFailed code)
  with assms(2) show ?thesis by (simp add: bind_one_def)
qed

lemma fold_bind_one_port:
  assumes "\<And>host port address port'. listenOn host port = Listening address port' \<Longrightarrow> port' \<noteq> 0 \<and> (port \<noteq> 0 \<longrightarrow> port' = port)"
  shows "list_all (\<lambda>(_, p). p \<noteq> 0 \<and> p = ls_boundPort s) (ls_servers s) \<Longrightarrow>
    list_all (\<lambda>(_, p). p \<noteq> 0 \<and> p = ls_boundPort (fold (bind_one listenOn) hosts s)) (ls_servers (fold (bind_one listenOn) hosts s))"
  by (induction hosts arbitrary: s) (simp_all add: bind_one_port assms)

lemma started_servers_share_port:
  assumes "\<And>host port address port'. listenOn host port = Listening address port' \<Longrightarrow> port' \<noteq> 0 \<and> (port \<noteq> 0 \<longrightarrow> port' = port)"
    and "startGuardedHttpServers listenOn policy = Started active servers"
  shows "servers \<noteq> [] \<and> list_all (\<lambda>(_, p). p = pl_port active) servers"
proof -
  let ?s = "fold (bind_one listenOn) (pl_hosts policy) \<lparr>ls_servers = [], ls_boundPort = pl_port policy, ls_bindError = None\<rparr>"
  have "list_all (\<lambda>(_, p). p \<noteq> 0 \<and> p = ls_boundPort ?s) (ls_servers ?s)"
    by (rule fold_bind_one_port [OF assms(1)]) simp_all
  with assms(2) show ?thesis
    by (auto simp: startGuardedHttpServers_def Let_def list_all_iff split: option.splits if_splits)
qed

end
