(* ===== verification/HttpHost.thy ===== *)
theory HttpHost
  imports HttpSessions HttpGuard
begin

text \<open>
  The host of the HTTP mode (src/safety/http-mcp-host.ts), the life of one session
  (src/safety/http-session-setup.ts) and its scope (src/safety/http-session-scope.ts), around the session
  table of \<open>HttpSessions\<close>. The SDK transport is the environment: it accepts an initialize request while
  that request is handled (\<open>Register\<close>), reports its close (\<open>OnClose\<close>, any number of times), and delivers
  the client's initialized notice only between the two (\<open>Initialized\<close>). A scope, a transport and a
  server carry the id of their session. The lemmas show that requests are counted exactly, that a scope
  is disposed once, and that hooks never ask the server of a disposed session.
\<close>

section \<open>State\<close>

record candidate =
  cd_server :: string
  cd_sampling :: bool
  cd_order :: nat

text \<open>One request being handled: the session header, the session it opened, and its registration.\<close>

record flight =
  fl_header :: "string option"
  fl_opened :: "string option"
  fl_registered :: bool

text \<open>
  \<open>h_created\<close> lists the sessions that were opened, \<open>h_started\<close> the scopes whose \<open>disposePromise\<close> exists,
  \<open>h_disposed\<close> those whose \<open>onDispose\<close> ran, \<open>h_bound\<close> the servers bound to the log.
\<close>

record host =
  h_store :: "string store"
  h_scopes :: "(string, string) jsmap"
  h_candidates :: "(string, candidate) jsmap"
  h_samplingOrder :: nat
  h_bootStarted :: bool
  h_hooksListening :: bool
  h_target :: "string option"
  h_disposing :: "string list"
  h_flights :: "(nat, flight) jsmap"
  h_created :: "string list"
  h_started :: "string list"
  h_disposed :: "string list"
  h_bound :: "string list"

definition new_host :: "nat \<Rightarrow> number \<Rightarrow> host" where
  "new_host cap ttl =
     \<lparr>h_store = new_store cap ttl, h_scopes = [], h_candidates = [], h_samplingOrder = 0, h_bootStarted = False,
      h_hooksListening = False, h_target = None, h_disposing = [], h_flights = [], h_created = [], h_started = [],
      h_disposed = [], h_bound = []\<rparr>"

section \<open>Sampling target\<close>

definition newer :: "candidate option \<Rightarrow> candidate \<Rightarrow> candidate option" where
  "newer current c =
     (case current of None \<Rightarrow> Some c | Some b \<Rightarrow> if cd_order c > cd_order b then Some c else Some b)"

definition pickSamplingTarget :: "(string, candidate) jsmap \<Rightarrow> string option" where
  "pickSamplingTarget cs = map_option cd_server (foldl newer None (filter cd_sampling (js_values cs)))"

definition applySamplingTarget :: "host \<Rightarrow> host" where
  "applySamplingTarget h = (if \<not> h_hooksListening h then h else h\<lparr>h_target := pickSamplingTarget (h_candidates h)\<rparr>)"

section \<open>Scopes\<close>

text \<open>\<open>dispose\<close> creates its promise once; the body of that promise is the step \<open>run_dispose\<close>.\<close>

definition dispose :: "string \<Rightarrow> host \<Rightarrow> host" where
  "dispose s h = (if s \<in> set (h_started h) then h else h\<lparr>h_started := h_started h @ [s]\<rparr>)"

definition disposed_callback :: "string \<Rightarrow> host \<Rightarrow> host" where
  "disposed_callback s h = applySamplingTarget (h\<lparr>h_candidates := js_delete s (h_candidates h)\<rparr>)"

definition onDispose :: "string \<Rightarrow> host \<Rightarrow> host" where
  "onDispose s h = disposed_callback s (h\<lparr>h_bound := filter (\<lambda>b. b \<noteq> s) (h_bound h)\<rparr>)"

definition run_dispose :: "string \<Rightarrow> host \<Rightarrow> host" where
  "run_dispose s h = onDispose s (h\<lparr>h_disposed := h_disposed h @ [s]\<rparr>)"

definition trackDispose :: "string \<Rightarrow> host \<Rightarrow> host" where
  "trackDispose s h = (let h1 = dispose s h in h1\<lparr>h_disposing := h_disposing h1 @ [s]\<rparr>)"

definition release :: "string \<Rightarrow> host \<Rightarrow> host" where
  "release s h =
     trackDispose s (h\<lparr>h_store := delete_session s (h_store h), h_scopes := js_delete s (h_scopes h)\<rparr>)"

section \<open>The callbacks of a session\<close>

text \<open>\<open>now1\<close> to \<open>now4\<close> are the clock readings of \<open>sessions.set\<close> and \<open>beginRequest\<close>.\<close>

definition registered_callback :: "string \<Rightarrow> number \<Rightarrow> number \<Rightarrow> number \<Rightarrow> number \<Rightarrow> host \<Rightarrow> host" where
  "registered_callback s now1 now2 now3 now4 h =
     h\<lparr>h_store := beginRequest s now4 (set_session s s now1 now2 now3 (h_store h)), h_scopes := js_set s s (h_scopes h)\<rparr>"

definition initialized_callback :: "string \<Rightarrow> bool \<Rightarrow> host \<Rightarrow> host" where
  "initialized_callback s sampling h =
     (let h1 = h\<lparr>h_candidates := js_set s \<lparr>cd_server = s, cd_sampling = sampling, cd_order = h_samplingOrder h\<rparr> (h_candidates h),
                 h_samplingOrder := Suc (h_samplingOrder h)\<rparr> in
      if \<not> h_bootStarted h then h1\<lparr>h_bootStarted := True\<rparr> else applySamplingTarget h1)"

text \<open>\<open>startHooks\<close>, called by \<open>bootWriters\<close> when mail may be changed.\<close>

definition startHooks :: "host \<Rightarrow> host" where
  "startHooks h = h\<lparr>h_target := pickSamplingTarget (h_candidates h), h_hooksListening := True\<rparr>"

text \<open>\<open>openSession\<close>: \<open>ok\<close> tells whether the setup up to \<open>connect\<close> succeeds.\<close>

definition openSession :: "string \<Rightarrow> bool \<Rightarrow> host \<Rightarrow> host" where
  "openSession s ok h =
     (let h1 = h\<lparr>h_created := h_created h @ [s], h_bound := h_bound h @ [s]\<rparr> in if ok then h1 else trackDispose s h1)"

section \<open>Requests\<close>

record mcpRequest =
  mr_method :: "string option"
  mr_url :: "string option"
  mr_sessions :: "string list"
  mr_body :: "refusal + nat list"

datatype begun =
    Answer nat "(string \<times> string) list" string
  | BodyRefused refusal
  | SetupFailed
  | Forward string

definition sendRpcError :: "nat \<Rightarrow> int \<Rightarrow> string \<Rightarrow> begun" where
  "sendRpcError status code message = Answer status [(''Content-Type'', ''application/json'')] (rpcErrorBody code message)"

definition health_body :: "string \<Rightarrow> string" where
  "health_body version = ''{'' @ json_string ''ok'' @ '':true,'' @ json_string ''version'' @ '':'' @ json_string version @ ''}''"

text \<open>
  The body of a POST: \<open>None\<close> without one. \<open>parseJson\<close> is \<open>JSON.parse\<close> (\<open>None\<close> when it throws),
  \<open>isInit\<close> the SDK's test for an initialize request.
\<close>

definition request_body :: "(nat list \<Rightarrow> 'j option) \<Rightarrow> mcpRequest \<Rightarrow> begun + 'j option" where
  "request_body parseJson req =
     (if mr_method req \<noteq> Some ''POST'' then Inr None
      else case mr_body req of
        Inl r \<Rightarrow> Inl (BodyRefused r)
      | Inr raw \<Rightarrow>
          if raw = [] then Inr None
          else (case parseJson raw of
            None \<Rightarrow> Inl (sendRpcError 400 (- 32700) ''Parse error'')
          | Some j \<Rightarrow> Inr (Some j)))"

definition session_header :: "mcpRequest \<Rightarrow> string option" where
  "session_header req = (case mr_sessions req of [] \<Rightarrow> None | s # _ \<Rightarrow> Some s)"

text \<open>The handler up to the call of the transport. \<open>new\<close> is the id a new session would get.\<close>

definition handle_begin ::
  "string \<Rightarrow> (nat list \<Rightarrow> 'j option) \<Rightarrow> ('j option \<Rightarrow> bool) \<Rightarrow> number \<Rightarrow> nat \<Rightarrow> mcpRequest \<Rightarrow> string \<Rightarrow> bool \<Rightarrow> host \<Rightarrow> begun \<times> host" where
  "handle_begin version parseJson isInit now rid req new ok h =
     (case resolveHttpRoute (mr_method req) (mr_url req) of
        MethodRoute \<Rightarrow> (Answer 405 [(''Allow'', allowedMethods (mr_url req))] [], h)
      | MissingRoute \<Rightarrow> (Answer 404 [] ''Not Found'', h)
      | HealthRoute \<Rightarrow> (Answer 200 [(''Content-Type'', ''application/json'')] (health_body version), h)
      | McpRoute \<Rightarrow>
          (case request_body parseJson req of
             Inl answer \<Rightarrow> (answer, h)
           | Inr body \<Rightarrow>
               let header = session_header req in
               if header \<noteq> None \<and> header \<noteq> Some [] then
                 (case get_session (the header) (h_store h) of
                    None \<Rightarrow> (sendRpcError 404 (- 32001) ''Session not found'', h)
                  | Some t \<Rightarrow>
                      (Forward t, h\<lparr>h_store := beginRequest (the header) now (h_store h),
                         h_flights := js_set rid \<lparr>fl_header = header, fl_opened = None, fl_registered = False\<rparr> (h_flights h)\<rparr>))
               else if mr_method req = Some ''POST'' \<and> isInit body then
                 (if ok then
                    (Forward new, (openSession new True h)\<lparr>h_flights :=
                       js_set rid \<lparr>fl_header = header, fl_opened = Some new, fl_registered = False\<rparr> (h_flights h)\<rparr>)
                  else (SetupFailed, openSession new False h))
               else (sendRpcError 400 (- 32000) ''Bad Request: provide mcp-session-id or send an initialize request'', h)))"

text \<open>The session a request is counted for: \<open>sessionId ?? opened?.registration.id\<close>, where the empty text is none.\<close>

definition trackedId :: "flight \<Rightarrow> string option" where
  "trackedId f =
     (case fl_header f of
        Some s \<Rightarrow> if s = [] then None else Some s
      | None \<Rightarrow> if fl_registered f then fl_opened f else None)"

text \<open>The \<open>finally\<close> block.\<close>

definition handle_end :: "number \<Rightarrow> nat \<Rightarrow> flight \<Rightarrow> host \<Rightarrow> host" where
  "handle_end now rid f h =
     (let h1 = (case trackedId f of None \<Rightarrow> h | Some s \<Rightarrow> h\<lparr>h_store := endRequest s (h_store h)\<rparr>);
          h2 = (case fl_opened f of
                  None \<Rightarrow> h1
                | Some s \<Rightarrow> if fl_registered f then h1 else trackDispose s h1)
      in h2\<lparr>h_store := evict now None (h_store h2), h_flights := js_delete rid (h_flights h2)\<rparr>)"

section \<open>Events\<close>

datatype host_event =
    Arrive number nat mcpRequest string bool
  | Register nat number number number number
  | Finish number nat
  | OnClose string
  | RunDispose string
  | SettleDispose string
  | Initialized string bool
  | BootHooks

text \<open>
  \<open>None\<close>: the environment does not produce this event here. Request numbers and session ids are fresh;
  a transport registers at most once, during the request that opened it and before its close.
\<close>

fun host_step ::
  "string \<Rightarrow> (nat list \<Rightarrow> 'j option) \<Rightarrow> ('j option \<Rightarrow> bool) \<Rightarrow> host_event \<Rightarrow> host \<Rightarrow> host option" where
  "host_step version parseJson isInit (Arrive now rid req new ok) h =
     (if js_get (h_flights h) rid = None \<and> new \<notin> set (h_created h)
      then Some (snd (handle_begin version parseJson isInit now rid req new ok h)) else None)"
| "host_step version parseJson isInit (Register rid now1 now2 now3 now4) h =
     (case js_get (h_flights h) rid of
        None \<Rightarrow> None
      | Some f \<Rightarrow>
          (case fl_opened f of
             None \<Rightarrow> None
           | Some s \<Rightarrow>
               if fl_registered f \<or> s \<in> set (h_started h) then None
               else Some ((registered_callback s now1 now2 now3 now4 h)\<lparr>h_flights := js_set rid (f\<lparr>fl_registered := True\<rparr>) (h_flights h)\<rparr>)))"
| "host_step version parseJson isInit (Finish now rid) h =
     (case js_get (h_flights h) rid of None \<Rightarrow> None | Some f \<Rightarrow> Some (handle_end now rid f h))"
| "host_step version parseJson isInit (OnClose s) h = (if s \<in> set (h_created h) then Some (release s h) else None)"
| "host_step version parseJson isInit (RunDispose s) h =
     (if s \<in> set (h_started h) \<and> s \<notin> set (h_disposed h) then Some (run_dispose s h) else None)"
| "host_step version parseJson isInit (SettleDispose s) h =
     (if s \<in> set (h_disposing h) \<and> s \<in> set (h_disposed h) then Some (h\<lparr>h_disposing := remove1 s (h_disposing h)\<rparr>) else None)"
| "host_step version parseJson isInit (Initialized s sampling) h =
     (if js_get (h_scopes h) s \<noteq> None then Some (initialized_callback s sampling h) else None)"
| "host_step version parseJson isInit BootHooks h =
     (if h_bootStarted h \<and> \<not> h_hooksListening h then Some (startHooks h) else None)"

fun host_run ::
  "string \<Rightarrow> (nat list \<Rightarrow> 'j option) \<Rightarrow> ('j option \<Rightarrow> bool) \<Rightarrow> host_event list \<Rightarrow> host \<Rightarrow> host option" where
  "host_run version parseJson isInit [] h = Some h"
| "host_run version parseJson isInit (e # es) h =
     (case host_step version parseJson isInit e h of None \<Rightarrow> None | Some h' \<Rightarrow> host_run version parseJson isInit es h')"

text \<open>
  The first part of \<open>close\<close> closes the transports of the table (each reports \<open>OnClose\<close>); after the pending
  disposals the remaining scopes are disposed.
\<close>

definition close_transports :: "host \<Rightarrow> string list" where
  "close_transports h = store_values (h_store h)"

definition close_scopes :: "host \<Rightarrow> host" where
  "close_scopes h = fold dispose (js_values (h_scopes h)) h"

section \<open>Facts about the table\<close>

lemma get_evict:
  assumes "table_ok s" "js_get (sessions (evict now keep s)) i = Some x"
  shows "js_get (sessions s) i = Some x"
proof -
  from assms(1) obtain removed where ok: "table_ok (evict now keep s)"
    and parts: "mset (sessions s) = mset (sessions (evict now keep s)) + mset removed"
    by (rule evict_spec)
  from assms(2) have "(i, x) \<in> set (sessions (evict now keep s))" by (rule map_of_SomeD)
  then have "(i, x) \<in> set (sessions s)" using parts by (metis Un_iff set_mset_mset set_mset_union)
  with assms(1) show ?thesis by (simp add: js_get_in_set table_ok_def)
qed

lemma evict_ok: "table_ok s \<Longrightarrow> table_ok (evict now keep s)"
  by (erule evict_spec [of s now keep])

lemma table_ok_put: "table_ok s \<Longrightarrow> sid x = i \<Longrightarrow> table_ok (s\<lparr>sessions := js_set i x (sessions s)\<rparr>)"
  by (rule table_ok_set [of s x i]) simp_all

lemma set_session_ok: "table_ok s \<Longrightarrow> table_ok (set_session i t now1 now2 now3 s)"
  unfolding set_session_def Let_def by (rule evict_ok, rule table_ok_put, erule evict_ok, simp)

lemma get_set_session:
  assumes "table_ok s" "js_get (sessions (set_session i t now1 now2 now3 s)) j = Some x"
  shows "if j = i then activeRequests x = 0 else js_get (sessions s) j = Some x"
proof -
  let ?new = "\<lparr>sid = i, transport = t, lastUsed = now2, activeRequests = 0\<rparr>"
  let ?s2 = "(evict now1 None s)\<lparr>sessions := js_set i ?new (sessions (evict now1 None s))\<rparr>"
  have "table_ok ?s2" by (rule table_ok_put [OF evict_ok [OF assms(1)]]) simp
  from get_evict [OF this, of now3 "Some i"] assms(2) have "js_get (sessions ?s2) j = Some x"
    by (simp add: set_session_def Let_def)
  with get_evict [OF assms(1)] show ?thesis by (auto split: if_splits)
qed

lemma beginRequest_ok: "table_ok s \<Longrightarrow> table_ok (beginRequest i now s)"
  unfolding beginRequest_def by (auto split: option.split intro!: table_ok_put simp: table_ok_get)

lemma endRequest_ok: "table_ok s \<Longrightarrow> table_ok (endRequest i s)"
  unfolding endRequest_def by (auto split: option.split intro!: table_ok_put simp: table_ok_get)

lemma delete_session_ok: "table_ok s \<Longrightarrow> table_ok (delete_session i s)"
  by (rule table_ok_delete [where s = s]) (simp_all add: delete_session_def)

lemmas store_ok = evict_ok set_session_ok beginRequest_ok endRequest_ok delete_session_ok

lemma get_beginRequest:
  "js_get (sessions (beginRequest i now s)) j =
     (if j = i then map_option (\<lambda>x. x\<lparr>activeRequests := Suc (activeRequests x), lastUsed := now\<rparr>) (js_get (sessions s) i)
      else js_get (sessions s) j)"
  by (simp add: beginRequest_def split: option.split)

lemma get_endRequest:
  "js_get (sessions (endRequest i s)) j =
     (if j = i then map_option (\<lambda>x. x\<lparr>activeRequests := activeRequests x - 1\<rparr>) (js_get (sessions s) i)
      else js_get (sessions s) j)"
  by (auto simp: endRequest_def split: option.split)

lemma get_delete_session [simp]: "js_get (sessions (delete_session i s)) j = (if j = i then None else js_get (sessions s) j)"
  by (simp add: delete_session_def)

section \<open>Counting\<close>

definition count_values :: "('v \<Rightarrow> bool) \<Rightarrow> ('k, 'v) jsmap \<Rightarrow> nat" where
  "count_values P m = length (filter P (js_values m))"

lemma count_values_delete:
  "js_wf m \<Longrightarrow> js_get m k = Some v \<Longrightarrow> count_values P m = count_values P (js_delete k m) + (if P v then 1 else 0)"
proof -
  assume "js_wf m" "js_get m k = Some v"
  then have "mset m = add_mset (k, v) (mset (js_delete k m))" by (rule js_delete_mset)
  then have "mset (js_values m) = add_mset v (mset (js_values (js_delete k m)))"
    unfolding js_values_def by (metis image_mset_add_mset mset_map snd_conv)
  then have "size (filter_mset P (mset (js_values m))) = size (filter_mset P (add_mset v (mset (js_values (js_delete k m)))))" by simp
  then show ?thesis unfolding count_values_def by (simp flip: size_mset mset_filter split: if_splits)
qed

lemma count_values_new: "js_get m k = None \<Longrightarrow> count_values P (js_set k v m) = count_values P m + (if P v then 1 else 0)"
  by (simp add: js_set_new count_values_def js_values_def)

lemma count_values_set:
  assumes "js_wf m" "js_get m k = Some v"
  shows "count_values P (js_set k w m) + (if P v then 1 else 0) = count_values P m + (if P w then 1 else 0)"
proof -
  have "js_delete k (js_set k w m) = js_delete k m" by (induction m) auto
  then show ?thesis
    using count_values_delete [OF assms, of P] count_values_delete [of "js_set k w m" k w P] assms(1) by simp
qed

lemma count_values_0: "(\<And>k v. js_get m k = Some v \<Longrightarrow> \<not> P v) \<Longrightarrow> js_wf m \<Longrightarrow> count_values P m = 0"
  by (auto simp: count_values_def js_values_def js_get_in_set filter_empty_conv)

section \<open>Scopes and candidates\<close>

lemma newest_candidate:
  "foldl newer b cs = Some c \<Longrightarrow> (b = Some c \<or> c \<in> set cs) \<and> (\<forall>d. b = Some d \<or> d \<in> set cs \<longrightarrow> cd_order d \<le> cd_order c)"
proof (induction cs arbitrary: b)
  case (Cons x cs)
  from Cons.prems have "foldl newer (newer b x) cs = Some c" by simp
  from Cons.IH [OF this] show ?case by (cases b) (fastforce simp: newer_def split: if_splits)+
qed simp

lemma newest_exists: "b \<noteq> None \<or> cs \<noteq> [] \<Longrightarrow> foldl newer b cs \<noteq> None"
  by (induction cs arbitrary: b) (auto simp: newer_def split: option.split)

lemma foldl_newer_None: "foldl newer None cs = None \<longleftrightarrow> cs = []"
  by (cases cs) (use newest_exists in \<open>auto simp: newer_def\<close>)

definition scopes_inv :: "host \<Rightarrow> bool" where
  "scopes_inv h \<longleftrightarrow>
     table_ok (h_store h) \<and> js_wf (h_scopes h) \<and> js_wf (h_candidates h) \<and>
     (\<forall>s. js_get (sessions (h_store h)) s \<noteq> None \<longrightarrow> js_get (h_scopes h) s \<noteq> None) \<and>
     (\<forall>s t. js_get (h_scopes h) s = Some t \<longrightarrow> t = s \<and> s \<in> set (h_created h) \<and> s \<notin> set (h_started h)) \<and>
     set (h_disposed h) \<subseteq> set (h_started h) \<and> distinct (h_disposed h) \<and>
     (\<forall>s c. js_get (h_candidates h) s = Some c \<longrightarrow>
        cd_server c = s \<and> s \<notin> set (h_disposed h) \<and> (js_get (h_scopes h) s \<noteq> None \<or> s \<in> set (h_started h))) \<and>
     (if h_hooksListening h then h_bootStarted h \<and> h_target h = pickSamplingTarget (h_candidates h) else h_target h = None) \<and>
     (\<forall>r f s. js_get (h_flights h) r = Some f \<and> fl_opened f = Some s \<longrightarrow>
        s \<in> set (h_created h) \<and> (\<not> fl_registered f \<longrightarrow> js_get (h_scopes h) s = None)) \<and>
     (\<forall>r r' f f' s. js_get (h_flights h) r = Some f \<and> js_get (h_flights h) r' = Some f' \<and>
        fl_opened f = Some s \<and> fl_opened f' = Some s \<longrightarrow> r = r')"

lemma candidate_facts:
  assumes "scopes_inv h" "js_get (h_candidates h) s = Some c"
  shows "cd_server c = s" "s \<notin> set (h_disposed h)" "js_get (h_scopes h) s \<noteq> None \<or> s \<in> set (h_started h)"
  using assms by (simp_all add: scopes_inv_def)

lemma scopes_inv_distinct: "scopes_inv h \<Longrightarrow> distinct (h_disposed h)"
  by (simp add: scopes_inv_def)

lemma handle_begin_cases:
  obtains (same) "snd (handle_begin version parseJson isInit now rid req new ok h) = h"
    | (known) i x where "session_header req = Some i" "i \<noteq> []" "js_get (sessions (h_store h)) i = Some x"
      "snd (handle_begin version parseJson isInit now rid req new ok h) =
         h\<lparr>h_store := beginRequest i now (h_store h),
           h_flights := js_set rid \<lparr>fl_header = Some i, fl_opened = None, fl_registered = False\<rparr> (h_flights h)\<rparr>"
    | (opened) "session_header req = None \<or> session_header req = Some []"
      "snd (handle_begin version parseJson isInit now rid req new ok h) =
         (openSession new True h)\<lparr>h_flights :=
            js_set rid \<lparr>fl_header = session_header req, fl_opened = Some new, fl_registered = False\<rparr> (h_flights h)\<rparr>"
    | (failed) "snd (handle_begin version parseJson isInit now rid req new ok h) = openSession new False h"
proof -
  let ?r = "snd (handle_begin version parseJson isInit now rid req new ok h)"
  show thesis
  proof (cases "resolveHttpRoute (mr_method req) (mr_url req) = McpRoute \<and> (\<exists>body. request_body parseJson req = Inr body)")
    case False
    then have "?r = h" by (auto simp: handle_begin_def split: httpRoute.split sum.split)
    then show ?thesis by (rule same)
  next
    case True
    then obtain body where mcp: "resolveHttpRoute (mr_method req) (mr_url req) = McpRoute" "request_body parseJson req = Inr body" by blast
    show ?thesis
    proof (cases "session_header req = None \<or> session_header req = Some []")
      case header: True
      show ?thesis
      proof (cases "mr_method req = Some ''POST'' \<and> isInit body")
        case False
        with mcp header have "?r = h" by (auto simp: handle_begin_def Let_def)
        then show ?thesis by (rule same)
      next
        case init: True
        show ?thesis
        proof (cases ok)
          case True
          with mcp header init show ?thesis by (intro opened) (auto simp: handle_begin_def Let_def)
        next
          case False
          with mcp header init show ?thesis by (intro failed) (auto simp: handle_begin_def Let_def)
        qed
      qed
    next
      case False
      then obtain i where i: "session_header req = Some i" "i \<noteq> []" by auto
      show ?thesis
      proof (cases "js_get (sessions (h_store h)) i")
        case None
        with mcp i have "?r = h" by (simp add: handle_begin_def Let_def get_session_def)
        then show ?thesis by (rule same)
      next
        case (Some x)
        with mcp i show ?thesis by (intro known [of i x]) (simp_all add: handle_begin_def Let_def get_session_def)
      qed
    qed
  qed
qed

lemma openSession_inv: "scopes_inv h \<Longrightarrow> new \<notin> set (h_created h) \<Longrightarrow> scopes_inv (openSession new ok h)"
  by (cases ok) (auto simp: scopes_inv_def openSession_def trackDispose_def dispose_def Let_def)

lemma flight_inv:
  assumes "scopes_inv h" "\<And>s. fl_opened f = Some s \<Longrightarrow> s \<in> set (h_created h) \<and> js_get (h_scopes h) s = None"
    and "\<And>r' f' s. js_get (h_flights h) r' = Some f' \<Longrightarrow> fl_opened f = Some s \<Longrightarrow> fl_opened f' = Some s \<Longrightarrow> r' = r"
  shows "scopes_inv (h\<lparr>h_flights := js_set r f (h_flights h)\<rparr>)"
  using assms unfolding scopes_inv_def by (auto split: if_splits)

lemma opened_inv:
  assumes "scopes_inv h" "new \<notin> set (h_created h)"
  shows "scopes_inv ((openSession new True h)\<lparr>h_flights :=
    js_set r \<lparr>fl_header = header, fl_opened = Some new, fl_registered = False\<rparr> (h_flights h)\<rparr>)"
proof -
  have "js_get (h_scopes h) new = None" using assms by (cases "js_get (h_scopes h) new") (auto simp: scopes_inv_def)
  moreover have "js_get (h_flights h) r' = Some f' \<Longrightarrow> fl_opened f' \<noteq> Some new" for r' f' using assms by (auto simp: scopes_inv_def)
  ultimately show ?thesis
    using flight_inv [OF openSession_inv [OF assms], of "\<lparr>fl_header = header, fl_opened = Some new, fl_registered = False\<rparr>" True r]
    by (auto simp: openSession_def)
qed

lemma store_inv:
  assumes "scopes_inv h" "table_ok st" "\<And>s. js_get (sessions st) s \<noteq> None \<Longrightarrow> js_get (sessions (h_store h)) s \<noteq> None"
  shows "scopes_inv (h\<lparr>h_store := st\<rparr>)"
  using assms by (simp add: scopes_inv_def)

lemma trackDispose_inv:
  "scopes_inv h \<Longrightarrow> js_get (h_scopes h) s = None \<Longrightarrow> scopes_inv (trackDispose s h)"
  by (auto simp: scopes_inv_def trackDispose_def dispose_def Let_def)

lemma release_inv: "scopes_inv h \<Longrightarrow> scopes_inv (release s h)"
  unfolding release_def trackDispose_def dispose_def Let_def
  by (auto simp: scopes_inv_def delete_session_ok split: if_splits)

lemma run_dispose_inv: "scopes_inv h \<Longrightarrow> s \<in> set (h_started h) \<Longrightarrow> s \<notin> set (h_disposed h) \<Longrightarrow> scopes_inv (run_dispose s h)"
  by (auto simp: scopes_inv_def run_dispose_def onDispose_def disposed_callback_def applySamplingTarget_def)

lemma initialized_inv: "scopes_inv h \<Longrightarrow> js_get (h_scopes h) s \<noteq> None \<Longrightarrow> scopes_inv (initialized_callback s sampling h)"
  by (auto simp: scopes_inv_def initialized_callback_def applySamplingTarget_def Let_def split: if_splits)

lemma registered_inv:
  assumes inv: "scopes_inv h" and fl: "js_get (h_flights h) r = Some f" "fl_opened f = Some s" and fresh: "s \<notin> set (h_started h)"
  shows "scopes_inv ((registered_callback s n1 n2 n3 n4 h)\<lparr>h_flights := js_set r (f\<lparr>fl_registered := True\<rparr>) (h_flights h)\<rparr>)"
proof -
  have ok: "table_ok (h_store h)" using inv by (simp add: scopes_inv_def)
  have created: "s \<in> set (h_created h)" using inv fl unfolding scopes_inv_def by blast
  have "js_get (h_scopes h) j \<noteq> None \<or> j = s" if "js_get (sessions (beginRequest s n4 (set_session s s n1 n2 n3 (h_store h)))) j \<noteq> None" for j
    using that get_set_session [OF ok, of s s n1 n2 n3 j] inv
    by (auto simp: get_beginRequest scopes_inv_def split: if_splits)
  moreover have "js_get (h_flights h) r' = Some f' \<Longrightarrow> fl_opened f' = Some s \<Longrightarrow> r' = r" for r' f'
    using inv fl unfolding scopes_inv_def by blast
  ultimately show ?thesis
    using inv fl fresh created unfolding scopes_inv_def registered_callback_def
    by (auto simp: store_ok split: if_splits)
qed

lemma handle_end_inv:
  assumes inv: "scopes_inv h" and unreg: "\<And>s. fl_opened f = Some s \<Longrightarrow> \<not> fl_registered f \<Longrightarrow> js_get (h_scopes h) s = None"
  shows "scopes_inv (handle_end now rid f h)"
proof -
  define h1 where "h1 = (case trackedId f of None \<Rightarrow> h | Some s \<Rightarrow> h\<lparr>h_store := endRequest s (h_store h)\<rparr>)"
  define h2 where "h2 = (case fl_opened f of None \<Rightarrow> h1 | Some s \<Rightarrow> if fl_registered f then h1 else trackDispose s h1)"
  have ok: "table_ok (h_store h)" using inv by (simp add: scopes_inv_def)
  have "scopes_inv (h\<lparr>h_store := endRequest s (h_store h)\<rparr>)" for s
    by (rule store_inv [OF inv endRequest_ok [OF ok]]) (simp add: get_endRequest split: if_splits)
  then have h1: "scopes_inv h1" using inv by (simp add: h1_def split: option.split)
  have scopes: "h_scopes h1 = h_scopes h" by (simp add: h1_def split: option.split)
  have h2: "scopes_inv h2" using h1 unreg trackDispose_inv [OF h1] by (auto simp: h2_def scopes split: option.split)
  then have ok2: "table_ok (h_store h2)" by (simp add: scopes_inv_def)
  have "scopes_inv (h2\<lparr>h_store := evict now None (h_store h2)\<rparr>)"
    by (rule store_inv [OF h2 evict_ok [OF ok2]]) (use get_evict [OF ok2] in fastforce)
  then have "scopes_inv (h2\<lparr>h_store := evict now None (h_store h2), h_flights := js_delete rid (h_flights h2)\<rparr>)"
    by (auto simp: scopes_inv_def split: if_splits)
  then show ?thesis unfolding handle_end_def Let_def h2_def h1_def .
qed

lemma step_scopes_inv:
  assumes "scopes_inv h" "host_step version parseJson isInit e h = Some h'"
  shows "scopes_inv h'"
proof (cases e)
  case (Arrive now rid req new ok)
  with assms(2) have fresh: "new \<notin> set (h_created h)" and h': "h' = snd (handle_begin version parseJson isInit now rid req new ok h)"
    by (simp_all split: if_splits)
  have ok_store: "table_ok (h_store h)" using assms(1) by (simp add: scopes_inv_def)
  show ?thesis
  proof (cases rule: handle_begin_cases [of version parseJson isInit now rid req new ok h])
    case same
    with assms(1) h' show ?thesis by simp
  next
    case (known i x)
    have "scopes_inv (h\<lparr>h_store := beginRequest i now (h_store h)\<rparr>)"
      by (rule store_inv [OF assms(1) beginRequest_ok [OF ok_store]]) (simp add: get_beginRequest split: if_splits)
    from flight_inv [OF this, of "\<lparr>fl_header = Some i, fl_opened = None, fl_registered = False\<rparr>" rid] known h' show ?thesis by simp
  next
    case opened
    with opened_inv [OF assms(1) fresh] h' show ?thesis by simp
  next
    case failed
    with openSession_inv [OF assms(1) fresh] h' show ?thesis by simp
  qed
next
  case (Register rid n1 n2 n3 n4)
  with assms(2) obtain f s where "js_get (h_flights h) rid = Some f" "fl_opened f = Some s" "s \<notin> set (h_started h)"
    "h' = (registered_callback s n1 n2 n3 n4 h)\<lparr>h_flights := js_set rid (f\<lparr>fl_registered := True\<rparr>) (h_flights h)\<rparr>"
    by (auto split: option.splits if_splits)
  with registered_inv [OF assms(1)] show ?thesis by blast
next
  case (Finish now rid)
  with assms(2) obtain f where f: "js_get (h_flights h) rid = Some f" "h' = handle_end now rid f h" by (auto split: option.splits)
  have "js_get (h_scopes h) s = None" if "fl_opened f = Some s" "\<not> fl_registered f" for s
    using assms(1) f(1) that unfolding scopes_inv_def by blast
  with handle_end_inv [OF assms(1), of f now rid] f(2) show ?thesis by blast
next
  case (OnClose s)
  with assms(2) have "h' = release s h" by (simp split: if_splits)
  with release_inv [OF assms(1)] show ?thesis by simp
next
  case (RunDispose s)
  with assms(2) have "s \<in> set (h_started h)" "s \<notin> set (h_disposed h)" "h' = run_dispose s h" by (simp_all split: if_splits)
  with run_dispose_inv [OF assms(1)] show ?thesis by simp
next
  case (SettleDispose s)
  with assms(2) have "h' = h\<lparr>h_disposing := remove1 s (h_disposing h)\<rparr>" by (simp split: if_splits)
  with assms(1) show ?thesis by (simp add: scopes_inv_def)
next
  case (Initialized s sampling)
  with assms(2) have "js_get (h_scopes h) s \<noteq> None" "h' = initialized_callback s sampling h" by (simp_all split: if_splits)
  with initialized_inv [OF assms(1)] show ?thesis by simp
next
  case BootHooks
  with assms(2) have "h_bootStarted h" "h' = startHooks h" by (simp_all split: if_splits)
  with assms(1) show ?thesis by (simp add: scopes_inv_def startHooks_def)
qed

lemma new_host_inv: "scopes_inv (new_host cap ttl)"
  by (simp add: scopes_inv_def new_host_def) (simp add: new_store_def)

lemma run_scopes_inv: "scopes_inv h \<Longrightarrow> host_run version parseJson isInit es h = Some h' \<Longrightarrow> scopes_inv h'"
proof (induction es arbitrary: h)
  case (Cons e es)
  then obtain h1 where "host_step version parseJson isInit e h = Some h1" "host_run version parseJson isInit es h1 = Some h'"
    by (auto split: option.splits)
  with Cons show ?case using step_scopes_inv by blast
qed simp

text \<open>
  C18: whatever requests, closes, initialized notices and disposals come in whatever order, the server that
  the hooks ask is that of a candidate that can sample and is the newest such, its session is connected
  or its disposal has not run yet, and without a target no candidate can sample once the hooks listen.
  A scope's disposal runs at most once.
\<close>

theorem sampling_target_live:
  assumes "host_run version parseJson isInit es (new_host cap ttl) = Some h"
  shows "(case h_target h of
       None \<Rightarrow> h_hooksListening h \<longrightarrow> filter cd_sampling (js_values (h_candidates h)) = []
     | Some s \<Rightarrow> s \<notin> set (h_disposed h) \<and> (js_get (h_scopes h) s \<noteq> None \<or> s \<in> set (h_started h)) \<and>
         (\<exists>c. js_get (h_candidates h) s = Some c \<and> cd_sampling c \<and>
           list_all (\<lambda>d. cd_order d \<le> cd_order c) (filter cd_sampling (js_values (h_candidates h))))) \<and>
    distinct (h_disposed h)"
proof -
  have inv: "scopes_inv h" by (rule run_scopes_inv [OF new_host_inv assms])
  have target: "if h_hooksListening h then h_target h = pickSamplingTarget (h_candidates h) else h_target h = None"
    using inv by (auto simp: scopes_inv_def)
  show ?thesis
  proof (cases "h_target h")
    case None
    with target inv show ?thesis by (auto simp: pickSamplingTarget_def foldl_newer_None scopes_inv_def)
  next
    case (Some s)
    with target have "pickSamplingTarget (h_candidates h) = Some s" by (auto split: if_splits)
    then obtain c where c: "foldl newer None (filter cd_sampling (js_values (h_candidates h))) = Some c" "cd_server c = s"
      by (auto simp: pickSamplingTarget_def)
    from newest_candidate [OF c(1)] have newest: "c \<in> set (js_values (h_candidates h))" "cd_sampling c"
      "list_all (\<lambda>d. cd_order d \<le> cd_order c) (filter cd_sampling (js_values (h_candidates h)))" by (auto simp: list_all_iff)
    from newest(1) obtain s' where "(s', c) \<in> set (h_candidates h)" by (auto simp: js_values_def)
    then have get: "js_get (h_candidates h) s' = Some c" using inv by (simp add: scopes_inv_def js_get_in_set)
    from candidate_facts(1) [OF inv get] c(2) have "s' = s" by simp
    with get have get: "js_get (h_candidates h) s = Some c" by simp
    have "\<exists>c. js_get (h_candidates h) s = Some c \<and> cd_sampling c \<and>
        list_all (\<lambda>d. cd_order d \<le> cd_order c) (filter cd_sampling (js_values (h_candidates h)))"
      using get newest(2,3) by blast
    then show ?thesis unfolding Some option.case using candidate_facts(2,3) [OF inv get] scopes_inv_distinct [OF inv] by blast
  qed
qed

section \<open>Requests in flight\<close>

definition flights_inv :: "host \<Rightarrow> bool" where
  "flights_inv h \<longleftrightarrow> scopes_inv h \<and> js_wf (h_flights h) \<and>
     (\<forall>r f. js_get (h_flights h) r = Some f \<longrightarrow> fl_header f \<noteq> Some [] \<and> (fl_opened f \<noteq> None \<longrightarrow> fl_header f = None)) \<and>
     (\<forall>r f s. js_get (h_flights h) r = Some f \<and> trackedId f = Some s \<longrightarrow> s \<in> set (h_created h)) \<and>
     (\<forall>r f s r' f'. js_get (h_flights h) r = Some f \<and> fl_opened f = Some s \<and> \<not> fl_registered f \<and> js_get (h_flights h) r' = Some f' \<longrightarrow>
        trackedId f' \<noteq> Some s) \<and>
     (\<forall>s x. js_get (sessions (h_store h)) s = Some x \<longrightarrow>
        activeRequests x = count_values (\<lambda>f. trackedId f = Some s) (h_flights h))"

lemma flights_invD:
  assumes "flights_inv h"
  shows "scopes_inv h" "js_wf (h_flights h)"
    and "js_get (h_flights h) r = Some f \<Longrightarrow> fl_header f \<noteq> Some []"
    and "js_get (h_flights h) r = Some f \<Longrightarrow> fl_opened f = Some s \<Longrightarrow> fl_header f = None"
    and "js_get (h_flights h) r = Some f \<Longrightarrow> trackedId f = Some s \<Longrightarrow> s \<in> set (h_created h)"
    and "js_get (h_flights h) r = Some f \<Longrightarrow> fl_opened f = Some s \<Longrightarrow> \<not> fl_registered f \<Longrightarrow>
      js_get (h_flights h) r' = Some f' \<Longrightarrow> trackedId f' \<noteq> Some s"
    and "js_get (sessions (h_store h)) s = Some x \<Longrightarrow>
      activeRequests x = count_values (\<lambda>f. trackedId f = Some s) (h_flights h)"
  using assms unfolding flights_inv_def by blast+

lemma flights_invI:
  assumes "scopes_inv h" "js_wf (h_flights h)"
    and "\<And>r f. js_get (h_flights h) r = Some f \<Longrightarrow> fl_header f \<noteq> Some [] \<and> (fl_opened f \<noteq> None \<longrightarrow> fl_header f = None)"
    and "\<And>r f s. js_get (h_flights h) r = Some f \<Longrightarrow> trackedId f = Some s \<Longrightarrow> s \<in> set (h_created h)"
    and "\<And>r f s r' f'. js_get (h_flights h) r = Some f \<Longrightarrow> fl_opened f = Some s \<Longrightarrow> \<not> fl_registered f \<Longrightarrow>
      js_get (h_flights h) r' = Some f' \<Longrightarrow> trackedId f' \<noteq> Some s"
    and "\<And>s x. js_get (sessions (h_store h)) s = Some x \<Longrightarrow>
      activeRequests x = count_values (\<lambda>f. trackedId f = Some s) (h_flights h)"
  shows "flights_inv h"
  using assms unfolding flights_inv_def by blast

lemma flights_inv_frame:
  assumes inv: "flights_inv h" and "scopes_inv h'" and fl: "h_flights h' = h_flights h" and cr: "set (h_created h) \<subseteq> set (h_created h')"
    and st: "\<And>s x. js_get (sessions (h_store h')) s = Some x \<Longrightarrow> js_get (sessions (h_store h)) s = Some x"
  shows "flights_inv h'"
proof (rule flights_invI)
  show "js_wf (h_flights h')" using flights_invD(2) [OF inv] fl by simp
  show "s \<in> set (h_created h')" if "js_get (h_flights h') r = Some f" "trackedId f = Some s" for r f s
    using flights_invD(5) [OF inv, of r f s] that fl cr by auto
  show "activeRequests x = count_values (\<lambda>f. trackedId f = Some s) (h_flights h')"
    if "js_get (sessions (h_store h')) s = Some x" for s x using flights_invD(7) [OF inv st [OF that]] fl by simp
qed (use assms flights_invD(3,4,6) [OF inv] in auto)

lemma created_of_store:
  assumes "scopes_inv h" "js_get (sessions (h_store h)) i = Some x"
  shows "i \<in> set (h_created h)" "js_get (h_scopes h) i \<noteq> None"
proof -
  from assms show scopes: "js_get (h_scopes h) i \<noteq> None" by (simp add: scopes_inv_def)
  then obtain t where "js_get (h_scopes h) i = Some t" by blast
  with assms(1) show "i \<in> set (h_created h)" by (simp add: scopes_inv_def)
qed

lemma unregistered_facts:
  assumes "scopes_inv h" "js_get (h_flights h) r = Some f" "fl_opened f = Some s"
  shows "s \<in> set (h_created h)" "\<not> fl_registered f \<Longrightarrow> js_get (h_scopes h) s = None"
  using assms unfolding scopes_inv_def by blast+

lemma trackedId_simps [simp]:
  "i \<noteq> [] \<Longrightarrow> trackedId \<lparr>fl_header = Some i, fl_opened = opened, fl_registered = registered\<rparr> = Some i"
  "trackedId \<lparr>fl_header = None, fl_opened = opened, fl_registered = False\<rparr> = None"
  by (simp_all add: trackedId_def)

lemma known_flight:
  assumes inv: "flights_inv h" and i: "i \<noteq> []" "js_get (sessions (h_store h)) i = Some x" and fresh: "js_get (h_flights h) rid = None"
    and h': "h' = h\<lparr>h_store := beginRequest i now (h_store h),
      h_flights := js_set rid \<lparr>fl_header = Some i, fl_opened = None, fl_registered = False\<rparr> (h_flights h)\<rparr>"
    and sc: "scopes_inv h'"
  shows "flights_inv h'"
proof (rule flights_invI [OF sc])
  note D = flights_invD [OF inv]
  show "js_wf (h_flights h')" using D(2) h' by simp
  show "fl_header f \<noteq> Some [] \<and> (fl_opened f \<noteq> None \<longrightarrow> fl_header f = None)" if "js_get (h_flights h') r = Some f" for r f
    using that D(3,4) i(1) h' by (auto split: if_splits)
  show "s \<in> set (h_created h')" if "js_get (h_flights h') r = Some f" "trackedId f = Some s" for r f s
    using that D(5) [of r f s] created_of_store(1) [OF D(1) i(2)] i(1) h' by (auto split: if_splits)
  show "trackedId f' \<noteq> Some s"
    if f: "js_get (h_flights h') r = Some f" "fl_opened f = Some s" "\<not> fl_registered f" and f': "js_get (h_flights h') r' = Some f'" for r f s r' f'
  proof -
    from f have old: "js_get (h_flights h) r = Some f" using h' by (auto split: if_splits)
    have "s \<noteq> i" using unregistered_facts(2) [OF D(1) old f(2,3)] created_of_store(2) [OF D(1) i(2)] by auto
    with D(6) [OF old f(2,3), of r' f'] f' i(1) h' show ?thesis by (auto split: if_splits)
  qed
  show "activeRequests y = count_values (\<lambda>f. trackedId f = Some s) (h_flights h')"
    if "js_get (sessions (h_store h')) s = Some y" for s y
    using that h' i D(7) [of s] by (auto simp: count_values_new [OF fresh] get_beginRequest split: if_splits)
qed

lemma opened_flight:
  assumes inv: "flights_inv h" and new: "new \<notin> set (h_created h)" and fresh: "js_get (h_flights h) rid = None"
    and h': "h' = (openSession new True h)\<lparr>h_flights := js_set rid \<lparr>fl_header = None, fl_opened = Some new, fl_registered = False\<rparr> (h_flights h)\<rparr>"
    and sc: "scopes_inv h'"
  shows "flights_inv h'"
proof (rule flights_invI [OF sc])
  note D = flights_invD [OF inv]
  have parts: "h_flights h' = js_set rid \<lparr>fl_header = None, fl_opened = Some new, fl_registered = False\<rparr> (h_flights h)"
    "h_created h' = h_created h @ [new]" "h_store h' = h_store h" using h' by (simp_all add: openSession_def Let_def)
  show "js_wf (h_flights h')" using D(2) parts by simp
  show "fl_header f \<noteq> Some [] \<and> (fl_opened f \<noteq> None \<longrightarrow> fl_header f = None)" if "js_get (h_flights h') r = Some f" for r f
    using that D(3,4) parts by (auto split: if_splits)
  show "s \<in> set (h_created h')" if "js_get (h_flights h') r = Some f" "trackedId f = Some s" for r f s
    using that D(5) [of r f s] parts by (auto split: if_splits)
  show "trackedId f' \<noteq> Some s"
    if f: "js_get (h_flights h') r = Some f" "fl_opened f = Some s" "\<not> fl_registered f" and f': "js_get (h_flights h') r' = Some f'" for r f s r' f'
  proof (cases "r' = rid")
    case True
    with f' parts show ?thesis by auto
  next
    case False
    with f' parts have old': "js_get (h_flights h) r' = Some f'" by simp
    show ?thesis
    proof (cases "r = rid")
      case True
      with f parts have "s = new" by auto
      with D(5) [OF old'] new show ?thesis by auto
    next
      case False
      with f parts have "js_get (h_flights h) r = Some f" by simp
      from D(6) [OF this f(2,3) old'] show ?thesis .
    qed
  qed
  show "activeRequests y = count_values (\<lambda>f. trackedId f = Some s) (h_flights h')"
    if "js_get (sessions (h_store h')) s = Some y" for s y
    using that parts D(7) [of s] by (simp add: count_values_new [OF fresh])
qed

lemma registered_flight:
  assumes inv: "flights_inv h" and f: "js_get (h_flights h) r = Some f" "fl_opened f = Some s" "\<not> fl_registered f"
    and h': "h' = (registered_callback s n1 n2 n3 n4 h)\<lparr>h_flights := js_set r (f\<lparr>fl_registered := True\<rparr>) (h_flights h)\<rparr>"
    and sc: "scopes_inv h'"
  shows "flights_inv h'"
proof (rule flights_invI [OF sc])
  note D = flights_invD [OF inv]
  let ?g = "f\<lparr>fl_registered := True\<rparr>"
  have parts: "h_flights h' = js_set r ?g (h_flights h)" "h_created h' = h_created h"
    "h_store h' = beginRequest s n4 (set_session s s n1 n2 n3 (h_store h))" using h' by (simp_all add: registered_callback_def)
  have header: "fl_header f = None" using D(4) [OF f(1,2)] .
  then have tracked: "trackedId ?g = Some s" "trackedId f = None" using f by (simp_all add: trackedId_def)
  have ok: "table_ok (h_store h)" using D(1) by (simp add: scopes_inv_def)
  show "js_wf (h_flights h')" using D(2) parts by simp
  show "fl_header g \<noteq> Some [] \<and> (fl_opened g \<noteq> None \<longrightarrow> fl_header g = None)" if "js_get (h_flights h') q = Some g" for q g
    using that D(3,4) header parts by (auto split: if_splits)
  show "j \<in> set (h_created h')" if "js_get (h_flights h') q = Some g" "trackedId g = Some j" for q g j
    using that D(5) [of q g j] unregistered_facts(1) [OF D(1) f(1,2)] tracked parts by (auto split: if_splits)
  show "trackedId g' \<noteq> Some j"
    if g: "js_get (h_flights h') q = Some g" "fl_opened g = Some j" "\<not> fl_registered g" and g': "js_get (h_flights h') q' = Some g'" for q g j q' g'
  proof -
    from g parts have "q \<noteq> r" by (auto split: if_splits)
    with g parts have old: "js_get (h_flights h) q = Some g" by simp
    have "j \<noteq> s" using D(1) old g(2) f \<open>q \<noteq> r\<close> unfolding scopes_inv_def by blast
    with D(6) [OF old g(2,3), of q' g'] g' tracked parts show ?thesis by (auto split: if_splits)
  qed
  have none: "count_values (\<lambda>g. trackedId g = Some s) (h_flights h) = 0"
    using D(6) [OF f] D(2) by (intro count_values_0) auto
  have count: "count_values (\<lambda>g. trackedId g = Some j) (h_flights h') =
      count_values (\<lambda>g. trackedId g = Some j) (h_flights h) + (if j = s then 1 else 0)" for j
    using count_values_set [OF D(2) f(1), of "\<lambda>g. trackedId g = Some j" ?g] tracked parts(1) by auto
  show "activeRequests y = count_values (\<lambda>g. trackedId g = Some j) (h_flights h')"
    if "js_get (sessions (h_store h')) j = Some y" for j y
  proof (cases "j = s")
    case True
    with that parts obtain x where x: "js_get (sessions (set_session s s n1 n2 n3 (h_store h))) s = Some x" "activeRequests y = Suc (activeRequests x)"
      by (auto simp: get_beginRequest)
    from get_set_session [OF ok x(1)] x(2) none count [of s] True show ?thesis by simp
  next
    case False
    with that parts have "js_get (sessions (set_session s s n1 n2 n3 (h_store h))) j = Some y" by (simp add: get_beginRequest)
    from get_set_session [OF ok this] False D(7) count [of j] show ?thesis by simp
  qed
qed

lemma finished_flight:
  assumes inv: "flights_inv h" and f: "js_get (h_flights h) r = Some f" and h': "h' = handle_end now r f h" and sc: "scopes_inv h'"
  shows "flights_inv h'"
proof (rule flights_invI [OF sc])
  note D = flights_invD [OF inv]
  define st where "st = (case trackedId f of None \<Rightarrow> h_store h | Some s \<Rightarrow> endRequest s (h_store h))"
  have parts: "h_flights h' = js_delete r (h_flights h)" "h_created h' = h_created h" "h_store h' = evict now None st"
    unfolding h' handle_end_def st_def by (auto simp: Let_def trackDispose_def dispose_def split: option.split)
  have ok: "table_ok st" using D(1) by (auto simp: scopes_inv_def st_def store_ok split: option.split)
  show "js_wf (h_flights h')" using D(2) parts by simp
  show "fl_header g \<noteq> Some [] \<and> (fl_opened g \<noteq> None \<longrightarrow> fl_header g = None)" if "js_get (h_flights h') q = Some g" for q g
    using that D(3,4) parts by (auto split: if_splits)
  show "j \<in> set (h_created h')" if "js_get (h_flights h') q = Some g" "trackedId g = Some j" for q g j
    using that D(5) [of q g j] parts by (auto split: if_splits)
  show "trackedId g' \<noteq> Some j"
    if "js_get (h_flights h') q = Some g" "fl_opened g = Some j" "\<not> fl_registered g" "js_get (h_flights h') q' = Some g'" for q g j q' g'
    using that D(6) [of q g j q' g'] parts by (auto split: if_splits)
  show "activeRequests y = count_values (\<lambda>g. trackedId g = Some j) (h_flights h')"
    if "js_get (sessions (h_store h')) j = Some y" for j y
  proof -
    from that parts have "js_get (sessions st) j = Some y" using get_evict [OF ok] by simp
    then show ?thesis
      using D(7) [of j] count_values_delete [OF D(2) f, of "\<lambda>g. trackedId g = Some j"] parts(1)
      by (cases "trackedId f") (auto simp: st_def get_endRequest split: if_splits)
  qed
qed

definition plain_event :: "host_event \<Rightarrow> bool" where
  "plain_event e = (case e of Arrive now rid req new ok \<Rightarrow> session_header req \<noteq> Some [] | _ \<Rightarrow> True)"

lemma step_flights_inv:
  assumes "flights_inv h" "host_step version parseJson isInit e h = Some h'" "plain_event e"
  shows "flights_inv h'"
proof -
  have sc: "scopes_inv h'" by (rule step_scopes_inv [OF flights_invD(1) [OF assms(1)] assms(2)])
  have frame: "flights_inv h'" if "h_flights h' = h_flights h" "set (h_created h) \<subseteq> set (h_created h')" "h_store h' = h_store h"
    by (rule flights_inv_frame [OF assms(1) sc that(1,2)]) (simp add: that(3))
  show ?thesis
  proof (cases e)
    case (Arrive now rid req new ok)
    with assms(2) have fresh: "new \<notin> set (h_created h)" "js_get (h_flights h) rid = None"
      and h': "h' = snd (handle_begin version parseJson isInit now rid req new ok h)" by (simp_all split: if_splits)
    show ?thesis
    proof (cases rule: handle_begin_cases [of version parseJson isInit now rid req new ok h])
      case same
      with assms(1) h' show ?thesis by simp
    next
      case (known i x)
      show ?thesis by (rule known_flight [OF assms(1) known(2,3) fresh(2) _ sc]) (simp add: h' known(4))
    next
      case opened
      then have "session_header req = None" using assms(3) Arrive by (auto simp: plain_event_def)
      with opened show ?thesis by (intro opened_flight [OF assms(1) fresh _ sc]) (simp add: h')
    next
      case failed
      show ?thesis by (rule frame) (auto simp: h' failed openSession_def trackDispose_def dispose_def Let_def)
    qed
  next
    case (Register rid n1 n2 n3 n4)
    with assms(2) obtain f s where "js_get (h_flights h) rid = Some f" "fl_opened f = Some s" "\<not> fl_registered f"
      "h' = (registered_callback s n1 n2 n3 n4 h)\<lparr>h_flights := js_set rid (f\<lparr>fl_registered := True\<rparr>) (h_flights h)\<rparr>"
      by (auto split: option.splits if_splits)
    from registered_flight [OF assms(1) this sc] show ?thesis .
  next
    case (Finish now rid)
    with assms(2) obtain f where "js_get (h_flights h) rid = Some f" "h' = handle_end now rid f h" by (auto split: option.splits)
    from finished_flight [OF assms(1) this sc] show ?thesis .
  next
    case (OnClose s)
    with assms(2) have h': "h' = release s h" by (simp split: if_splits)
    show ?thesis
      by (rule flights_inv_frame [OF assms(1) sc])
        (auto simp: h' release_def trackDispose_def dispose_def Let_def split: if_splits)
  next
    case (RunDispose s)
    with assms(2) have h': "h' = run_dispose s h" by (simp split: if_splits)
    show ?thesis by (rule frame) (auto simp: h' run_dispose_def onDispose_def disposed_callback_def applySamplingTarget_def)
  next
    case (SettleDispose s)
    with assms(2) have h': "h' = h\<lparr>h_disposing := remove1 s (h_disposing h)\<rparr>" by (simp split: if_splits)
    show ?thesis by (rule frame) (simp_all add: h')
  next
    case (Initialized s sampling)
    with assms(2) have h': "h' = initialized_callback s sampling h" by (simp split: if_splits)
    show ?thesis by (rule frame) (auto simp: h' initialized_callback_def applySamplingTarget_def Let_def)
  next
    case BootHooks
    with assms(2) have h': "h' = startHooks h" by (simp split: if_splits)
    show ?thesis by (rule frame) (simp_all add: h' startHooks_def)
  qed
qed

lemma new_host_flights: "flights_inv (new_host cap ttl)"
  by (rule flights_invI [OF new_host_inv]) (simp_all add: new_host_def new_store_def count_values_def js_values_def)

lemma run_flights_inv:
  "flights_inv h \<Longrightarrow> host_run version parseJson isInit es h = Some h' \<Longrightarrow> list_all plain_event es \<Longrightarrow> flights_inv h'"
proof (induction es arbitrary: h)
  case (Cons e es)
  then obtain h1 where "host_step version parseJson isInit e h = Some h1" "host_run version parseJson isInit es h1 = Some h'"
    by (auto split: option.splits)
  with Cons show ?case using step_flights_inv by (simp, blast)
qed simp

text \<open>
  C19: while no request carries an empty session header, every session in the table counts exactly the
  requests being handled for it: while one runs the table cannot drop it (\<open>in_flight_never_evicted\<close>), and
  once they have ended it is idle and can expire.
\<close>

theorem requests_counted:
  assumes "host_run version parseJson isInit es (new_host cap ttl) = Some h"
    and "list_all plain_event es"
  shows "list_all (\<lambda>(s, x). activeRequests x = count_values (\<lambda>f. trackedId f = Some s) (h_flights h)) (sessions (h_store h))"
proof -
  have inv: "flights_inv h" by (rule run_flights_inv [OF new_host_flights assms])
  have "js_wf (sessions (h_store h))" using flights_invD(1) [OF inv] by (simp add: scopes_inv_def table_ok_def)
  then show ?thesis using flights_invD(7) [OF inv] by (auto simp: list_all_iff js_get_in_set)
qed

definition sample_init :: "string list \<Rightarrow> mcpRequest" where
  "sample_init headers = \<lparr>mr_method = Some ''POST'', mr_url = Some ''/mcp'', mr_sessions = headers, mr_body = Inr [123, 125]\<rparr>"

definition sample_events :: "string list \<Rightarrow> host_event list" where
  "sample_events headers = [Arrive 0 0 (sample_init headers) ''a'' True, Register 0 1 1 1 1, Finish 2 0, Initialized ''a'' True, BootHooks]"

definition sample_host :: "string list \<Rightarrow> host option" where
  "sample_host headers = host_run ''1.0'' (\<lambda>_. Some ()) (\<lambda>_. True) (sample_events headers) (new_host 32 1800000)"

definition host_summary :: "host \<Rightarrow> string option \<times> nat list \<times> (nat, flight) jsmap" where
  "host_summary h = (h_target h, map (activeRequests \<circ> snd) (sessions (h_store h)), h_flights h)"

lemma sample_run: "map_option host_summary (sample_host []) = Some (Some ''a'', [0], [])"
  by code_simp

theorem sampling_target_live_witness:
  "\<exists>h c. sample_host [] = Some h \<and> h_target h = Some ''a'' \<and> js_get (h_candidates h) ''a'' = Some c \<and> cd_sampling c"
proof -
  from sample_run obtain h where h: "sample_host [] = Some h" "h_target h = Some ''a''" by (auto simp: host_summary_def)
  from sampling_target_live [OF h(1) [unfolded sample_host_def]] h show ?thesis by auto
qed

theorem requests_counted_witness:
  "\<exists>h. sample_host [] = Some h \<and> list_all (\<lambda>(s, x). activeRequests x = count_values (\<lambda>f. trackedId f = Some s) (h_flights h)) (sessions (h_store h))"
proof -
  from sample_run obtain h where h: "sample_host [] = Some h" by auto
  have "list_all plain_event (sample_events [])"
    by (simp add: sample_events_def plain_event_def session_header_def sample_init_def)
  from requests_counted [OF h [unfolded sample_host_def] this] h show ?thesis by blast
qed

text \<open>
  An empty session header breaks the count: the initialize request that carries one opens a session like
  any other, but at its end \<open>sessionId ?? opened?.registration.id\<close> is the empty text, so \<open>endRequest\<close> is
  not called and the session stays busy for ever: it neither expires nor can it be evicted.
\<close>

lemma empty_header_session_never_idle: "map_option host_summary (sample_host [[]]) = Some (Some ''a'', [1], [])"
  by code_simp

end
