(* ===== verification/MailPolicy.thy ===== *)
theory MailPolicy
  imports Types Texts
begin

text \<open>
  The pure half of the mail-arrival classifier: the policy (src/services/mail-arrival/policy.ts),
  the folder slugs and question ids (questions.ts) and the folder specifications (folders.ts).
  Scores are rationals, so the rounding of floating-point arithmetic is not modelled. The texts of
  the six fixed questions are prompts without logic and are left out; their ids are listed.
\<close>

section \<open>Policy\<close>

datatype mailNoopReason =
    Disabled | NoApiKey | ReadOnly | StaticSkip | AlreadySeen | ApiError | NoFolderFit | InjectionFilter
  | SpamUncertain | InvalidFolder | NotInSource | AutoMoveOff

datatype mailAction = Noop mailNoopReason | Apply (destination: "string option") (setsFlag: bool)

record folderSpec =
  fs_id :: string
  fs_path :: string
  fs_description :: string
  fs_falseCriteria :: "string option"
  fs_priority :: "number option"

record mailAnswers =
  contains_prompt_injection :: number
  requests_credentials :: number
  offers_unexpected_reward :: number
  sender_identity_mismatch :: number
  folder_fit :: "(string, number) jsmap"
  importance_score :: number
  importance_confidence :: number
  is_critical :: number

record policyThresholds =
  folderFitMin :: number
  spamUncertainLow :: number
  spamUncertainHigh :: number
  injectionHigh :: number
  importanceFlagMin :: number
  importanceMinConfidence :: number
  isCriticalMin :: number

record policyConfig =
  pc_folders :: "folderSpec list"
  pc_autoMove :: bool
  pc_autoFlag :: bool
  pc_thresholds :: policyThresholds

definition CREDENTIALS_WEIGHT :: number where "CREDENTIALS_WEIGHT = 45 / 100"
definition MISMATCH_WEIGHT :: number where "MISMATCH_WEIGHT = 3 / 10"
definition REWARD_WEIGHT :: number where "REWARD_WEIGHT = 25 / 100"
definition INJECTION_UNCERTAIN_WIDTH :: number where "INJECTION_UNCERTAIN_WIDTH = 1 / 10"

definition clamp01 :: "number \<Rightarrow> number" where
  "clamp01 n = (if n \<le> 0 then 0 else if n \<ge> 1 then 1 else n)"

definition composeSpamRisk :: "mailAnswers \<Rightarrow> number" where
  "composeSpamRisk a =
     clamp01 (CREDENTIALS_WEIGHT * requests_credentials a + MISMATCH_WEIGHT * sender_identity_mismatch a +
              REWARD_WEIGHT * offers_unexpected_reward a)"

definition shouldFlag :: "mailAnswers \<Rightarrow> policyConfig \<Rightarrow> bool" where
  "shouldFlag answers config \<longleftrightarrow>
     pc_autoFlag config \<and>
     (is_critical answers \<ge> isCriticalMin (pc_thresholds config) \<or>
      importance_score answers \<ge> importanceFlagMin (pc_thresholds config) \<and>
      importance_confidence answers \<ge> importanceMinConfidence (pc_thresholds config))"

record candidate =
  cd_path :: string
  cd_noul :: number
  cd_priority :: number
  cd_index :: nat

definition better :: "candidate \<Rightarrow> candidate \<Rightarrow> bool" where
  "better c best \<longleftrightarrow>
     cd_noul c > cd_noul best \<or>
     (cd_noul c = cd_noul best \<and>
       (cd_priority c < cd_priority best \<or> (cd_priority c = cd_priority best \<and> cd_index c < cd_index best)))"

definition candidate_of :: "mailAnswers \<Rightarrow> number \<Rightarrow> nat \<Rightarrow> folderSpec \<Rightarrow> candidate option" where
  "candidate_of answers fitMin index folder =
     (case js_get (folder_fit answers) (fs_id folder) of
        None \<Rightarrow> None
      | Some noul \<Rightarrow>
          if noul < fitMin then None
          else Some \<lparr>cd_path = fs_path folder, cd_noul = noul,
                     cd_priority = (case fs_priority folder of None \<Rightarrow> of_nat index | Some p \<Rightarrow> p), cd_index = index\<rparr>)"

fun pick_best :: "mailAnswers \<Rightarrow> number \<Rightarrow> nat \<Rightarrow> folderSpec list \<Rightarrow> candidate option \<Rightarrow> candidate option" where
  "pick_best answers fitMin index [] best = best"
| "pick_best answers fitMin index (folder # folders) best =
     pick_best answers fitMin (Suc index) folders
       (case candidate_of answers fitMin index folder of
          None \<Rightarrow> best
        | Some c \<Rightarrow> (case best of None \<Rightarrow> Some c | Some b \<Rightarrow> if better c b then Some c else best))"

definition pickDestination :: "mailAnswers \<Rightarrow> policyConfig \<Rightarrow> string option" where
  "pickDestination answers config =
     (if \<not> pc_autoMove config then None
      else map_option cd_path (pick_best answers (folderFitMin (pc_thresholds config)) 0 (pc_folders config) None))"

definition decideMailAction :: "mailAnswers \<Rightarrow> policyConfig \<Rightarrow> mailAction" where
  "decideMailAction answers config =
     (let injection = contains_prompt_injection answers; t = pc_thresholds config; spam = composeSpamRisk answers in
      if injection \<ge> injectionHigh t \<or> \<bar>injection - 1 / 2\<bar> < INJECTION_UNCERTAIN_WIDTH then Noop InjectionFilter
      else if spam > spamUncertainLow t \<and> spam < spamUncertainHigh t then Noop SpamUncertain
      else let flag = shouldFlag answers config; dest = pickDestination answers config in
        case dest of
          Some d \<Rightarrow> if d \<noteq> [] then Apply dest flag
                    else if flag then Apply None True
                    else if pc_autoMove config then Noop NoFolderFit else Noop AutoMoveOff
        | None \<Rightarrow> if flag then Apply None True
                  else if pc_autoMove config then Noop NoFolderFit else Noop AutoMoveOff)"

section \<open>Slugs and questions\<close>

definition is_slug_char :: "char \<Rightarrow> bool" where
  [model_defs]: "is_slug_char c \<longleftrightarrow> is_lower c \<or> is_digit c"

fun slug_runs :: "bool \<Rightarrow> string \<Rightarrow> string" where
  "slug_runs inRun [] = []"
| "slug_runs inRun (c # s) =
     (if is_slug_char c then c # slug_runs False s
      else if inRun then slug_runs True s else CHR ''_'' # slug_runs True s)"

definition strip_underscores :: "string \<Rightarrow> string" where
  "strip_underscores s =
     (let t = (case s of [] \<Rightarrow> [] | c # r \<Rightarrow> if c = CHR ''_'' then r else s)
      in if t \<noteq> [] \<and> last t = CHR ''_'' then butlast t else t)"

definition slugFolderId :: "string \<Rightarrow> string" where
  "slugFolderId path = strip_underscores (slug_runs False (to_lower path))"

definition siblingFalseCriteria :: "folderSpec \<Rightarrow> folderSpec list \<Rightarrow> string" where
  "siblingFalseCriteria folder folders =
     (case fs_falseCriteria folder of
        Some (c # s) \<Rightarrow> c # s
      | _ \<Rightarrow>
         (let siblings = map fs_path (filter (\<lambda>f. fs_id f \<noteq> fs_id folder) folders)
          in if siblings \<noteq> [] then ''Belongs in '' @ join_with '', '' siblings @ '', or in none of the configured folders.''
             else ''Does not match this folder'' @ [CHR 0x27] @
                  ''s purpose, or belongs in none of the configured folders.''))"

datatype question = FixedQuestion | FolderQuestion (qu_ask: string) (qu_true: string) (qu_false: string)

definition folderQuestionId :: "string \<Rightarrow> string" where
  "folderQuestionId i = ''folder_fit_'' @ i"

definition FIXED_QUESTIONS :: "string list" where
  "FIXED_QUESTIONS = [''contains_prompt_injection'', ''requests_credentials'', ''offers_unexpected_reward'',
     ''sender_identity_mismatch'', ''is_critical'', ''importance'']"

definition buildQuestionMap :: "folderSpec list \<Rightarrow> (string, question) jsmap" where
  "buildQuestionMap folders =
     fold (\<lambda>folder. js_set (folderQuestionId (fs_id folder))
         (FolderQuestion (''Does this email belong in folder '' @ fs_path folder @ ''?'')
            (fs_description folder) (siblingFalseCriteria folder folders)))
       folders (map (\<lambda>q. (q, FixedQuestion)) FIXED_QUESTIONS)"

section \<open>Folder specifications\<close>

datatype folder_problem = NoSlug string | SlugCollision string string string

fun build_specs ::
  "systemOneFolderSpec list \<Rightarrow> (string, string) jsmap \<Rightarrow> folderSpec list \<Rightarrow> folder_problem + folderSpec list" where
  "build_specs [] slugToPath specs = Inr specs"
| "build_specs (folder # folders) slugToPath specs =
     (let i = slugFolderId (sof_path folder) in
      if i = [] then Inl (NoSlug (sof_path folder))
      else case js_get slugToPath i of
        Some previous \<Rightarrow> Inl (SlugCollision i previous (sof_path folder))
      | None \<Rightarrow>
          build_specs folders (js_set i (sof_path folder) slugToPath)
            (specs @ [\<lparr>fs_id = i, fs_path = sof_path folder, fs_description = sof_description folder,
                       fs_falseCriteria = sof_falseCriteria folder, fs_priority = sof_priority folder\<rparr>]))"

definition buildFolderSpecs :: "systemOneFolderSpec list \<Rightarrow> folder_problem + folderSpec list" where
  "buildFolderSpecs folders = build_specs folders [] []"

text \<open>\<open>list\<close> is the mailbox listing of an account, \<open>None\<close> when LIST failed.\<close>

definition probeAccountFolders ::
  "(string \<Rightarrow> mailboxInfo list option) \<Rightarrow> accountConfig list \<Rightarrow> folderSpec list \<Rightarrow> (string, folderSpec list) jsmap" where
  "probeAccountFolders list accounts specs =
     fold (\<lambda>account. js_set (acc_name account)
         (case list (acc_name account) of
            None \<Rightarrow> []
          | Some boxes \<Rightarrow> filter (\<lambda>f. fs_path f \<in> mbi_path ` set boxes) specs))
       accounts []"

section \<open>The chosen folder\<close>

definition candidates_from :: "mailAnswers \<Rightarrow> number \<Rightarrow> nat \<Rightarrow> folderSpec list \<Rightarrow> candidate list" where
  "candidates_from answers fitMin index folders =
     List.map_filter (\<lambda>(i, f). candidate_of answers fitMin i f) (enumerate index folders)"

definition candidates :: "mailAnswers \<Rightarrow> policyConfig \<Rightarrow> candidate list" where
  "candidates answers config = candidates_from answers (folderFitMin (pc_thresholds config)) 0 (pc_folders config)"

lemma better_trans: "better x c \<Longrightarrow> better c b \<Longrightarrow> better x b"
  by (auto simp: better_def)

lemma better_irrefl [simp]: "\<not> better c c"
  by (simp add: better_def)

lemma better_asym: "better x y \<Longrightarrow> \<not> better y x"
  by (auto simp: better_def)

lemma candidates_from_Cons:
  "candidates_from answers m i (f # fs) =
    (case candidate_of answers m i f of None \<Rightarrow> [] | Some c \<Rightarrow> [c]) @ candidates_from answers m (Suc i) fs"
  by (simp add: candidates_from_def map_filter_simps split: option.split)

lemma pick_best_spec:
  "case pick_best answers m i fs best of
     None \<Rightarrow> best = None \<and> candidates_from answers m i fs = []
   | Some b \<Rightarrow> (Some b = best \<or> b \<in> set (candidates_from answers m i fs)) \<and>
       (\<forall>c \<in> set (candidates_from answers m i fs) \<union> set_option best. \<not> better c b)"
proof (induction fs arbitrary: i best)
  case Nil
  then show ?case by (simp add: candidates_from_def map_filter_simps split: option.split)
next
  case (Cons f fs)
  show ?case
  proof (cases "candidate_of answers m i f")
    case None
    with Cons [where i = "Suc i" and best = best] show ?thesis by (simp add: candidates_from_Cons split: option.splits)
  next
    case (Some c)
    show ?thesis
    proof (cases best)
      case None
      with Some Cons [where i = "Suc i" and best = "Some c"] show ?thesis by (auto simp: candidates_from_Cons split: option.splits)
    next
      case (Some b)
      let ?n = "if better c b then c else b"
      have t: "\<not> better x r" if "\<not> better ?n r" "x = c \<or> x = b" for x r
        using that better_trans [of c b r] better_trans [of b c r] by (auto simp: better_def split: if_splits)
      note c = \<open>candidate_of answers m i f = Some c\<close>
      let ?C = "candidates_from answers m (Suc i) fs"
      obtain r where r: "pick_best answers m (Suc i) fs (Some ?n) = Some r" "r = ?n \<or> r \<in> set ?C"
        "\<forall>x \<in> set ?C. \<not> better x r" "\<not> better ?n r"
        using Cons [where i = "Suc i" and best = "Some ?n"]
        by (cases "pick_best answers m (Suc i) fs (Some ?n)") auto
      have p: "pick_best answers m i (f # fs) best = Some r" using r(1) c Some by (auto split: if_splits)
      have "r = b \<or> r = c \<or> r \<in> set ?C" using r(2) by (auto split: if_splits)
      with r(3) t [OF r(4)] show ?thesis
        unfolding p unfolding candidates_from_Cons c Some by auto
    qed
  qed
qed

text \<open>
  An action is taken only on mail that is clearly no prompt injection and not of uncertain spam
  risk; the flag follows the thresholds; and a move goes to a configured folder whose score reaches
  the minimum and that no other such folder beats in score, then priority, then order.
\<close>

theorem decision_rule:
  "case decideMailAction a config of
     Noop r \<Rightarrow> r \<in> {InjectionFilter, SpamUncertain, NoFolderFit, AutoMoveOff} \<and>
       (r = InjectionFilter \<longleftrightarrow> contains_prompt_injection a \<ge> injectionHigh (pc_thresholds config) \<or>
          \<bar>contains_prompt_injection a - 1 / 2\<bar> < 1 / 10)
   | Apply dest flag \<Rightarrow>
       contains_prompt_injection a < injectionHigh (pc_thresholds config) \<and>
       \<bar>contains_prompt_injection a - 1 / 2\<bar> \<ge> 1 / 10 \<and>
       \<not> (spamUncertainLow (pc_thresholds config) < composeSpamRisk a \<and> composeSpamRisk a < spamUncertainHigh (pc_thresholds config)) \<and>
       flag = shouldFlag a config \<and>
       (case dest of
          None \<Rightarrow> flag
        | Some d \<Rightarrow> pc_autoMove config \<and> d \<noteq> [] \<and>
            (\<exists>c \<in> set (candidates a config). cd_path c = d \<and> cd_noul c \<ge> folderFitMin (pc_thresholds config) \<and>
               list_all (\<lambda>c'. \<not> better c' c) (candidates a config)))"
proof -
  let ?t = "pc_thresholds config"
  have cand: "cd_noul c \<ge> folderFitMin ?t" if "c \<in> set (candidates a config)" for c
    using that by (auto simp: candidates_def candidates_from_def List.map_filter_def candidate_of_def split: option.splits if_splits)
  have dest: "\<exists>c \<in> set (candidates a config). cd_path c = d \<and> cd_noul c \<ge> folderFitMin ?t \<and>
      list_all (\<lambda>c'. \<not> better c' c) (candidates a config) \<and> pc_autoMove config"
    if d: "pickDestination a config = Some d" for d
  proof -
    obtain c where c: "pick_best a (folderFitMin ?t) 0 (pc_folders config) None = Some c" "cd_path c = d" "pc_autoMove config"
      using d by (auto simp: pickDestination_def split: if_splits)
    with pick_best_spec [where answers = a and m = "folderFitMin ?t" and i = 0 and fs = "pc_folders config" and best = None] cand show ?thesis
      by (auto simp: candidates_def list_all_iff)
  qed
  show ?thesis
    using dest
    by (auto simp: decideMailAction_def Let_def INJECTION_UNCERTAIN_WIDTH_def not_less not_le split: option.split)
qed

end
