(* ===== verification/EmailText.thy ===== *)
theory EmailText
  imports Texts
begin

text \<open>
  The plain-text half of src/utils/email-body.ts: quoted reply chains and signatures, the check for
  a raw MIME dump, and the length caps.
\<close>

definition MAX_HTML_INPUT_CHARS :: nat where "MAX_HTML_INPUT_CHARS = 2 * 1024 * 1024"
definition DEFAULT_BODY_MAX_LENGTH :: nat where "DEFAULT_BODY_MAX_LENGTH = 20000"

definition signature_line :: "string \<Rightarrow> bool" where
  "signature_line l \<longleftrightarrow>
     p_matches (p_seq (p_lit ''--'') (p_seq (p_star is_space) p_end)) l \<or>
     p_matches (p_seq (p_range (\<lambda>c. c = CHR ''_'') 3 (length l)) (p_seq (p_star is_space) p_end)) l"

text \<open>Runs of three or more line feeds become two.\<close>

fun squeeze_lines :: "nat \<Rightarrow> string \<Rightarrow> string" where
  "squeeze_lines n [] = []"
| "squeeze_lines n (c # s) =
     (if c = CHR 0x0A then (if n < 2 then c # squeeze_lines (Suc n) s else squeeze_lines n s)
      else c # squeeze_lines 0 s)"

definition stripReplyChain :: "string \<Rightarrow> string" where
  "stripReplyChain s =
     (let relevant = takeWhile (\<lambda>l. \<not> signature_line l) (split_on CHR 0x0A s)
      in trim (squeeze_lines 0 (join_with [CHR 0x0A] (filter (\<lambda>l. \<not> starts_with ''>'' l) relevant))))"

definition boundary_char :: "char \<Rightarrow> bool" where
  "boundary_char c \<longleftrightarrow> is_digit c \<or> is_lower c \<or> is_upper c \<or>
     c \<in> set (CHR 0x27 # ''()+_,.=/?-'')"

definition mime_header :: pattern where
  "mime_header =
     p_seq (p_lit ''--'') (p_seq (p_range boundary_char 1 70) (p_seq (p_star is_space) (p_seq (p_lit [CHR 0x0A])
       (p_seq (p_lit ''content-'') (p_seq (p_alt (p_lit ''type'') (p_alt (p_lit ''transfer-encoding'') (p_lit ''disposition'')))
         (p_seq (p_star is_space) (p_lit '':'')))))))"

fun line_starts :: "bool \<Rightarrow> string \<Rightarrow> string list" where
  "line_starts b [] = (if b then [[]] else [])"
| "line_starts b (c # s) = (if b then [c # s] else []) @ line_starts (c = CHR 0x0A) s"

definition looksLikeRawMime :: "string \<Rightarrow> bool" where
  "looksLikeRawMime s \<longleftrightarrow>
     p_matches (p_seq (p_lit ''content-type'') (p_seq (p_star is_space) (p_seq (p_lit '':'') (p_seq (p_star is_space)
       (p_alt (p_lit ''multipart/'') (p_lit ''message/rfc822'')))))) (to_lower (dropWhile is_space s)) \<or>
     list_ex (p_matches mime_header) (line_starts True (to_lower s))"

text \<open>
  \<open>preferRicherPlain\<close>, with the text of the HTML part (\<open>stripHtml\<close> of it) in place of the part.
\<close>

definition preferRicherPlain :: "string option \<Rightarrow> string \<Rightarrow> string" where
  "preferRicherPlain plain htmlText =
     (let plainText = (case plain of Some p \<Rightarrow> if p \<noteq> [] \<and> \<not> looksLikeRawMime p then p else [] | None \<Rightarrow> [])
      in if plainText = [] then htmlText
         else if htmlText = [] then plainText
         else if length htmlText \<ge> max (length plainText * 2) (length plainText + 40) then htmlText
         else plainText)"

end
