(* ===== verification/MailArrival.thy ===== *)
theory MailArrival
  imports MailPolicy EmailText
begin

text \<open>
  The mail-arrival classifier (src/services/mail-arrival/state.ts and index.ts): the state sent to
  the classifier, reading its answers, applying the decision, and the record of seen messages.
  \<open>handle\<close> is cut where it awaits: \<open>handle_begin\<close> claims the message, \<open>handle_end\<close> gives the claim
  back when reading or classifying failed. The classifier service and the IMAP calls are an
  \<open>arrival_env\<close>; the calls made are returned in order.
\<close>

section \<open>State sent to the classifier\<close>

record dkimResult =
  dk_result :: string
  dk_domain :: "string option"

record authSignals =
  au_fromDomain :: "string option"
  au_replyToDomain :: "string option"
  au_returnPathDomain :: "string option"
  au_spf :: "string option"
  au_dkim :: "dkimResult list"
  au_dmarc :: "string option"
  au_hasListUnsubscribe :: bool
  au_hasListUnsubscribePost :: bool

record arrivalEmail =
  ar_account :: string
  ar_mailbox :: string
  ar_meta :: emailMeta

record attachmentName =
  an_filename :: string
  an_mime :: string

record mailState =
  st_displayName :: string
  st_senderEmail :: string
  st_subject :: string
  st_body :: string
  st_links :: "string list"
  st_attachments :: "attachmentName list"
  st_spf :: "string option"
  st_dkim :: "(string \<times> string option) list"
  st_dmarc :: "string option"
  st_fromDomain :: "string option"
  st_replyToDomain :: "string option"
  st_returnPathDomain :: "string option"
  st_hasListUnsubscribe :: bool
  st_account :: string
  st_folder :: string

definition url_char :: "char \<Rightarrow> bool" where
  "url_char c \<longleftrightarrow> \<not> is_space c \<and> c \<notin> {CHR ''<'', CHR ''>'', CHR 0x22, CHR 0x27, CHR 0x5C, CHR '')''}"

definition url_scheme :: "string \<Rightarrow> nat option" where
  "url_scheme s = (if starts_with ''http://'' (to_lower s) then Some 7
     else if starts_with ''https://'' (to_lower s) then Some 8 else None)"

definition match_url :: "string \<Rightarrow> (string \<times> string) option" where
  "match_url s =
     (case url_scheme s of
        None \<Rightarrow> None
      | Some n \<Rightarrow>
          (let rest = takeWhile url_char (drop n s) in
           if rest = [] then None else Some (take n s @ rest, dropWhile url_char (drop n s))))"

lemma match_url_shorter: "match_url s = Some (u, r) \<Longrightarrow> length r < length s"
proof -
  assume m: "match_url s = Some (u, r)"
  then obtain n where n: "takeWhile url_char (drop n s) \<noteq> []" "r = dropWhile url_char (drop n s)"
    by (auto simp: match_url_def Let_def split: option.splits if_splits)
  have "length (takeWhile url_char (drop n s)) + length r = length (drop n s)"
    unfolding n(2) by (metis length_append takeWhile_dropWhile_id)
  with n(1) show ?thesis by (cases "takeWhile url_char (drop n s)") auto
qed

function url_matches :: "string \<Rightarrow> string list" where
  "url_matches [] = []"
| "url_matches (c # s) =
     (case match_url (c # s) of
        Some (url, rest) \<Rightarrow> url # url_matches rest
      | None \<Rightarrow> url_matches s)"
  by pat_completeness auto
termination
  by (relation "measure length") (auto dest: match_url_shorter)

definition trailing_punctuation :: "char \<Rightarrow> bool" where
  "trailing_punctuation c \<longleftrightarrow> c \<in> set ''.,;:!?)''"

definition extractLinks :: "string \<Rightarrow> string list" where
  "extractLinks s =
     rev (remdups (rev (filter (\<lambda>u. u \<noteq> [])
       (map (\<lambda>raw. rev (dropWhile trailing_punctuation (rev raw))) (url_matches s)))))"

definition truncateBody :: "string \<Rightarrow> nat \<Rightarrow> string" where
  "truncateBody bodyText bodyMaxChars = take bodyMaxChars (stripReplyChain (preferRicherPlain (Some bodyText) []))"

definition buildMailState ::
  "arrivalEmail \<Rightarrow> authSignals \<Rightarrow> string \<Rightarrow> attachmentName list \<Rightarrow> bool \<Rightarrow> nat \<Rightarrow> mailState" where
  "buildMailState email security bodyText attachmentNames includeBody bodyMaxChars =
     (let body = (if includeBody then truncateBody bodyText bodyMaxChars else []);
          meta = ar_meta email
      in \<lparr>st_displayName = (case ea_name (em_from meta) of None \<Rightarrow> [] | Some n \<Rightarrow> n),
          st_senderEmail = ea_address (em_from meta), st_subject = em_subject meta, st_body = body,
          st_links = extractLinks (if includeBody then em_subject meta @ [CHR 0x0A] @ body else em_subject meta),
          st_attachments = attachmentNames,
          st_spf = au_spf security, st_dkim = map (\<lambda>d. (dk_result d, dk_domain d)) (au_dkim security),
          st_dmarc = au_dmarc security, st_fromDomain = au_fromDomain security,
          st_replyToDomain = au_replyToDomain security, st_returnPathDomain = au_returnPathDomain security,
          st_hasListUnsubscribe = au_hasListUnsubscribe security,
          st_account = ar_account email, st_folder = ar_mailbox email\<rparr>)"

section \<open>Reading the answers\<close>

text \<open>A field is \<open>None\<close> when it is missing or not a finite number; a non-object answer has no field.\<close>

record rawAnswer =
  ra_noul :: "number option"
  ra_score :: "number option"
  ra_confidence :: "number option"

type_synonym rawAnswers = "(string, rawAnswer) jsmap"

definition noulValue :: "rawAnswers \<Rightarrow> string \<Rightarrow> number option" where
  "noulValue answers i = Option.bind (js_get answers i) ra_noul"

definition scoreValue :: "rawAnswers \<Rightarrow> string \<Rightarrow> (number \<times> number) option" where
  "scoreValue answers i =
     Option.bind (js_get answers i) (\<lambda>raw.
       case (ra_score raw, ra_confidence raw) of (Some s, Some c) \<Rightarrow> Some (s, c) | _ \<Rightarrow> None)"

definition fit_answers :: "rawAnswers \<Rightarrow> folderSpec list \<Rightarrow> (string, number) jsmap" where
  "fit_answers raw folders =
     fold (\<lambda>folder m. case noulValue raw (folderQuestionId (fs_id folder)) of
        None \<Rightarrow> m | Some noul \<Rightarrow> js_set (fs_id folder) noul m) folders []"

definition mapAnswers :: "rawAnswers \<Rightarrow> folderSpec list \<Rightarrow> mailAnswers option" where
  "mapAnswers raw folders =
     Option.bind (noulValue raw ''contains_prompt_injection'') (\<lambda>injection.
     Option.bind (noulValue raw ''requests_credentials'') (\<lambda>credentials.
     Option.bind (noulValue raw ''offers_unexpected_reward'') (\<lambda>reward.
     Option.bind (noulValue raw ''sender_identity_mismatch'') (\<lambda>mismatch.
     Option.bind (noulValue raw ''is_critical'') (\<lambda>critical.
     Option.bind (scoreValue raw ''importance'') (\<lambda>(score, confidence).
       Some \<lparr>contains_prompt_injection = injection, requests_credentials = credentials,
             offers_unexpected_reward = reward, sender_identity_mismatch = mismatch,
             folder_fit = fit_answers raw folders, importance_score = score,
             importance_confidence = confidence, is_critical = critical\<rparr>))))))"

section \<open>Classify and apply\<close>

record arrival_env =
  getEmailSecurity :: "arrivalEmail \<Rightarrow> authSignals option"
  peekText :: "arrivalEmail \<Rightarrow> string option"
  peekAttachments :: "arrivalEmail \<Rightarrow> attachmentName list option"
  systemOne :: "mailState \<Rightarrow> (string, question) jsmap \<Rightarrow> string \<Rightarrow> rawAnswers option"

datatype imap_op =
    SetFlag (op_account: string) (op_uid: string) (op_mailbox: string)
  | MoveEmail (op_account: string) (op_uid: string) (op_mailbox: string) (op_target: string)
  | AuditEntry (op_account: string) (op_uid: string) (op_mailbox: string) (op_destination: "string option") (op_flag: bool)

definition classify :: "arrival_env \<Rightarrow> mailState \<Rightarrow> string \<Rightarrow> folderSpec list \<Rightarrow> mailAnswers option" where
  "classify E state model folders =
     (case systemOne E state (buildQuestionMap folders) model of
        None \<Rightarrow> None
      | Some raw \<Rightarrow> if raw = [] then None else mapAnswers raw folders)"

definition SEEN_LIMIT :: nat where "SEEN_LIMIT = 5000"

definition seenKey :: "arrivalEmail \<Rightarrow> string" where
  "seenKey email =
     (case em_messageId (ar_meta email) of
        Some (c # mid) \<Rightarrow> ''mid:'' @ ar_account email @ '':'' @ (c # mid)
      | _ \<Rightarrow> ''uid:'' @ ar_account email @ '':'' @ ar_mailbox email @ '':'' @ em_id (ar_meta email))"

text \<open>The calls of \<open>applyMailAction\<close>; one that fails is logged and the next is made all the same.\<close>

definition applyMailAction :: "arrivalEmail \<Rightarrow> mailAction \<Rightarrow> imap_op list" where
  "applyMailAction email action =
     (case action of
        Noop _ \<Rightarrow> []
      | Apply dest flag \<Rightarrow>
          (let a = ar_account email; i = em_id (ar_meta email); box = ar_mailbox email in
           (if flag then [SetFlag a i box] else []) @
           (case dest of Some (c # d) \<Rightarrow> [MoveEmail a i box (c # d)] | _ \<Rightarrow> []) @
           [AuditEntry a i box dest flag]))"

definition policy_config :: "systemOneConfig \<Rightarrow> folderSpec list \<Rightarrow> policyConfig" where
  "policy_config config folders =
     (let t = so_thresholds config in
      \<lparr>pc_folders = folders, pc_autoMove = so_autoMove config, pc_autoFlag = so_autoFlag config,
       pc_thresholds = \<lparr>folderFitMin = th_folderFitMin t, spamUncertainLow = th_spamUncertainLow t,
          spamUncertainHigh = th_spamUncertainHigh t, injectionHigh = th_injectionHigh t,
          importanceFlagMin = th_importanceFlagMin t, importanceMinConfidence = th_importanceMinConfidence t,
          isCriticalMin = th_isCriticalMin t\<rparr>\<rparr>)"

record mail_arrival =
  ma_config :: systemOneConfig
  ma_folders :: "(string, folderSpec list) jsmap"
  ma_seen :: "string list"

text \<open>\<open>tryCreate\<close>: no classifier without the setting, an API key and folders that have ids.\<close>

definition tryCreate ::
  "systemOneConfig \<Rightarrow> (string \<Rightarrow> mailboxInfo list option) \<Rightarrow> string option \<Rightarrow> accountConfig list \<Rightarrow> mail_arrival option" where
  "tryCreate config boxes apiKey accounts =
     (if \<not> so_enabled config \<or> (case apiKey of None \<Rightarrow> True | Some k \<Rightarrow> trim k = []) then None
      else case buildFolderSpecs (so_folders config) of
        Inl _ \<Rightarrow> None
      | Inr specs \<Rightarrow> Some \<lparr>ma_config = config, ma_folders = probeAccountFolders boxes accounts specs, ma_seen = []\<rparr>)"

definition classifyAndApply :: "arrival_env \<Rightarrow> mail_arrival \<Rightarrow> arrivalEmail \<Rightarrow> mailAction \<times> imap_op list" where
  "classifyAndApply E A email =
     (let config = ma_config A;
          folders = (case js_get (ma_folders A) (ar_account email) of None \<Rightarrow> [] | Some fs \<Rightarrow> fs) in
      case getEmailSecurity E email of
        None \<Rightarrow> (Noop ApiError, [])
      | Some security \<Rightarrow>
          (let bodyText = (if so_includeBody config then (case peekText E email of None \<Rightarrow> [] | Some t \<Rightarrow> t) else []);
               names = (case peekAttachments E email of None \<Rightarrow> [] | Some l \<Rightarrow> l);
               state = buildMailState email security bodyText names (so_includeBody config) (so_bodyMaxChars config)
           in case classify E state (so_model config) folders of
                None \<Rightarrow> (Noop ApiError, [])
              | Some mapped \<Rightarrow>
                  (let action = decideMailAction mapped (policy_config config folders)
                   in (action, applyMailAction email action))))"

text \<open>\<open>Some\<close> action when \<open>handle\<close> returns at once, \<open>None\<close> when it goes on to classify.\<close>

definition handle_begin :: "string list \<Rightarrow> arrivalEmail \<Rightarrow> string list \<Rightarrow> mailAction option \<times> string list" where
  "handle_begin sources email seen =
     (if seenKey email \<in> set seen then (Some (Noop AlreadySeen), seen)
      else if ar_mailbox email \<notin> set sources then (Some (Noop NotInSource), seen)
      else let added = seen @ [seenKey email] in
        (None, if length added > SEEN_LIMIT then tl added else added))"

definition handle_end :: "arrivalEmail \<Rightarrow> mailAction \<Rightarrow> string list \<Rightarrow> string list" where
  "handle_end email action seen = (if action = Noop ApiError then removeAll (seenKey email) seen else seen)"

definition handle :: "arrival_env \<Rightarrow> arrivalEmail \<Rightarrow> mail_arrival \<Rightarrow> (mailAction \<times> imap_op list) \<times> mail_arrival" where
  "handle E email A =
     (case handle_begin (so_sourceFolders (ma_config A)) email (ma_seen A) of
        (Some action, seen) \<Rightarrow> ((action, []), A\<lparr>ma_seen := seen\<rparr>)
      | (None, seen) \<Rightarrow>
          (case classifyAndApply E A email of
             (action, ops) \<Rightarrow> ((action, ops), A\<lparr>ma_seen := handle_end email action seen\<rparr>)))"

section \<open>Notices in flight together\<close>

datatype notice = Begins arrivalEmail | Ends arrivalEmail mailAction

fun run_notices :: "string list \<Rightarrow> notice list \<Rightarrow> string list \<Rightarrow> string list \<times> string list" where
  "run_notices sources [] seen = ([], seen)"
| "run_notices sources (Begins email # ns) seen =
     (case handle_begin sources email seen of
        (Some _, seen') \<Rightarrow> run_notices sources ns seen'
      | (None, seen') \<Rightarrow> (case run_notices sources ns seen' of (ks, s) \<Rightarrow> (seenKey email # ks, s)))"
| "run_notices sources (Ends email action # ns) seen = run_notices sources ns (handle_end email action seen)"

definition fails_for :: "string \<Rightarrow> notice \<Rightarrow> bool" where
  "fails_for k n \<longleftrightarrow> (case n of Begins _ \<Rightarrow> False | Ends email action \<Rightarrow> seenKey email = k \<and> action = Noop ApiError)"

lemma run_notices_once:
  "length seen + length (fst (run_notices sources ns seen)) \<le> SEEN_LIMIT \<Longrightarrow> list_all (\<lambda>n. \<not> fails_for k n) ns \<Longrightarrow>
   count_list (fst (run_notices sources ns seen)) k \<le> (if k \<in> set seen then 0 else 1)"
proof (induction sources ns seen rule: run_notices.induct)
  case (2 sources email ns seen)
  obtain r seen' where b: "handle_begin sources email seen = (r, seen')" by fastforce
  show ?case
  proof (cases r)
    case (Some action)
    then have "seen' = seen" using b by (auto simp: handle_begin_def Let_def split: if_splits)
    with 2(2) [OF b [symmetric] Some] 2(3,4) b Some show ?thesis by simp
  next
    case None
    obtain ks s where run: "run_notices sources ns seen' = (ks, s)" by fastforce
    have new: "seenKey email \<notin> set seen" using b None by (auto simp: handle_begin_def split: if_splits)
    have "length seen + length (seenKey email # ks) \<le> SEEN_LIMIT" using 2(3) b None run by simp
    then have seen': "seen' = seen @ [seenKey email]"
      using b None by (auto simp: handle_begin_def Let_def split: if_splits)
    have "count_list ks k \<le> (if k \<in> set seen' then 0 else 1)"
      using 2(1) [OF b [symmetric] None] 2(3,4) b None run seen' by simp
    then show ?thesis using b None run new seen' by auto
  qed
next
  case (3 sources email action ns seen)
  let ?seen = "handle_end email action seen"
  have "length ?seen \<le> length seen" by (simp add: handle_end_def length_removeAll_less_eq)
  moreover have "k \<in> set seen \<Longrightarrow> k \<in> set ?seen" using 3(3) by (auto simp: handle_end_def fails_for_def)
  ultimately show ?case using 3 by (auto split: if_splits)
qed simp

lemma handle_begin_bound:
  "distinct seen \<Longrightarrow> length seen \<le> SEEN_LIMIT \<Longrightarrow>
   distinct (snd (handle_begin sources email seen)) \<and> length (snd (handle_begin sources email seen)) \<le> SEEN_LIMIT"
  by (auto simp: handle_begin_def Let_def distinct_tl)

lemma run_notices_bound:
  "distinct seen \<Longrightarrow> length seen \<le> SEEN_LIMIT \<Longrightarrow>
   distinct (snd (run_notices sources ns seen)) \<and> length (snd (run_notices sources ns seen)) \<le> SEEN_LIMIT"
proof (induction sources ns seen rule: run_notices.induct)
  case (2 sources email ns seen)
  obtain r seen' where b: "handle_begin sources email seen = (r, seen')" by fastforce
  have "distinct seen' \<and> length seen' \<le> SEEN_LIMIT" using handle_begin_bound [OF 2(3,4), of sources email] b by simp
  with 2(1,2) b show ?case by (cases r) (auto split: prod.splits)
next
  case (3 sources email action ns seen)
  have "distinct (handle_end email action seen)" "length (handle_end email action seen) \<le> SEEN_LIMIT"
    using 3(2,3) le_trans [OF length_removeAll_less_eq] by (auto simp: handle_end_def distinct_removeAll)
  with 3(1) show ?case by simp
qed simp


definition test_email :: "string \<Rightarrow> arrivalEmail" where
  "test_email mid = \<lparr>ar_account = ''me'', ar_mailbox = ''INBOX'', ar_meta = \<lparr>em_id = ''7'', em_subject = [],
     em_from = \<lparr>ea_name = None, ea_address = []\<rparr>, em_to = [], em_date = [], em_seen = False, em_flagged = False,
     em_answered = False, em_hasAttachments = False, em_labels = [], em_preview = None, em_messageId = Some mid\<rparr>\<rparr>"


end
