(* ===== verification/Watcher.thy ===== *)
theory Watcher
  imports Types Texts Backoff
begin

text \<open>
  The IDLE watcher (src/services/watcher.service.ts): the metadata of a fetched message, the state
  of each watched folder and the handlers of its events. \<open>connectIdle\<close> is cut where it awaits:
  \<open>connect_auth\<close> up to the new client, \<open>connect_opened\<close> after the mailbox is open,
  \<open>connect_failed\<close> for its catch block. Clients are numbers; a \<open>Date\<close> that parses is its ISO
  text. The second half runs one watched folder against an IMAP mailbox that receives, loses and
  renumbers mail: \<open>N:*\<close> gives what RFC 9051 says, and UIDVALIDITY changes only between sessions.
\<close>

section \<open>Message metadata\<close>

definition SYSTEM_FLAGS :: "string list" where
  "SYSTEM_FLAGS = map (\<lambda>s. CHR 0x5C # s) [''Seen'', ''Answered'', ''Flagged'', ''Deleted'', ''Draft'', ''Recent'', ''*'']"

datatype body_node = BodyNode (disposition: "string option") (childNodes: "body_node list")

record envelope_address =
  addr_name :: "string option"
  addr_address :: "string option"

record envelope =
  env_subject :: "string option"
  env_from :: "envelope_address list option"
  env_to :: "envelope_address list option"
  env_date :: "string option"
  env_messageId :: "string option"

record fetch_message =
  fm_uid :: nat
  fm_flags :: "string list option"
  fm_envelope :: "envelope option"
  fm_body :: "body_node option"

fun structureHasAttachments :: "body_node \<Rightarrow> bool" where
  "structureHasAttachments (BodyNode d children) \<longleftrightarrow>
     d = Some ''attachment'' \<or> list_ex structureHasAttachments children"

definition toIsoDate :: "string option \<Rightarrow> string \<Rightarrow> string" where
  "toIsoDate v now = (case v of Some t \<Rightarrow> t | None \<Rightarrow> now)"

definition or_empty :: "string option \<Rightarrow> string" where
  [model_defs]: "or_empty s = (case s of None \<Rightarrow> [] | Some t \<Rightarrow> t)"

definition buildEmailMeta :: "string \<Rightarrow> fetch_message \<Rightarrow> emailMeta" where
  "buildEmailMeta now msg =
     (let flags = (case fm_flags msg of None \<Rightarrow> [] | Some fs \<Rightarrow> fs);
          e = fm_envelope msg;
          from_addr = Option.bind e (\<lambda>e. case env_from e of Some (a # _) \<Rightarrow> Some a | _ \<Rightarrow> None);
          to_list = (case Option.bind e env_to of None \<Rightarrow> [] | Some l \<Rightarrow> l)
      in \<lparr>em_id = show_nat (fm_uid msg),
          em_subject = (case Option.bind e env_subject of None \<Rightarrow> ''(no subject)'' | Some s \<Rightarrow> s),
          em_from = \<lparr>ea_name = Option.bind from_addr addr_name,
                     ea_address = or_empty (Option.bind from_addr addr_address)\<rparr>,
          em_to = map (\<lambda>a. \<lparr>ea_name = addr_name a, ea_address = or_empty (addr_address a)\<rparr>) to_list,
          em_date = toIsoDate (Option.bind e env_date) now,
          em_seen = (CHR 0x5C # ''Seen'' \<in> set flags),
          em_flagged = (CHR 0x5C # ''Flagged'' \<in> set flags),
          em_answered = (CHR 0x5C # ''Answered'' \<in> set flags),
          em_hasAttachments = (case fm_body msg of None \<Rightarrow> False | Some b \<Rightarrow> structureHasAttachments b),
          em_labels = filter (\<lambda>f. f \<notin> set SYSTEM_FLAGS) flags,
          em_preview = None,
          em_messageId = Option.bind e env_messageId\<rparr>)"

section \<open>The state of a watched folder\<close>

type_synonym client = nat

record idle_state =
  idle_client :: "client option"
  idle_account :: string
  idle_folder :: string
  lastSeenUid :: nat
  uidValidity :: "nat option"
  reconnectTimer :: "number option"
  backoffMs :: number
  idle_stopped :: bool

type_synonym idle_map = "(string, idle_state) jsmap"

definition stateKey :: "string \<Rightarrow> string \<Rightarrow> string" where
  "stateKey account folder = account @ '':'' @ folder"

definition updateState :: "string \<Rightarrow> (idle_state \<Rightarrow> idle_state) \<Rightarrow> idle_map \<Rightarrow> idle_map" where
  "updateState key f m = (case js_get m key of None \<Rightarrow> m | Some st \<Rightarrow> js_set key (f st) m)"

definition scheduleReconnect :: "number \<Rightarrow> string \<Rightarrow> idle_map \<Rightarrow> idle_map" where
  "scheduleReconnect rnd key m =
     (case js_get m key of
        None \<Rightarrow> m
      | Some st \<Rightarrow>
          if idle_stopped st \<or> reconnectTimer st \<noteq> None then m
          else updateState key (\<lambda>st. st\<lparr>reconnectTimer := Some (withJitter rnd (backoffMs st))\<rparr>) m)"

definition timer_fired :: "string \<Rightarrow> idle_map \<Rightarrow> idle_map" where
  "timer_fired key m =
     updateState key (\<lambda>st. st\<lparr>reconnectTimer := None, backoffMs := nextBackoff (backoffMs st)\<rparr>) m"

definition forgetClient :: "number \<Rightarrow> string \<Rightarrow> client \<Rightarrow> idle_map \<Rightarrow> idle_map" where
  "forgetClient rnd key c m =
     (case js_get m key of
        None \<Rightarrow> m
      | Some st \<Rightarrow>
          if idle_client st \<noteq> Some c then m
          else scheduleReconnect rnd key (updateState key (\<lambda>st. st\<lparr>idle_client := None\<rparr>) m))"

definition startIdle :: "string \<Rightarrow> string \<Rightarrow> idle_map \<Rightarrow> idle_map" where
  "startIdle account folder m =
     js_set (stateKey account folder)
       \<lparr>idle_client = None, idle_account = account, idle_folder = folder, lastSeenUid = 0, uidValidity = None,
        reconnectTimer = None, backoffMs = INITIAL_BACKOFF_MS, idle_stopped = False\<rparr> m"

definition watcher_start :: "watcherConfig \<Rightarrow> accountConfig list \<Rightarrow> idle_map \<Rightarrow> idle_map" where
  "watcher_start config accounts m =
     (if \<not> wc_enabled config then m
      else fold (\<lambda>(a, f). startIdle (acc_name a) f) (List.product accounts (wc_folders config)) m)"

definition watcher_stop :: "idle_map \<Rightarrow> idle_map" where
  "watcher_stop m = []"

text \<open>The clients \<open>stop\<close> logs out of or closes.\<close>

definition stopped_clients :: "idle_map \<Rightarrow> client list" where
  "stopped_clients m = List.map_filter idle_client (js_values m)"

text \<open>\<open>authOk\<close> is whether the credentials could be built; the new client is \<open>c\<close>.\<close>

definition connect_failed :: "number \<Rightarrow> string \<Rightarrow> client option \<Rightarrow> idle_map \<Rightarrow> idle_map" where
  "connect_failed rnd key c m =
     scheduleReconnect rnd key (case c of None \<Rightarrow> m | Some c \<Rightarrow> forgetClient rnd key c m)"

definition connect_auth :: "number \<Rightarrow> string \<Rightarrow> bool \<Rightarrow> client \<Rightarrow> idle_map \<Rightarrow> idle_map" where
  "connect_auth rnd key authOk c m =
     (case js_get m key of
        None \<Rightarrow> m
      | Some st \<Rightarrow>
          if idle_stopped st then m
          else if \<not> authOk then connect_failed rnd key None m
          else updateState key (\<lambda>st. st\<lparr>idle_client := Some c\<rparr>) m)"

definition resume_after :: "nat \<Rightarrow> nat \<Rightarrow> idle_state \<Rightarrow> nat" where
  "resume_after uidNext validity st = (if uidValidity st = Some validity then lastSeenUid st else uidNext - 1)"

text \<open>Whether the new session has mail to fetch at once, and the state.\<close>

definition connect_opened :: "string \<Rightarrow> nat \<Rightarrow> nat \<Rightarrow> idle_map \<Rightarrow> bool \<times> idle_map" where
  "connect_opened key uidNext validity m =
     (case js_get m key of
        None \<Rightarrow> (False, m)
      | Some st \<Rightarrow>
          (let resume = resume_after uidNext validity st
           in (uidNext - 1 > resume,
               updateState key (\<lambda>st. st\<lparr>lastSeenUid := resume, uidValidity := Some validity, backoffMs := INITIAL_BACKOFF_MS\<rparr>) m)))"

section \<open>New mail\<close>

fun collect_new :: "string \<Rightarrow> nat \<Rightarrow> fetch_message list \<Rightarrow> emailMeta list \<Rightarrow> nat \<Rightarrow> emailMeta list \<times> nat" where
  "collect_new now seen [] emails maxUid = (emails, maxUid)"
| "collect_new now seen (msg # msgs) emails maxUid =
     (if fm_uid msg > seen
      then collect_new now seen msgs (emails @ [buildEmailMeta now msg]) (max maxUid (fm_uid msg))
      else collect_new now seen msgs emails maxUid)"

record new_email_event =
  ne_account :: string
  ne_mailbox :: string
  ne_emails :: "emailMeta list"

text \<open>\<open>fetched\<close> is \<open>None\<close> when the lock or the fetch failed.\<close>

definition handleNewEmails ::
  "string \<Rightarrow> string \<Rightarrow> fetch_message list option \<Rightarrow> idle_map \<Rightarrow> new_email_event option \<times> idle_map" where
  "handleNewEmails now key fetched m =
     (case js_get m key of
        None \<Rightarrow> (None, m)
      | Some st \<Rightarrow>
          (case (idle_client st, fetched) of
             (Some c, Some msgs) \<Rightarrow>
               (case collect_new now (lastSeenUid st) msgs [] (lastSeenUid st) of
                  (emails, maxUid) \<Rightarrow>
                    (if emails = [] then None
                     else Some \<lparr>ne_account = idle_account st, ne_mailbox = idle_folder st, ne_emails = emails\<rparr>,
                     if maxUid > lastSeenUid st then updateState key (\<lambda>st. st\<lparr>lastSeenUid := maxUid\<rparr>) m else m))
           | _ \<Rightarrow> (None, m)))"

section \<open>One folder and its mailbox\<close>

record watch_world =
  w_map :: idle_map
  w_connecting :: bool
  sv_validity :: nat
  sv_uids :: "nat list"
  sv_next :: nat
  announced :: "(nat \<times> nat) list"
  baseline :: nat

definition fetch_range :: "nat \<Rightarrow> nat list \<Rightarrow> nat set" where
  "fetch_range n uids = {u \<in> set uids. n \<le> u \<or> (\<forall>v \<in> set uids. v \<le> u)}"

definition idle_of :: "string \<Rightarrow> watch_world \<Rightarrow> idle_state option" where
  "idle_of k w = js_get (w_map w) k"

definition fetchable :: "string \<Rightarrow> watch_world \<Rightarrow> fetch_message list \<Rightarrow> bool" where
  "fetchable k w msgs \<longleftrightarrow>
     (\<exists>st. idle_of k w = Some st \<and> idle_client st \<noteq> None \<and> uidValidity st = Some (sv_validity w) \<and>
        distinct (map fm_uid msgs) \<and> set (map fm_uid msgs) = fetch_range (Suc (lastSeenUid st)) (sv_uids w))"

text \<open>The UIDs of an event, read back from the ids of its emails.\<close>

definition event_uids :: "new_email_event option \<Rightarrow> nat list" where
  "event_uids ev = (case ev of None \<Rightarrow> [] | Some e \<Rightarrow> map (\<lambda>m. number_of (em_id m)) (ne_emails e))"

definition fetch_new :: "string \<Rightarrow> string \<Rightarrow> fetch_message list \<Rightarrow> watch_world \<Rightarrow> watch_world" where
  "fetch_new now k msgs w =
     (case handleNewEmails now k (Some msgs) (w_map w) of
        (ev, m) \<Rightarrow> w\<lparr>w_map := m, announced := announced w @ map (Pair (sv_validity w)) (event_uids ev)\<rparr>)"

definition open_box :: "string \<Rightarrow> watch_world \<Rightarrow> watch_world" where
  "open_box k w =
     (case idle_of k w of
        None \<Rightarrow> w
      | Some st \<Rightarrow> w\<lparr>w_map := snd (connect_opened k (sv_next w) (sv_validity w) (w_map w)), w_connecting := False,
          baseline := (if uidValidity st = Some (sv_validity w) then baseline w else sv_next w - 1)\<rparr>)"

definition has_client :: "string \<Rightarrow> watch_world \<Rightarrow> bool" where
  "has_client k w \<longleftrightarrow> (\<exists>st c. idle_of k w = Some st \<and> idle_client st = Some c)"

inductive watch_step :: "string \<Rightarrow> watch_world \<Rightarrow> watch_world \<Rightarrow> bool" for k :: string where
  deliver: "sv_next w \<le> u \<Longrightarrow> watch_step k w (w\<lparr>sv_uids := sv_uids w @ [u], sv_next := Suc u\<rparr>)"
| expunge: "watch_step k w (w\<lparr>sv_uids := filter P (sv_uids w)\<rparr>)"
| renumber: "\<not> has_client k w \<Longrightarrow> sv_validity w < v \<Longrightarrow> list_all (\<lambda>u. u < n) uids \<Longrightarrow> 0 < n \<Longrightarrow>
    watch_step k w (w\<lparr>sv_validity := v, sv_uids := uids, sv_next := n\<rparr>)"
| auth: "w_connecting w \<Longrightarrow> watch_step k w (w\<lparr>w_map := connect_auth rnd k True c (w_map w)\<rparr>)"
| auth_fails: "w_connecting w \<Longrightarrow> 0 \<le> rnd \<Longrightarrow> rnd < 1 \<Longrightarrow>
    watch_step k w (w\<lparr>w_map := connect_auth rnd k False c (w_map w), w_connecting := False\<rparr>)"
| opens: "w_connecting w \<Longrightarrow> has_client k w \<Longrightarrow> watch_step k w (open_box k w)"
| open_fails: "w_connecting w \<Longrightarrow> 0 \<le> rnd \<Longrightarrow> rnd < 1 \<Longrightarrow>
    watch_step k w (w\<lparr>w_map := connect_failed rnd k c (w_map w), w_connecting := False\<rparr>)"
| drops: "0 \<le> rnd \<Longrightarrow> rnd < 1 \<Longrightarrow> watch_step k w (w\<lparr>w_map := forgetClient rnd k c (w_map w)\<rparr>)"
| timer: "idle_of k w = Some st \<Longrightarrow> reconnectTimer st \<noteq> None \<Longrightarrow>
    watch_step k w (w\<lparr>w_map := timer_fired k (w_map w), w_connecting := True\<rparr>)"
| fetched: "fetchable k w msgs \<Longrightarrow> watch_step k w (fetch_new now k msgs w)"
| fetch_fails: "watch_step k w (w\<lparr>w_map := snd (handleNewEmails now k None (w_map w))\<rparr>)"

definition watch_init :: "string \<Rightarrow> watch_world \<Rightarrow> bool" where
  "watch_init k w \<longleftrightarrow> (\<exists>account folder. k = stateKey account folder \<and> w_map w = startIdle account folder []) \<and>
     w_connecting w \<and> list_all (\<lambda>u. u < sv_next w) (sv_uids w) \<and> 0 < sv_next w \<and> announced w = []"

section \<open>What each handler does to its own state\<close>

definition sched :: "number \<Rightarrow> idle_state \<Rightarrow> idle_state" where
  "sched rnd st = (if idle_stopped st \<or> reconnectTimer st \<noteq> None then st
     else st\<lparr>reconnectTimer := Some (withJitter rnd (backoffMs st))\<rparr>)"

definition forget :: "number \<Rightarrow> client \<Rightarrow> idle_state \<Rightarrow> idle_state" where
  "forget rnd c st = (if idle_client st = Some c then sched rnd (st\<lparr>idle_client := None\<rparr>) else st)"

lemma updateState_get: "js_get m k = Some st \<Longrightarrow> js_get (updateState k f m) k = Some (f st)"
  by (simp add: updateState_def)

lemma scheduleReconnect_get: "js_get m k = Some st \<Longrightarrow> js_get (scheduleReconnect rnd k m) k = Some (sched rnd st)"
  by (simp add: scheduleReconnect_def sched_def updateState_get)

lemma forgetClient_get: "js_get m k = Some st \<Longrightarrow> js_get (forgetClient rnd k c m) k = Some (forget rnd c st)"
  by (simp add: forgetClient_def forget_def scheduleReconnect_get updateState_get)

lemma connect_failed_get:
  "js_get m k = Some st \<Longrightarrow> js_get (connect_failed rnd k c m) k =
    Some (sched rnd (case c of None \<Rightarrow> st | Some c \<Rightarrow> forget rnd c st))"
  by (simp add: connect_failed_def scheduleReconnect_get forgetClient_get split: option.split)

lemma timer_fired_get:
  "js_get m k = Some st \<Longrightarrow> js_get (timer_fired k m) k = Some (st\<lparr>reconnectTimer := None, backoffMs := nextBackoff (backoffMs st)\<rparr>)"
  by (simp add: timer_fired_def updateState_get)

lemma connect_auth_get:
  "js_get m k = Some st \<Longrightarrow> \<not> idle_stopped st \<Longrightarrow> js_get (connect_auth rnd k ok c m) k =
    Some (if ok then st\<lparr>idle_client := Some c\<rparr> else sched rnd st)"
  by (simp add: connect_auth_def connect_failed_get updateState_get)

lemma collect_new_eq:
  "collect_new now seen msgs emails mx =
    (emails @ map (buildEmailMeta now) (filter (\<lambda>m. seen < fm_uid m) msgs),
     foldl max mx (map fm_uid (filter (\<lambda>m. seen < fm_uid m) msgs)))"
  by (induction msgs arbitrary: emails mx) simp_all

lemma buildEmailMeta_uid [simp]: "number_of (em_id (buildEmailMeta now msg)) = fm_uid msg"
  by (simp add: buildEmailMeta_def Let_def)

lemma foldl_max: "(foldl max (a :: nat) xs \<ge> a) \<and> (\<forall>x \<in> set xs. x \<le> foldl max a xs) \<and> foldl max a xs \<in> insert a (set xs)"
proof (induction xs arbitrary: a)
  case (Cons x xs)
  from Cons [of "max a x"] show ?case by (auto simp: max_def split: if_splits)
qed simp

lemma handle_new_get:
  assumes "js_get m k = Some st" "idle_client st \<noteq> None"
  shows "event_uids (fst (handleNewEmails now k (Some msgs) m)) = filter (\<lambda>u. lastSeenUid st < u) (map fm_uid msgs)"
    and "js_get (snd (handleNewEmails now k (Some msgs) m)) k =
      Some (st\<lparr>lastSeenUid := foldl max (lastSeenUid st) (filter (\<lambda>u. lastSeenUid st < u) (map fm_uid msgs))\<rparr>)"
proof -
  let ?new = "filter (\<lambda>m. lastSeenUid st < fm_uid m) msgs"
  have f: "filter (\<lambda>u. lastSeenUid st < u) (map fm_uid msgs) = map fm_uid ?new" by (simp add: filter_map comp_def)
  obtain c where c: "idle_client st = Some c" using assms(2) by auto
  show "event_uids (fst (handleNewEmails now k (Some msgs) m)) = filter (\<lambda>u. lastSeenUid st < u) (map fm_uid msgs)"
    using assms(1) c by (simp add: handleNewEmails_def collect_new_eq event_uids_def f comp_def)
  have "foldl max (lastSeenUid st) (map fm_uid ?new) \<ge> lastSeenUid st" using foldl_max by blast
  then show "js_get (snd (handleNewEmails now k (Some msgs) m)) k =
      Some (st\<lparr>lastSeenUid := foldl max (lastSeenUid st) (filter (\<lambda>u. lastSeenUid st < u) (map fm_uid msgs))\<rparr>)"
    using assms(1) c by (auto simp: handleNewEmails_def collect_new_eq f updateState_get)
qed

section \<open>Invariants\<close>

definition uids_inv :: "idle_state \<Rightarrow> watch_world \<Rightarrow> bool" where
  "uids_inv st w \<longleftrightarrow>
     (\<forall>u \<in> set (sv_uids w). u < sv_next w) \<and> 0 < sv_next w \<and> distinct (announced w) \<and>
     (case uidValidity st of
        None \<Rightarrow> announced w = []
      | Some v \<Rightarrow> v \<le> sv_validity w \<and> baseline w \<le> lastSeenUid st \<and>
          (\<forall>(v', u) \<in> set (announced w). v' \<le> v \<and> (v' = v \<longrightarrow> baseline w < u \<and> u \<le> lastSeenUid st)) \<and>
          (v = sv_validity w \<longrightarrow> lastSeenUid st < sv_next w \<and>
             (\<forall>u \<in> set (sv_uids w). baseline w < u \<and> u \<le> lastSeenUid st \<longrightarrow> (v, u) \<in> set (announced w))))"

definition reconnect_inv :: "idle_state \<Rightarrow> bool \<Rightarrow> bool" where
  "reconnect_inv st connecting \<longleftrightarrow>
     \<not> idle_stopped st \<and> 1000 \<le> backoffMs st \<and> backoffMs st \<le> 60000 \<and>
     (\<forall>d. reconnectTimer st = Some d \<longrightarrow> 750 \<le> d \<and> d \<le> 60000) \<and>
     (idle_client st \<noteq> None \<or> reconnectTimer st \<noteq> None \<or> connecting)"

definition watch_inv :: "string \<Rightarrow> watch_world \<Rightarrow> bool" where
  "watch_inv k w \<longleftrightarrow> (\<exists>st. idle_of k w = Some st \<and> uids_inv st w \<and> reconnect_inv st (w_connecting w))"

lemma uids_inv_same:
  assumes "uids_inv st w" "lastSeenUid st' = lastSeenUid st" "uidValidity st' = uidValidity st"
    "sv_uids w' = sv_uids w" "sv_next w' = sv_next w" "sv_validity w' = sv_validity w" "announced w' = announced w"
    "baseline w' = baseline w"
  shows "uids_inv st' w'"
  using assms(1) unfolding uids_inv_def assms(2-8) .

lemma sched_fields [simp]:
  "lastSeenUid (sched rnd st) = lastSeenUid st" "uidValidity (sched rnd st) = uidValidity st"
  "lastSeenUid (forget rnd c st) = lastSeenUid st" "uidValidity (forget rnd c st) = uidValidity st"
  by (simp_all add: sched_def forget_def)

lemma jitter_range:
  assumes "1000 \<le> d" "d \<le> 60000" "0 \<le> rnd" "rnd < 1"
  shows "750 \<le> withJitter rnd d \<and> withJitter rnd d \<le> 60000"
  using withJitter_bounds [of rnd d] assms by simp

lemma sched_inv:
  assumes "\<not> idle_stopped st" "1000 \<le> backoffMs st" "backoffMs st \<le> 60000"
    "\<forall>d. reconnectTimer st = Some d \<longrightarrow> 750 \<le> d \<and> d \<le> 60000" "0 \<le> rnd" "rnd < 1"
  shows "reconnect_inv (sched rnd st) b"
  using assms jitter_range [OF assms(2,3,5,6)] by (auto simp: reconnect_inv_def sched_def)

lemma forget_inv:
  assumes "reconnect_inv st b" "0 \<le> rnd" "rnd < 1"
  shows "reconnect_inv (forget rnd c st) b"
  using assms sched_inv [of "st\<lparr>idle_client := None\<rparr>" rnd b] by (auto simp: forget_def reconnect_inv_def)

lemma failed_inv:
  assumes "reconnect_inv st b" "0 \<le> rnd" "rnd < 1"
  shows "reconnect_inv (sched rnd (case c of None \<Rightarrow> st | Some c \<Rightarrow> forget rnd c st)) b'"
proof -
  let ?st = "case c of None \<Rightarrow> st | Some c \<Rightarrow> forget rnd c st"
  have "reconnect_inv ?st b" using assms forget_inv by (simp split: option.split)
  then show ?thesis using assms(2,3) by (intro sched_inv) (auto simp: reconnect_inv_def)
qed

lemma inv_map_step:
  assumes "uids_inv st w" "js_get m k = Some st'" "lastSeenUid st' = lastSeenUid st" "uidValidity st' = uidValidity st"
    "reconnect_inv st' b"
  shows "watch_inv k (w\<lparr>w_map := m, w_connecting := b\<rparr>)"
  using assms uids_inv_same [OF assms(1,3,4), of "w\<lparr>w_map := m, w_connecting := b\<rparr>"]
  by (simp add: watch_inv_def idle_of_def)

lemma uids_invI:
  assumes "\<forall>u \<in> set (sv_uids w). u < sv_next w" "0 < sv_next w" "distinct (announced w)"
    "uidValidity st = Some (sv_validity w)" "baseline w \<le> lastSeenUid st" "lastSeenUid st < sv_next w"
    "\<And>v' u. (v', u) \<in> set (announced w) \<Longrightarrow> v' \<le> sv_validity w \<and> (v' = sv_validity w \<longrightarrow> baseline w < u \<and> u \<le> lastSeenUid st)"
    "\<And>u. u \<in> set (sv_uids w) \<Longrightarrow> baseline w < u \<Longrightarrow> u \<le> lastSeenUid st \<Longrightarrow> (sv_validity w, u) \<in> set (announced w)"
  shows "uids_inv st w"
  unfolding uids_inv_def assms(4) using assms(1-3,5-8) by auto

lemma fetched_new_uids:
  assumes "set us = fetch_range (Suc n) uids"
  shows "set (filter (\<lambda>u. n < u) us) = {u \<in> set uids. n < u}"
  using assms by (auto simp: fetch_range_def)

lemma fetch_new_inv:
  assumes "uids_inv st w" "reconnect_inv st (w_connecting w)" "idle_of k w = Some st" "fetchable k w msgs"
  shows "watch_inv k (fetch_new now k msgs w) \<and>
    (\<forall>u \<in> set (sv_uids w). baseline w < u \<longrightarrow> (sv_validity w, u) \<in> set (announced (fetch_new now k msgs w)))"
proof -
  let ?us = "filter (\<lambda>u. lastSeenUid st < u) (map fm_uid msgs)"
  let ?L = "foldl max (lastSeenUid st) ?us"
  have c: "idle_client st \<noteq> None" "uidValidity st = Some (sv_validity w)" "distinct (map fm_uid msgs)"
    "set (map fm_uid msgs) = fetch_range (Suc (lastSeenUid st)) (sv_uids w)"
    using assms(3,4) by (auto simp: fetchable_def)
  have us: "set ?us = {u \<in> set (sv_uids w). lastSeenUid st < u}" using fetched_new_uids [OF c(4)] .
  have ann: "announced (fetch_new now k msgs w) = announced w @ map (Pair (sv_validity w)) ?us"
    and get: "idle_of k (fetch_new now k msgs w) = Some (st\<lparr>lastSeenUid := ?L\<rparr>)"
    using handle_new_get [OF assms(3) [unfolded idle_of_def] c(1), of now msgs]
    by (simp_all add: fetch_new_def idle_of_def split_beta)
  have same: "sv_uids (fetch_new now k msgs w) = sv_uids w" "sv_next (fetch_new now k msgs w) = sv_next w"
    "sv_validity (fetch_new now k msgs w) = sv_validity w" "baseline (fetch_new now k msgs w) = baseline w"
    "w_connecting (fetch_new now k msgs w) = w_connecting w"
    by (simp_all add: fetch_new_def split_beta)
  have old: "v' \<le> sv_validity w \<and> (v' = sv_validity w \<longrightarrow> baseline w < u \<and> u \<le> lastSeenUid st)"
    if "(v', u) \<in> set (announced w)" for v' u
    using assms(1) that unfolding uids_inv_def c(2) by auto
  have bounds: "baseline w \<le> lastSeenUid st" "lastSeenUid st < sv_next w" "\<forall>u \<in> set (sv_uids w). u < sv_next w"
    "distinct (announced w)" "0 < sv_next w"
    and seen: "\<And>u. u \<in> set (sv_uids w) \<Longrightarrow> baseline w < u \<Longrightarrow> u \<le> lastSeenUid st \<Longrightarrow> (sv_validity w, u) \<in> set (announced w)"
    using assms(1) unfolding uids_inv_def c(2) by auto
  have L: "lastSeenUid st \<le> ?L" "\<forall>u \<in> set ?us. u \<le> ?L" "?L \<in> insert (lastSeenUid st) (set ?us)"
    using foldl_max by blast+
  have all: "(sv_validity w, u) \<in> set (announced w @ map (Pair (sv_validity w)) ?us)"
    if "u \<in> set (sv_uids w)" "baseline w < u" for u
    using that seen [OF that] us by (cases "u \<le> lastSeenUid st") auto
  have "distinct (announced w @ map (Pair (sv_validity w)) ?us)"
    using bounds(4) c(3) old by (fastforce simp: distinct_map inj_on_def)
  moreover have "?L < sv_next w" using L(3) us bounds(2,3) by auto
  moreover have "v' \<le> sv_validity w \<and> (v' = sv_validity w \<longrightarrow> baseline w < u \<and> u \<le> ?L)"
    if "(v', u) \<in> set (announced w @ map (Pair (sv_validity w)) ?us)" for v' u
    using that old [of v' u] L(1,2) bounds(1) by auto
  ultimately have "uids_inv (st\<lparr>lastSeenUid := ?L\<rparr>) (fetch_new now k msgs w)"
    by (intro uids_invI) (use bounds all L(1) c(2) in \<open>simp_all only: ann same idle_state.simps, (auto intro: le_trans)?\<close>)
  moreover have "reconnect_inv (st\<lparr>lastSeenUid := ?L\<rparr>) (w_connecting w)"
    using assms(2) by (simp add: reconnect_inv_def)
  ultimately show ?thesis using get all by (simp add: watch_inv_def same ann)
qed

lemma open_box_inv:
  assumes "uids_inv st w" "reconnect_inv st (w_connecting w)" "idle_of k w = Some st" "idle_client st \<noteq> None"
  shows "watch_inv k (open_box k w)"
proof -
  let ?st = "st\<lparr>lastSeenUid := resume_after (sv_next w) (sv_validity w) st, uidValidity := Some (sv_validity w), backoffMs := INITIAL_BACKOFF_MS\<rparr>"
  have get: "idle_of k (open_box k w) = Some ?st"
    using assms(3) by (simp add: open_box_def idle_of_def connect_opened_def Let_def updateState_get)
  have rec: "reconnect_inv ?st False" using assms(2,4) by (auto simp: reconnect_inv_def INITIAL_BACKOFF_MS_def)
  have w: "sv_uids (open_box k w) = sv_uids w" "sv_next (open_box k w) = sv_next w" "sv_validity (open_box k w) = sv_validity w"
    "announced (open_box k w) = announced w" "w_connecting (open_box k w) = False"
    "baseline (open_box k w) = (if uidValidity st = Some (sv_validity w) then baseline w else sv_next w - 1)"
    using assms(3) by (simp_all add: open_box_def)
  have "uids_inv ?st (open_box k w)"
  proof (cases "uidValidity st = Some (sv_validity w)")
    case True
    then show ?thesis
      using assms(1) unfolding uids_inv_def w by (simp add: resume_after_def)
  next
    case False
    have "v' < sv_validity w" if "(v', u) \<in> set (announced w)" for v' u
    proof (cases "uidValidity st")
      case None
      with assms(1) that show ?thesis by (simp add: uids_inv_def)
    next
      case (Some v)
      have "v \<le> sv_validity w" "v' \<le> v" using assms(1) that unfolding uids_inv_def Some by auto
      with False Some show ?thesis by auto
    qed
    moreover have "\<forall>u \<in> set (sv_uids w). u < sv_next w" "0 < sv_next w" "distinct (announced w)"
      using assms(1) by (simp_all add: uids_inv_def)
    ultimately show ?thesis
      using False by (intro uids_invI) (simp_all add: w resume_after_def, (fastforce simp: less_imp_le)+)
  qed
  with get rec show ?thesis by (simp add: watch_inv_def w(5))
qed

lemma watch_step_inv:
  assumes "watch_inv k w" "watch_step k w w'"
  shows "watch_inv k w'"
proof -
  obtain st where st: "idle_of k w = Some st" "uids_inv st w" "reconnect_inv st (w_connecting w)"
    using assms(1) by (auto simp: watch_inv_def)
  note get = st(1) [unfolded idle_of_def]
  note map_step = inv_map_step [OF st(2), of _ k]
  have run: "\<not> idle_stopped st" using st(3) by (simp add: reconnect_inv_def)
  from assms(2) show ?thesis
  proof cases
    case (deliver u)
    have "uids_inv st w'" using st(2) deliver by (auto simp: uids_inv_def split: option.splits)
    with st show ?thesis by (simp add: watch_inv_def idle_of_def deliver)
  next
    case (expunge P)
    have "uids_inv st w'" using st(2) expunge by (auto simp: uids_inv_def split: option.splits)
    with st show ?thesis by (simp add: watch_inv_def idle_of_def expunge)
  next
    case (renumber v n uids)
    have "uids_inv st w'" using st(2) renumber by (fastforce simp: uids_inv_def list_all_iff split: option.splits)
    with st show ?thesis by (simp add: watch_inv_def idle_of_def renumber)
  next
    case (auth rnd c)
    have "reconnect_inv (st\<lparr>idle_client := Some c\<rparr>) True" using st(3) by (simp add: reconnect_inv_def)
    from map_step [OF connect_auth_get [OF get run, of rnd True c, unfolded if_True] _ _ this] show ?thesis using auth by (cases w) simp
  next
    case (auth_fails rnd c)
    have "reconnect_inv (sched rnd st) False"
      using st(3) auth_fails by (intro sched_inv) (auto simp: reconnect_inv_def)
    from map_step [OF connect_auth_get [OF get run, of rnd False c, unfolded if_False] _ _ this] show ?thesis using auth_fails by simp
  next
    case opens
    then show ?thesis using open_box_inv [OF st(2,3,1)] st(1) by (auto simp: has_client_def)
  next
    case (open_fails rnd c)
    from map_step [OF connect_failed_get [OF get] _ _ failed_inv [OF st(3) open_fails(3,4)]] show ?thesis
      unfolding open_fails(1) by (simp split: option.split)
  next
    case (drops rnd c)
    from map_step [OF forgetClient_get [OF get] _ _ forget_inv [OF st(3) drops(2,3)]] show ?thesis
      unfolding drops(1) by simp
  next
    case (timer st')
    have "reconnect_inv (st\<lparr>reconnectTimer := None, backoffMs := nextBackoff (backoffMs st)\<rparr>) True"
      using st(3) nextBackoff_range [of "backoffMs st"] by (simp add: reconnect_inv_def)
    from map_step [OF timer_fired_get [OF get] _ _ this] show ?thesis unfolding timer(1) by simp
  next
    case (fetched msgs now)
    then show ?thesis using fetch_new_inv [OF st(2,3,1)] by simp
  next
    case (fetch_fails now)
    then have "w' = w" using get by (auto simp: handleNewEmails_def split: option.split)
    with assms(1) show ?thesis by simp
  qed
qed

lemma watch_init_inv:
  assumes "watch_init k w"
  shows "watch_inv k w"
  using assms by (auto simp: watch_init_def watch_inv_def idle_of_def startIdle_def uids_inv_def reconnect_inv_def
      INITIAL_BACKOFF_MS_def list_all_iff)

interpretation watched: invariant_system "watch_init k" "watch_step k" "watch_inv k" for k
  by unfold_locales (auto intro: watch_init_inv watch_step_inv)

section \<open>Properties\<close>

text \<open>
  C10: however mail arrives, is expunged and is renumbered, and however the connection drops, fails
  and resumes, no message of an epoch is announced twice; and right after a fetch that works, every
  message in the mailbox that arrived after the watch of this epoch began has been announced.
\<close>

theorem each_mail_announced_once:
  assumes "reachable (watch_init k) (watch_step k) w"
  shows "distinct (announced w) \<and>
    (\<forall>now msgs u. fetchable k w msgs \<and> u \<in> set (sv_uids w) \<and> baseline w < u \<longrightarrow>
       (sv_validity w, u) \<in> set (announced (fetch_new now k msgs w)))"
proof -
  from assms have "watch_inv k w" by (rule watched.reachable_inv)
  then obtain st where st: "idle_of k w = Some st" "uids_inv st w" "reconnect_inv st (w_connecting w)"
    by (auto simp: watch_inv_def)
  then have "distinct (announced w)" by (simp add: uids_inv_def)
  with fetch_new_inv [OF st(2,3,1)] show ?thesis by blast
qed

definition test_world :: "idle_state \<Rightarrow> bool \<Rightarrow> nat list \<Rightarrow> watch_world" where
  "test_world st b uids = \<lparr>w_map = [(''me:INBOX'', st)], w_connecting = b, sv_validity = 9, sv_uids = uids,
     sv_next = Suc (last uids), announced = [], baseline = 3\<rparr>"

definition test_idle :: idle_state where
  "test_idle = \<lparr>idle_client = None, idle_account = ''me'', idle_folder = ''INBOX'', lastSeenUid = 0, uidValidity = None,
     reconnectTimer = None, backoffMs = 1000, idle_stopped = False\<rparr>"

lemma test_world_reachable:
  "reachable (watch_init ''me:INBOX'') (watch_step ''me:INBOX'')
     (test_world (test_idle\<lparr>idle_client := Some 1, lastSeenUid := 3, uidValidity := Some 9\<rparr>) False [3, 5])"
proof -
  let ?R = "reachable (watch_init ''me:INBOX'') (watch_step ''me:INBOX'')"
  let ?c = "test_idle\<lparr>idle_client := Some 1\<rparr>" and ?o = "test_idle\<lparr>idle_client := Some 1, lastSeenUid := 3, uidValidity := Some 9\<rparr>"
  have "?R (test_world test_idle True [3])"
    by (rule reach_init) (auto simp: watch_init_def test_world_def test_idle_def startIdle_def stateKey_def INITIAL_BACKOFF_MS_def)
  moreover have "watch_step ''me:INBOX'' (test_world test_idle True [3]) (test_world ?c True [3])"
    using watch_step.auth [of "test_world test_idle True [3]" "''me:INBOX''" 0 1]
    by (simp add: test_world_def test_idle_def connect_auth_def updateState_def)
  ultimately have "?R (test_world ?c True [3])" by (rule reach_step)
  moreover have "watch_step ''me:INBOX'' (test_world ?c True [3]) (test_world ?o False [3])"
    using watch_step.opens [of "test_world ?c True [3]" "''me:INBOX''"]
    by (simp add: test_world_def test_idle_def open_box_def has_client_def idle_of_def connect_opened_def resume_after_def
        updateState_def INITIAL_BACKOFF_MS_def Let_def)
  ultimately have "?R (test_world ?o False [3])" by (rule reach_step)
  moreover have "watch_step ''me:INBOX'' (test_world ?o False [3]) (test_world ?o False [3, 5])"
    using watch_step.deliver [of "test_world ?o False [3]" 5 "''me:INBOX''"] by (simp add: test_world_def)
  ultimately show ?thesis by (rule reach_step)
qed

theorem each_mail_announced_once_witness:
  "(9, 5) \<in> set (announced (fetch_new ''now'' ''me:INBOX'' [\<lparr>fm_uid = 5, fm_flags = None, fm_envelope = None, fm_body = None\<rparr>]
     (test_world (test_idle\<lparr>idle_client := Some 1, lastSeenUid := 3, uidValidity := Some 9\<rparr>) False [3, 5])))"
proof -
  let ?w = "test_world (test_idle\<lparr>idle_client := Some 1, lastSeenUid := 3, uidValidity := Some 9\<rparr>) False [3, 5]"
  have "fetchable ''me:INBOX'' ?w [\<lparr>fm_uid = 5, fm_flags = None, fm_envelope = None, fm_body = None\<rparr>]"
    by (auto simp: fetchable_def idle_of_def test_world_def test_idle_def fetch_range_def)
  with each_mail_announced_once [OF test_world_reachable] show ?thesis
    by (simp add: test_world_def)
qed

text \<open>
  C35: a watched folder is never left alone: at any time it has a client, a pending reconnect or a
  connect in flight, and every pending reconnect waits between 0.75 and 60 seconds.
\<close>

theorem folder_never_forgotten:
  assumes "reachable (watch_init k) (watch_step k) w"
  shows "\<exists>st. idle_of k w = Some st \<and> (idle_client st \<noteq> None \<or> reconnectTimer st \<noteq> None \<or> w_connecting w) \<and>
    (case reconnectTimer st of None \<Rightarrow> True | Some d \<Rightarrow> 750 \<le> d \<and> d \<le> 60000)"
proof -
  from assms have "watch_inv k w" by (rule watched.reachable_inv)
  then show ?thesis by (auto simp: watch_inv_def reconnect_inv_def split: option.split)
qed

theorem folder_never_forgotten_witness:
  "idle_of ''me:INBOX'' (test_world (test_idle\<lparr>idle_client := Some 1, lastSeenUid := 3, uidValidity := Some 9\<rparr>) False [3, 5]) \<noteq> None"
  using folder_never_forgotten [OF test_world_reachable] by blast

end
