(* ===== verification/Hooks.thy ===== *)
theory Hooks
  imports Texts MailArrival Watcher
begin

text \<open>
  The hooks on arriving mail (src/services/hooks.service.ts): glob rules, the bounded queue and its
  batches, the actions of a static rule, notify mode, and triage by sampling with its rate limit and
  its untrusted answer. The regular expression that \<open>globToRegex\<close> writes is a text here too, read
  back by \<open>regex_test\<close>, which gives JavaScript's meaning to expressions of its shape. The calls on the
  mail server, the notifier and the calendar are recorded as \<open>hook_act\<close>s: each one that fails is
  logged by the code, and the next is made all the same.
\<close>

section \<open>Glob patterns\<close>

definition regex_special :: "char \<Rightarrow> bool" where
  "regex_special c \<longleftrightarrow> c \<in> set ''.+?^${}()[]'' \<or> c = CHR 0x5C"

definition escape_part :: "string \<Rightarrow> string" where
  "escape_part part = concat (map (\<lambda>c. if regex_special c then [CHR 0x5C, c] else [c]) part)"

definition star_part :: "string \<Rightarrow> string" where
  "star_part escaped = concat (map (\<lambda>c. if c = CHR ''*'' then ''.*'' else [c]) escaped)"

definition glob_parts :: "string \<Rightarrow> string list" where
  "glob_parts pattern = filter (\<lambda>p. p \<noteq> []) (map trim (split_on CHR ''|'' pattern))"

definition globToRegex :: "string \<Rightarrow> string" where
  "globToRegex pattern =
     ''^(?:'' @ join_with ''|'' (map (\<lambda>part. star_part (escape_part part)) (glob_parts pattern)) @ '')$''"

text \<open>
  Regular expressions of the shape \<open>^(?:a|b)$\<close> with the flag \<open>i\<close>: an alternative is a sequence of
  escaped signs, dots, stars over a dot, and plain signs. A dot matches no line break.
\<close>

datatype regex_token = Lit char | AnyChar | AnyRun

fun read_regex :: "string \<Rightarrow> regex_token list" where
  "read_regex [] = []"
| "read_regex [c] = [if c = CHR ''.'' then AnyChar else Lit c]"
| "read_regex (c # d # s) =
     (if c = CHR 0x5C then Lit d # read_regex s
      else if c = CHR ''.'' \<and> d = CHR ''*'' then AnyRun # read_regex s
      else (if c = CHR ''.'' then AnyChar else Lit c) # read_regex (d # s))"

definition line_break :: "char \<Rightarrow> bool" where
  "line_break c \<longleftrightarrow> c = CHR 0x0A \<or> c = CHR 0x0D"

definition same_char :: "char \<Rightarrow> char \<Rightarrow> bool" where
  "same_char a b \<longleftrightarrow> to_upper_char a = to_upper_char b"

function regex_match :: "regex_token list \<Rightarrow> string \<Rightarrow> bool" where
  "regex_match [] v \<longleftrightarrow> v = []"
| "regex_match (Lit c # ts) v \<longleftrightarrow> (case v of [] \<Rightarrow> False | x # xs \<Rightarrow> same_char c x \<and> regex_match ts xs)"
| "regex_match (AnyChar # ts) v \<longleftrightarrow> (case v of [] \<Rightarrow> False | x # xs \<Rightarrow> \<not> line_break x \<and> regex_match ts xs)"
| "regex_match (AnyRun # ts) v \<longleftrightarrow> regex_match ts v \<or>
     (case v of [] \<Rightarrow> False | x # xs \<Rightarrow> \<not> line_break x \<and> regex_match (AnyRun # ts) xs)"
  by pat_completeness auto
termination by (relation "measure (\<lambda>(ts, v). length ts + length v)") auto

definition regex_test :: "string \<Rightarrow> string \<Rightarrow> bool" where
  "regex_test re value =
     list_ex (\<lambda>alt. regex_match (read_regex alt) value) (split_on CHR ''|'' (drop 4 (take (length re - 2) re)))"

definition matchesPattern :: "string \<Rightarrow> string \<Rightarrow> bool" where
  "matchesPattern pattern value = regex_test (globToRegex pattern) value"

text \<open>What a glob means, without regular expressions.\<close>

fun glob_match :: "string \<Rightarrow> string \<Rightarrow> bool" where
  "glob_match [] v \<longleftrightarrow> v = []"
| "glob_match (c # p) v \<longleftrightarrow>
     (if c = CHR ''*'' then list_ex (\<lambda>n. glob_match p (drop n v) \<and> list_all (\<lambda>x. \<not> line_break x) (take n v)) [0..<Suc (length v)]
      else case v of [] \<Rightarrow> False | x # xs \<Rightarrow> same_char c x \<and> glob_match p xs)"

lemma escape_step:
  "star_part (escape_part (c # part)) =
     (if c = CHR ''*'' then ''.*'' else if regex_special c then [CHR 0x5C, c] else [c]) @ star_part (escape_part part)"
  by (auto simp: escape_part_def star_part_def regex_special_def)

lemma read_star: "read_regex (CHR ''.'' # CHR ''*'' # s) = AnyRun # read_regex s"
  by simp

lemma read_plain:
  "\<not> regex_special c \<Longrightarrow> read_regex (c # s) = Lit c # read_regex s"
  by (cases s) (auto simp: regex_special_def)

lemma read_regex_part:
  "read_regex (star_part (escape_part part)) = map (\<lambda>c. if c = CHR ''*'' then AnyRun else Lit c) part"
proof (induction part)
  case (Cons c part)
  then show ?case
    by (cases "c = CHR ''*''"; cases "regex_special c") (simp_all add: escape_step read_plain)
qed (simp add: escape_part_def star_part_def)

lemma list_ex_upto: "list_ex F [0..<Suc m] \<longleftrightarrow> (\<exists>n\<le>m. F n)"
  by (auto simp: list_ex_iff less_Suc_eq_le simp del: upt_Suc)

lemma ex_upto_Suc: "(\<exists>n\<le>Suc m. F n) \<longleftrightarrow> F 0 \<or> (\<exists>n\<le>m. F (Suc n))"
  by (metis Suc_le_mono not0_implies_Suc zero_le)

lemma any_run_iff:
  "regex_match (AnyRun # ts) v \<longleftrightarrow>
   list_ex (\<lambda>n. regex_match ts (drop n v) \<and> list_all (\<lambda>x. \<not> line_break x) (take n v)) [0..<Suc (length v)]"
  unfolding list_ex_upto
proof (induction v)
  case (Cons x xs)
  show ?case unfolding list.size add_Suc_right add_0_right ex_upto_Suc using Cons by auto
qed simp

lemma match_part: "regex_match (map (\<lambda>c. if c = CHR ''*'' then AnyRun else Lit c) part) v = glob_match part v"
proof (induction part arbitrary: v)
  case (Cons c part)
  show ?case
  proof (cases "c = CHR ''*''")
    case True
    then show ?thesis using Cons any_run_iff by (simp del: upt_Suc regex_match.simps)
  next
    case False
    then show ?thesis using Cons by (simp split: list.split)
  qed
qed simp

lemma split_on_joined: "list_all (\<lambda>s. c \<notin> set s) ss \<Longrightarrow> split_on c (join_with [c] ss) = (if ss = [] then [[]] else ss)"
  by (induction "[c]" ss rule: join_with.induct) (auto simp: split_on_none split_on_append)

lemma glob_parts_clean: "p \<in> set (glob_parts pattern) \<Longrightarrow> CHR ''|'' \<notin> set p"
proof -
  assume "p \<in> set (glob_parts pattern)"
  then obtain q where q: "q \<in> set (split_on CHR ''|'' pattern)" and p: "p = trim q" by (auto simp: glob_parts_def)
  from q have "CHR ''|'' \<notin> set q" by (rule split_on_parts)
  moreover have "set (trim q) \<subseteq> set q" by (auto simp: trim_def dest!: set_dropWhileD)
  ultimately show ?thesis using p by blast
qed

lemma alternative_clean: "CHR ''|'' \<notin> set p \<Longrightarrow> CHR ''|'' \<notin> set (star_part (escape_part p))"
  by (induction p) (auto simp: escape_step escape_part_def star_part_def)


section \<open>Static rules\<close>

type_synonym batchEmail = arrivalEmail

definition pattern_given :: "string option \<Rightarrow> bool" where
  [model_defs]: "pattern_given p \<longleftrightarrow> (case p of None \<Rightarrow> False | Some s \<Rightarrow> s \<noteq> [])"

definition emailMatchesRule :: "batchEmail \<Rightarrow> hookRule \<Rightarrow> bool" where
  "emailMatchesRule email rule =
     (let m = rule_match rule; meta = ar_meta email in
      if pattern_given (match_from m) \<and> \<not> matchesPattern (the (match_from m)) (ea_address (em_from meta)) then False
      else if pattern_given (match_to m) \<and> \<not> list_ex (\<lambda>t. matchesPattern (the (match_to m)) (ea_address t)) (em_to meta) then False
      else if pattern_given (match_subject m) \<and> \<not> matchesPattern (the (match_subject m)) (em_subject meta) then False
      else list_ex pattern_given [match_from m, match_to m, match_subject m])"

definition matchStaticRules :: "batchEmail \<Rightarrow> hookRule list \<Rightarrow> hookRule option" where
  "matchStaticRules email rules = find (emailMatchesRule email) rules"

section \<open>Actions\<close>

record alertPayload =
  ap_account :: string
  ap_sender :: emailAddress
  ap_subject :: string
  ap_priority :: priority
  ap_labels :: "string list option"
  ap_ruleName :: "string option"
  ap_uid :: "string option"
  ap_messageId :: "string option"
  ap_folder :: "string option"
  ap_hasAttachments :: "bool option"

datatype hook_act =
    AddLabel batchEmail string
  | Flag batchEmail
  | MarkRead batchEmail
  | MoveTo batchEmail string
  | Alert batchEmail alertPayload bool
  | AddEvent batchEmail
  | Sample "batchEmail list"
  | Classified batchEmail

definition payload_for :: "batchEmail \<Rightarrow> priority \<Rightarrow> string list option \<Rightarrow> string option \<Rightarrow> alertPayload" where
  "payload_for email prio labels ruleName =
     (let meta = ar_meta email in
      \<lparr>ap_account = ar_account email, ap_sender = em_from meta, ap_subject = em_subject meta, ap_priority = prio,
       ap_labels = labels, ap_ruleName = ruleName, ap_uid = Some (em_id meta), ap_messageId = em_messageId meta,
       ap_folder = Some (ar_mailbox email), ap_hasAttachments = Some (em_hasAttachments meta)\<rparr>)"

text \<open>
  The calendar record of src/utils/calendar-state.ts is the list of keys marked processed, \<open>None\<close>
  while it cannot be read (the hook then stops before the calendar).
\<close>

function underscore_spaces :: "string \<Rightarrow> string" where
  "underscore_spaces [] = []"
| "underscore_spaces (c # s) =
     (if is_space c then CHR ''_'' # underscore_spaces (dropWhile is_space s) else c # underscore_spaces s)"
  by pat_completeness auto
termination by (relation "measure length") (auto simp: less_Suc_eq_le length_dropWhile_le)

definition calendarKey :: "string \<Rightarrow> string \<Rightarrow> string" where
  "calendarKey accountName emailId = underscore_spaces accountName @ ''__'' @ emailId"

definition addToCalendarOnce ::
  "(batchEmail \<Rightarrow> bool) \<Rightarrow> batchEmail \<Rightarrow> string list option \<Rightarrow> hook_act list \<times> string list option" where
  "addToCalendarOnce settles email processed =
     (let key = calendarKey (ar_account email) (em_id (ar_meta email)) in
      case processed of
        None \<Rightarrow> ([], None)
      | Some keys \<Rightarrow>
          if key \<in> set keys then ([], Some keys)
          else ([AddEvent email], Some (if settles email then keys @ [key] else keys)))"

definition wants :: "bool option \<Rightarrow> bool option \<Rightarrow> bool" where
  [model_defs]: "wants asked autoCalendar = ((case asked of Some b \<Rightarrow> Some b | None \<Rightarrow> autoCalendar) = Some True)"

definition opt_list :: "'a list option \<Rightarrow> 'a list" where
  [model_defs]: "opt_list l = (case l of None \<Rightarrow> [] | Some xs \<Rightarrow> xs)"

definition applyStaticRule ::
  "hooksConfig \<Rightarrow> (batchEmail \<Rightarrow> bool) \<Rightarrow> batchEmail \<Rightarrow> hookRule \<Rightarrow> string list option \<Rightarrow> hook_act list \<times> string list option" where
  "applyStaticRule cfg settles email rule processed =
     (let actions = rule_actions rule;
          flagged = (act_flag actions = Some True);
          done_calendar = (if wants (act_addToCalendar actions) (hc_autoCalendar cfg)
                           then addToCalendarOnce settles email processed else ([], processed))
      in (map (AddLabel email) (opt_list (act_labels actions)) @
          (if flagged then [Flag email] else []) @
          (if act_markRead actions = Some True then [MarkRead email] else []) @
          (case act_moveTo actions of Some (c # box) \<Rightarrow> [MoveTo email (c # box)] | _ \<Rightarrow> []) @
          [Alert email (payload_for email (if flagged then High else Normal) (act_labels actions) (Some (rule_name rule)))
             (act_alert actions = Some True)] @
          fst done_calendar,
          snd done_calendar))"

section \<open>Triage answers\<close>

text \<open>The parsed answer of the model; \<open>JSON.parse\<close> itself is a parameter.\<close>

datatype json = JNull | JBool bool | JNumber number | JString string | JArray "json list" | JObject "(string, json) jsmap"

record triageResult =
  tr_priority :: "priority option"
  tr_labels :: "string list option"
  tr_flag :: "bool option"
  tr_action :: "string option"
  tr_addToCalendar :: "bool option"

definition no_triage :: triageResult where
  "no_triage = \<lparr>tr_priority = None, tr_labels = None, tr_flag = None, tr_action = None, tr_addToCalendar = None\<rparr>"

fun json_priority :: "json option \<Rightarrow> priority option" where
  "json_priority (Some (JString s)) =
     js_get [(''urgent'', Urgent), (''high'', High), (''normal'', Normal), (''low'', Low)] s"
| "json_priority _ = None"

fun json_bool :: "json option \<Rightarrow> bool option" where
  "json_bool (Some (JBool b)) = Some b"
| "json_bool _ = None"

fun json_text :: "json \<Rightarrow> string option" where
  "json_text (JString s) = Some s"
| "json_text _ = None"

definition json_labels :: "json option \<Rightarrow> string list option" where
  "json_labels j = (case j of Some (JArray xs) \<Rightarrow> Some (take 5 (List.map_filter json_text xs)) | _ \<Rightarrow> None)"

definition object_fields :: "json \<Rightarrow> (string, json) jsmap option" where
  "object_fields j = (case j of JObject obj \<Rightarrow> Some obj | JArray _ \<Rightarrow> Some [] | _ \<Rightarrow> None)"

definition sanitizeTriageResult :: "json \<Rightarrow> triageResult" where
  "sanitizeTriageResult raw =
     (case object_fields raw of
        None \<Rightarrow> no_triage
      | Some obj \<Rightarrow>
          \<lparr>tr_priority = json_priority (js_get obj ''priority''), tr_labels = json_labels (js_get obj ''labels''),
           tr_flag = json_bool (js_get obj ''flag''),
           tr_action = map_option (take 200) (Option.bind (js_get obj ''action'') json_text),
           tr_addToCalendar = json_bool (js_get obj ''add_to_calendar'')\<rparr>)"

text \<open>Drops every code fence: three backquotes, an optional \<open>json\<close>, an optional line feed.\<close>

definition fence :: "string \<Rightarrow> string option" where
  "fence s =
     (if take 3 s = [CHR 0x60, CHR 0x60, CHR 0x60] then
        (let rest = drop 3 s;
             rest' = (if starts_with ''json'' rest then drop 4 rest else rest)
         in Some (if starts_with [CHR 0x0A] rest' then drop 1 rest' else rest'))
      else None)"

lemma fence_shorter: "fence s = Some t \<Longrightarrow> length t < length s"
  by (cases s) (auto simp: fence_def Let_def split: if_splits)

function strip_fences :: "string \<Rightarrow> string" where
  "strip_fences s =
     (case fence s of
        Some t \<Rightarrow> strip_fences t
      | None \<Rightarrow> (case s of [] \<Rightarrow> [] | c # cs \<Rightarrow> c # strip_fences cs))"
  by pat_completeness auto
termination by (relation "measure length") (auto dest: fence_shorter)

declare strip_fences.simps [simp del]

definition parseTriageResponse :: "(string \<Rightarrow> json option) \<Rightarrow> string \<Rightarrow> nat \<Rightarrow> triageResult list" where
  "parseTriageResponse parse text expectedCount =
     (case parse (trim (strip_fences text)) of
        Some (JArray xs) \<Rightarrow> map sanitizeTriageResult (take expectedCount xs)
      | Some (JObject obj) \<Rightarrow> [sanitizeTriageResult (JObject obj)]
      | _ \<Rightarrow> replicate expectedCount no_triage)"

definition applySingleTriage ::
  "hooksConfig \<Rightarrow> (batchEmail \<Rightarrow> bool) \<Rightarrow> batchEmail \<Rightarrow> triageResult \<Rightarrow> string list option \<Rightarrow> hook_act list \<times> string list option" where
  "applySingleTriage cfg settles email triage processed =
     (let prio = (case tr_priority triage of None \<Rightarrow> Normal | Some p \<Rightarrow> p);
          done_calendar = (if wants (tr_addToCalendar triage) (hc_autoCalendar cfg)
                           then addToCalendarOnce settles email processed else ([], processed))
      in ((if hc_autoLabel cfg then map (AddLabel email) (opt_list (tr_labels triage)) else []) @
          (if hc_autoFlag cfg \<and> tr_flag triage = Some True then [Flag email] else []) @
          [Alert email (payload_for email prio (tr_labels triage) None) False] @
          fst done_calendar,
          snd done_calendar))"

section \<open>The service\<close>

definition MAX_SAMPLING_PER_MIN :: nat where "MAX_SAMPLING_PER_MIN = 10"
definition MAX_PENDING_EMAILS :: nat where "MAX_PENDING_EMAILS = 500"

record hooks =
  pendingEmails :: "batchEmail list"
  batchTimer :: bool
  rateCounter :: nat
  rateResetTimer :: bool
  started :: bool
  subscribed :: bool
  lowLevelServer :: bool
  samplingSupported :: bool
  calendarProcessed :: "string list option"

text \<open>
  What the surroundings answer: the model's reply to a sampling request (\<open>None\<close> when it throws),
  the JSON reader, whether the calendar settled an event, whether a classifier is set, and the
  resolved system prompt.
\<close>

record hooks_env =
  createMessage :: "batchEmail list \<Rightarrow> string option"
  parse_json :: "string \<Rightarrow> json option"
  calendar_settles :: "batchEmail \<Rightarrow> bool"
  mailArrival :: bool
  systemPrompt :: string

definition hooks_start :: "hooksConfig \<Rightarrow> bool \<Rightarrow> hooks \<Rightarrow> hooks" where
  "hooks_start cfg sampling h =
     (if started h then h
      else let h' = h\<lparr>lowLevelServer := True, samplingSupported := sampling, started := True\<rparr> in
        if hc_onNewEmail cfg = ModeNone then h' else h'\<lparr>subscribed := True, rateResetTimer := True\<rparr>)"

definition setSamplingTarget :: "bool \<Rightarrow> hooks \<Rightarrow> hooks" where
  "setSamplingTarget server h = h\<lparr>lowLevelServer := server, samplingSupported := server\<rparr>"

definition hooks_stop :: "hooks \<Rightarrow> hooks" where
  "hooks_stop h = h\<lparr>started := False, batchTimer := False, pendingEmails := [], rateResetTimer := False, subscribed := False\<rparr>"

definition rate_reset :: "hooks \<Rightarrow> hooks" where
  "rate_reset h = (if rateResetTimer h then h\<lparr>rateCounter := 0\<rparr> else h)"

definition accepted_mail :: "new_email_event \<Rightarrow> hooks \<Rightarrow> batchEmail list" where
  "accepted_mail event h =
     map (\<lambda>meta. \<lparr>ar_account = ne_account event, ar_mailbox = ne_mailbox event, ar_meta = meta\<rparr>)
       (take (MAX_PENDING_EMAILS - length (pendingEmails h)) (ne_emails event))"

definition onNewEmail :: "new_email_event \<Rightarrow> hooks \<Rightarrow> hooks" where
  "onNewEmail event h = h\<lparr>pendingEmails := pendingEmails h @ accepted_mail event h, batchTimer := True\<rparr>"

fun thread_processed ::
  "('a \<Rightarrow> string list option \<Rightarrow> hook_act list \<times> string list option) \<Rightarrow> 'a list \<Rightarrow> string list option \<Rightarrow> hook_act list \<times> string list option" where
  "thread_processed f [] p = ([], p)"
| "thread_processed f (x # xs) p = (case f x p of (acts, p') \<Rightarrow> (case thread_processed f xs p' of (rest, p'') \<Rightarrow> (acts @ rest, p'')))"

definition notifyBatch :: "batchEmail list \<Rightarrow> hook_act list" where
  "notifyBatch emails = map (\<lambda>e. Alert e (payload_for e Normal None None) False) emails"

definition pad_results :: "batchEmail list \<Rightarrow> triageResult list \<Rightarrow> (batchEmail \<times> triageResult) list" where
  "pad_results emails results = zip emails (results @ replicate (length emails) no_triage)"

definition applyTriageResults ::
  "hooksConfig \<Rightarrow> (batchEmail \<Rightarrow> bool) \<Rightarrow> batchEmail list \<Rightarrow> triageResult list \<Rightarrow> string list option \<Rightarrow> hook_act list \<times> string list option" where
  "applyTriageResults cfg settles emails results processed =
     thread_processed (\<lambda>(e, r). applySingleTriage cfg settles e r) (pad_results emails results) processed"

definition triageBatch :: "hooks_env \<Rightarrow> hooksConfig \<Rightarrow> batchEmail list \<Rightarrow> hooks \<Rightarrow> hook_act list \<times> hooks" where
  "triageBatch E cfg emails h =
     (if MAX_SAMPLING_PER_MIN \<le> rateCounter h then (notifyBatch emails, h)
      else if hc_preset cfg = ''notification-only'' \<or> systemPrompt E = [] then (notifyBatch emails, h)
      else let h' = h\<lparr>rateCounter := rateCounter h + 1\<rparr> in
        if \<not> lowLevelServer h then (notifyBatch emails, h')
        else case createMessage E emails of
          None \<Rightarrow> (Sample emails # notifyBatch emails, h')
        | Some text \<Rightarrow>
            (case applyTriageResults cfg (calendar_settles E) emails (parseTriageResponse (parse_json E) text (length emails))
                    (calendarProcessed h') of
               (acts, p) \<Rightarrow> (Sample emails # acts, h'\<lparr>calendarProcessed := p\<rparr>)))"

definition classify_and_alert :: "batchEmail \<Rightarrow> hook_act list" where
  "classify_and_alert e = [Classified e, Alert e (payload_for e Normal None None) False]"

definition rule_matched :: "hooksConfig \<Rightarrow> batchEmail list \<Rightarrow> (batchEmail \<times> hookRule) list" where
  "rule_matched cfg batch =
     List.map_filter (\<lambda>e. map_option (Pair e) (matchStaticRules e (hc_rules cfg))) batch"

definition needs_triage :: "hooksConfig \<Rightarrow> batchEmail list \<Rightarrow> batchEmail list" where
  "needs_triage cfg batch = filter (\<lambda>e. matchStaticRules e (hc_rules cfg) = None) batch"

definition flushBatch :: "hooks_env \<Rightarrow> hooksConfig \<Rightarrow> hooks \<Rightarrow> hook_act list \<times> hooks" where
  "flushBatch E cfg h =
     (let batch = pendingEmails h;
          h1 = h\<lparr>batchTimer := False, pendingEmails := []\<rparr>;
          ruled = thread_processed (\<lambda>(e, rule). applyStaticRule cfg (calendar_settles E) e rule) (rule_matched cfg batch)
            (calendarProcessed h1);
          h2 = h1\<lparr>calendarProcessed := snd ruled\<rparr>;
          rest = needs_triage cfg batch;
          handled =
            (if rest = [] then ([], h2)
             else if mailArrival E then (concat (map classify_and_alert rest), h2)
             else if hc_onNewEmail cfg = ModeTriage \<and> samplingSupported h2 then triageBatch E cfg rest h2
             else (notifyBatch rest, h2))
      in (fst ruled @ fst handled, snd handled))"

section \<open>Every accepted message is announced once\<close>

definition alerted_by :: "hook_act \<Rightarrow> batchEmail option" where
  "alerted_by a = (case a of Alert e _ _ \<Rightarrow> Some e | _ \<Rightarrow> None)"

definition alerted :: "hook_act list \<Rightarrow> batchEmail list" where
  "alerted acts = List.map_filter alerted_by acts"

definition samples :: "hook_act list \<Rightarrow> nat" where
  "samples acts = length (filter (\<lambda>a. case a of Sample _ \<Rightarrow> True | _ \<Rightarrow> False) acts)"

lemma alerted_simps [simp]:
  "alerted [] = []" "alerted (a @ b) = alerted a @ alerted b"
  "alerted (x # as) = (case alerted_by x of None \<Rightarrow> [] | Some e \<Rightarrow> [e]) @ alerted as"
  by (auto simp: alerted_def List.map_filter_def split: option.split)

lemma alerted_by_simps [simp]:
  "alerted_by (Alert e p f) = Some e" "alerted_by (AddLabel e l) = None" "alerted_by (Flag e) = None" "alerted_by (MarkRead e) = None"
  "alerted_by (MoveTo e m) = None" "alerted_by (AddEvent e) = None" "alerted_by (Sample es) = None" "alerted_by (Classified e) = None"
  by (simp_all add: alerted_by_def)

lemma samples_simps [simp]:
  "samples [] = 0" "samples (a @ b) = samples a + samples b"
  "samples (x # as) = (case x of Sample _ \<Rightarrow> 1 | _ \<Rightarrow> 0) + samples as"
  by (auto simp: samples_def split: hook_act.split)

lemma label_acts [simp]: "alerted (map (AddLabel e) ls) = []" "samples (map (AddLabel e) ls) = 0"
  by (induction ls) auto

lemma calendar_acts [simp]:
  "alerted (fst (addToCalendarOnce settles e p)) = []" "samples (fst (addToCalendarOnce settles e p)) = 0"
  by (auto simp: addToCalendarOnce_def Let_def split: option.split)

lemma rule_acts:
  "alerted (fst (applyStaticRule cfg settles e rule p)) = [e]" "samples (fst (applyStaticRule cfg settles e rule p)) = 0"
  by (auto simp: applyStaticRule_def Let_def split: option.split list.split)

lemma triage_acts:
  "alerted (fst (applySingleTriage cfg settles e r p)) = [e]" "samples (fst (applySingleTriage cfg settles e r p)) = 0"
  by (auto simp: applySingleTriage_def Let_def)

lemma thread_alerted:
  assumes "\<And>x p. alerted (fst (f x p)) = [g x]"
  shows "alerted (fst (thread_processed f xs p)) = map g xs"
proof (induction xs arbitrary: p)
  case (Cons x xs)
  obtain acts p' where f: "f x p = (acts, p')" by fastforce
  with assms [of x p] Cons [of p'] show ?case by (auto split: prod.split)
qed simp

lemma thread_samples:
  assumes "\<And>x p. samples (fst (f x p)) = 0"
  shows "samples (fst (thread_processed f xs p)) = 0"
proof (induction xs arbitrary: p)
  case (Cons x xs)
  obtain acts p' where f: "f x p = (acts, p')" by fastforce
  with assms [of x p] Cons [of p'] show ?case by (auto split: prod.split)
qed simp

lemma notify_acts [simp]: "alerted (notifyBatch es) = es" "samples (notifyBatch es) = 0"
  by (induction es) (auto simp: notifyBatch_def)

lemma classify_acts [simp]:
  "alerted (concat (map classify_and_alert es)) = es" "samples (concat (map classify_and_alert es)) = 0"
  by (induction es) (auto simp: classify_and_alert_def)

lemma pad_results_fst: "map fst (pad_results es rs) = es"
  by (simp add: pad_results_def map_fst_zip_take)

lemma results_acts:
  "alerted (fst (applyTriageResults cfg settles es rs p)) = es" "samples (fst (applyTriageResults cfg settles es rs p)) = 0"
  unfolding applyTriageResults_def
  by (simp_all add: thread_alerted [where g = fst] thread_samples triage_acts pad_results_fst split_beta)

lemma triage_batch:
  assumes "triageBatch E cfg es h = (acts, h')"
  shows "alerted acts = es" "samples acts + rateCounter h \<le> rateCounter h'"
    "rateCounter h \<le> MAX_SAMPLING_PER_MIN \<Longrightarrow> rateCounter h' \<le> MAX_SAMPLING_PER_MIN"
    "pendingEmails h' = pendingEmails h" "batchTimer h' = batchTimer h"
  using assms results_acts [of cfg "calendar_settles E" es]
  by (auto simp: triageBatch_def Let_def split: if_splits option.splits prod.splits) (metis fst_conv)+

lemma flush_acts:
  assumes "flushBatch E cfg h = (acts, h')"
  shows "mset (alerted acts) = mset (pendingEmails h)" "samples acts + rateCounter h \<le> rateCounter h'"
    "rateCounter h \<le> MAX_SAMPLING_PER_MIN \<Longrightarrow> rateCounter h' \<le> MAX_SAMPLING_PER_MIN"
    "pendingEmails h' = []"
proof -
  let ?batch = "pendingEmails h"
  let ?rest = "needs_triage cfg ?batch"
  define ruled where "ruled = thread_processed (\<lambda>(e, rule). applyStaticRule cfg (calendar_settles E) e rule)
    (rule_matched cfg ?batch) (calendarProcessed h)"
  define h2 where "h2 = h\<lparr>batchTimer := False, pendingEmails := [], calendarProcessed := snd ruled\<rparr>"
  have ruled: "alerted (fst ruled) = map fst (rule_matched cfg ?batch)" "samples (fst ruled) = 0"
    unfolding ruled_def by (simp_all add: thread_alerted [where g = fst] thread_samples rule_acts split_beta)
  have parts: "mset (map fst (rule_matched cfg b)) + mset (needs_triage cfg b) = mset b" for b
    by (induction b) (auto simp: rule_matched_def needs_triage_def List.map_filter_def)
  obtain racts where acts: "acts = fst ruled @ racts" and r: "(racts, h') =
      (if ?rest = [] then ([], h2)
       else if mailArrival E then (concat (map classify_and_alert ?rest), h2)
       else if hc_onNewEmail cfg = ModeTriage \<and> samplingSupported h2 then triageBatch E cfg ?rest h2
       else (notifyBatch ?rest, h2))"
    using assms unfolding flushBatch_def Let_def ruled_def h2_def by (cases h) (auto simp: prod_eq_iff)
  have "alerted racts = ?rest \<and> samples racts + rateCounter h2 \<le> rateCounter h' \<and>
     (rateCounter h2 \<le> MAX_SAMPLING_PER_MIN \<longrightarrow> rateCounter h' \<le> MAX_SAMPLING_PER_MIN) \<and> pendingEmails h' = pendingEmails h2"
    using r triage_batch [of E cfg ?rest h2 racts h'] by (auto split: if_splits)
  then show "mset (alerted acts) = mset (pendingEmails h)" "samples acts + rateCounter h \<le> rateCounter h'"
    "rateCounter h \<le> MAX_SAMPLING_PER_MIN \<Longrightarrow> rateCounter h' \<le> MAX_SAMPLING_PER_MIN" "pendingEmails h' = []"
    using ruled parts [of ?batch] by (auto simp: acts h2_def)
qed

datatype hook_event = Arrive new_email_event | Flush hooks_env | ResetRate | Retarget bool

fun run_hooks :: "hooksConfig \<Rightarrow> hook_event list \<Rightarrow> hooks \<Rightarrow> batchEmail list \<times> hook_act list \<times> hooks" where
  "run_hooks cfg [] h = ([], [], h)"
| "run_hooks cfg (Arrive event # evs) h =
     (case run_hooks cfg evs (onNewEmail event h) of (ms, acts, h') \<Rightarrow> (accepted_mail event h @ ms, acts, h'))"
| "run_hooks cfg (Flush E # evs) h =
     (if batchTimer h then
        (case flushBatch E cfg h of (acts, h1) \<Rightarrow>
           (case run_hooks cfg evs h1 of (ms, acts', h') \<Rightarrow> (ms, acts @ acts', h')))
      else run_hooks cfg evs h)"
| "run_hooks cfg (ResetRate # evs) h = run_hooks cfg evs (rate_reset h)"
| "run_hooks cfg (Retarget server # evs) h = run_hooks cfg evs (setSamplingTarget server h)"

definition resets :: "hook_event list \<Rightarrow> nat" where
  "resets evs = length (filter (\<lambda>e. e = ResetRate) evs)"

definition new_hooks :: hooks where
  "new_hooks = \<lparr>pendingEmails = [], batchTimer = False, rateCounter = 0, rateResetTimer = False, started = False,
     subscribed = False, lowLevelServer = False, samplingSupported = False, calendarProcessed = Some []\<rparr>"

definition hooks_ok :: "hooks \<Rightarrow> bool" where
  "hooks_ok h \<longleftrightarrow> length (pendingEmails h) \<le> MAX_PENDING_EMAILS \<and> (pendingEmails h = [] \<or> batchTimer h) \<and>
     rateCounter h \<le> MAX_SAMPLING_PER_MIN"

lemma hooks_ok_arrive: "hooks_ok h \<Longrightarrow> hooks_ok (onNewEmail event h)"
  by (auto simp: hooks_ok_def onNewEmail_def accepted_mail_def)

lemma hooks_ok_flush: "hooks_ok h \<Longrightarrow> flushBatch E cfg h = (acts, h') \<Longrightarrow> hooks_ok h'"
  using flush_acts [of E cfg h acts h'] by (simp add: hooks_ok_def)

lemma hooks_ok_settings: "hooks_ok h \<Longrightarrow> hooks_ok (rate_reset h)" "hooks_ok h \<Longrightarrow> hooks_ok (setSamplingTarget server h)"
  by (auto simp: hooks_ok_def rate_reset_def setSamplingTarget_def)

lemma rate_reset_keeps [simp]: "pendingEmails (rate_reset h) = pendingEmails h"
  by (simp add: rate_reset_def)

lemma run_hooks_account:
  "hooks_ok h \<Longrightarrow> run_hooks cfg evs h = (ms, acts, h') \<Longrightarrow>
   mset (alerted acts) + mset (pendingEmails h') = mset (pendingEmails h) + mset ms \<and> hooks_ok h' \<and>
   samples acts + rateCounter h \<le> rateCounter h' + MAX_SAMPLING_PER_MIN * resets evs"
proof (induction cfg evs h arbitrary: ms acts h' rule: run_hooks.induct)
  case (2 cfg event evs h)
  obtain ms1 where run: "run_hooks cfg evs (onNewEmail event h) = (ms1, acts, h')" and ms: "ms = accepted_mail event h @ ms1"
    using 2(3) by (auto split: prod.splits)
  from 2(1) [OF hooks_ok_arrive [OF 2(2)] run] show ?case
    by (auto simp: ms onNewEmail_def resets_def)
next
  case (3 cfg E evs h)
  show ?case
  proof (cases "batchTimer h")
    case True
    obtain a1 h1 where f: "flushBatch E cfg h = (a1, h1)" by fastforce
    then obtain a2 where run: "run_hooks cfg evs h1 = (ms, a2, h')" and acts: "acts = a1 @ a2"
      using 3(4) True by (auto split: prod.splits)
    from 3(1) [OF True f [symmetric] hooks_ok_flush [OF 3(3) f] run] flush_acts [OF f] show ?thesis
      by (auto simp: acts resets_def)
  next
    case False
    with 3 show ?thesis by (simp add: resets_def)
  qed
next
  case (4 cfg evs h)
  from 4(3) have "run_hooks cfg evs (rate_reset h) = (ms, acts, h')" by simp
  note ih = 4(1) [OF hooks_ok_settings(1) [OF 4(2)] this]
  have "rateCounter h \<le> rateCounter (rate_reset h) + MAX_SAMPLING_PER_MIN" using 4(2) by (simp add: hooks_ok_def)
  with ih show ?case by (simp add: resets_def)
next
  case (5 cfg server evs h)
  from 5(3) have "run_hooks cfg evs (setSamplingTarget server h) = (ms, acts, h')" by simp
  from 5(1) [OF hooks_ok_settings(2) [OF 5(2)] this] show ?case by (simp add: resets_def setSamplingTarget_def)
qed (simp add: resets_def)


text \<open>
  However many batches are flushed, the model is asked at most ten times between two resets of the
  rate counter.
\<close>

theorem sampling_rate_bounded:
  assumes "run_hooks cfg evs (hooks_start cfg sampling new_hooks) = (ms, acts, h)"
  shows "samples acts \<le> 10 * (resets evs + 1)"
proof -
  have ok: "hooks_ok (hooks_start cfg sampling new_hooks)"
    by (simp add: hooks_ok_def hooks_start_def new_hooks_def Let_def)
  from run_hooks_account [OF ok assms] show ?thesis by (simp add: hooks_ok_def MAX_SAMPLING_PER_MIN_def)
qed

definition test_hooks_config :: hooksConfig where
  "test_hooks_config = \<lparr>hc_onNewEmail = ModeTriage, hc_preset = ''gtd'', hc_autoLabel = True, hc_autoFlag = True, hc_batchDelay = 5,
     hc_customInstructions = None, hc_systemPrompt = None,
     hc_rules = [\<lparr>rule_name = ''news'', rule_match = \<lparr>match_from = Some ''*@news.example'', match_to = None, match_subject = None\<rparr>,
       rule_actions = \<lparr>act_labels = Some [''news''], act_flag = None, act_markRead = Some True, act_alert = None,
         act_addToCalendar = None, act_moveTo = None\<rparr>\<rparr>],
     hc_alerts = \<lparr>al_desktop = False, al_sound = False, al_urgencyThreshold = High, al_webhookUrl = [], al_webhookEvents = [],
       al_allowPrivateWebhooks = None\<rparr>,
     hc_autoCalendar = None, hc_calendarName = None, hc_calendarAlarmMinutes = None, hc_calendarConfirm = None\<rparr>"

definition test_meta :: "string \<Rightarrow> string \<Rightarrow> emailMeta" where
  "test_meta uid sender = \<lparr>em_id = uid, em_subject = ''hi'', em_from = \<lparr>ea_name = None, ea_address = sender\<rparr>, em_to = [],
     em_date = [], em_seen = False, em_flagged = False, em_answered = False, em_hasAttachments = False, em_labels = [],
     em_preview = None, em_messageId = None\<rparr>"

definition test_events :: "hook_event list" where
  "test_events = [Arrive \<lparr>ne_account = ''me'', ne_mailbox = ''INBOX'', ne_emails = [test_meta ''1'' ''a@News.example'', test_meta ''2'' ''b@x'']\<rparr>,
     Flush \<lparr>createMessage = (\<lambda>_. Some ''[]''), parse_json = (\<lambda>_. Some (JArray [])), calendar_settles = (\<lambda>_. True), mailArrival = False,
       systemPrompt = ''p''\<rparr>,
     Arrive \<lparr>ne_account = ''me'', ne_mailbox = ''INBOX'', ne_emails = [test_meta ''3'' ''c@x'']\<rparr>]"

definition test_run :: "batchEmail list \<times> hook_act list \<times> hooks" where
  "test_run = run_hooks test_hooks_config test_events (hooks_start test_hooks_config True new_hooks)"


theorem sampling_rate_bounded_witness:
  "samples (fst (snd test_run)) = 1 \<and> samples (fst (snd test_run)) \<le> 10 * (resets test_events + 1)"
proof
  show "samples (fst (snd test_run)) = 1" by code_simp
  obtain ms acts h where r: "test_run = (ms, acts, h)" by (cases test_run)
  show "samples (fst (snd test_run)) \<le> 10 * (resets test_events + 1)"
    using sampling_rate_bounded [OF r [unfolded test_run_def]] unfolding r by simp
qed

text \<open>
  The key of the calendar record names the account and the UID but not the folder: once a message is
  processed, a message of another folder with the same UID never reaches the calendar.
\<close>

lemma calendar_key_ignores_folder:
  assumes "ar_account a = ar_account b" "em_id (ar_meta a) = em_id (ar_meta b)" "ar_mailbox a \<noteq> ar_mailbox b"
    and "calendarKey (ar_account a) (em_id (ar_meta a)) \<notin> set keys" "settles a"
  shows "fst (addToCalendarOnce settles a (Some keys)) = [AddEvent a] \<and>
    fst (addToCalendarOnce settles b (snd (addToCalendarOnce settles a (Some keys)))) = []"
  using assms by (simp add: addToCalendarOnce_def Let_def)

end
