(* ===== verification/EmailHtml.thy ===== *)
theory EmailHtml
  imports Prelude
begin

text \<open>
  HTML mail: entities and attributes (src/utils/email-html.ts), the tag walk that turns HTML into text
  or into sanitized HTML (src/utils/email-body.ts). A text here is the list of its UTF-16 code units, as
  entities name code points beyond a character; \<open>lit\<close> writes a literal. The index loops of the code
  run on the rest of the text from that index.
\<close>

section \<open>Texts of code units\<close>

type_synonym unit16 = int
type_synonym text16 = "unit16 list"

definition lit :: "string \<Rightarrow> text16" where
  "lit s = map of_char s"

definition fromCodePoint :: "int \<Rightarrow> text16" where
  "fromCodePoint c = (if c < 0x10000 then [c] else [0xD800 + (c - 0x10000) div 0x400, 0xDC00 + (c - 0x10000) mod 0x400])"

definition digit_unit :: "unit16 \<Rightarrow> bool" where
  "digit_unit c \<longleftrightarrow> 48 \<le> c \<and> c \<le> 57"

definition upper_unit :: "unit16 \<Rightarrow> bool" where
  "upper_unit c \<longleftrightarrow> 65 \<le> c \<and> c \<le> 90"

definition letter_unit :: "unit16 \<Rightarrow> bool" where
  "letter_unit c \<longleftrightarrow> upper_unit c \<or> 97 \<le> c \<and> c \<le> 122"

definition hex_unit :: "unit16 \<Rightarrow> bool" where
  "hex_unit c \<longleftrightarrow> digit_unit c \<or> 65 \<le> c \<and> c \<le> 70 \<or> 97 \<le> c \<and> c \<le> 102"

definition lower_unit :: "unit16 \<Rightarrow> unit16" where
  "lower_unit c = (if upper_unit c then c + 32 else c)"

definition asciiLower :: "text16 \<Rightarrow> text16" where
  "asciiLower s = map lower_unit s"

definition hex_value16 :: "unit16 \<Rightarrow> int" where
  "hex_value16 c = (if digit_unit c then c - 48 else lower_unit c - 87)"

definition parseInt16 :: "int \<Rightarrow> text16 \<Rightarrow> int" where
  "parseInt16 radix ds = foldl (\<lambda>n c. n * radix + hex_value16 c) 0 ds"

fun prefix16 :: "text16 \<Rightarrow> text16 \<Rightarrow> bool" where
  "prefix16 [] s \<longleftrightarrow> True"
| "prefix16 (p # ps) [] \<longleftrightarrow> False"
| "prefix16 (p # ps) (c # s) \<longleftrightarrow> p = c \<and> prefix16 ps s"

text \<open>The white space of \<open>String.prototype.trim\<close>.\<close>

definition js_space :: "unit16 \<Rightarrow> bool" where
  "js_space c \<longleftrightarrow> 9 \<le> c \<and> c \<le> 13 \<or> c = 32 \<or> c = 160 \<or> c = 0x1680 \<or> 0x2000 \<le> c \<and> c \<le> 0x200A \<or>
     c = 0x2028 \<or> c = 0x2029 \<or> c = 0x202F \<or> c = 0x205F \<or> c = 0x3000 \<or> c = 0xFEFF"

definition trim16 :: "text16 \<Rightarrow> text16" where
  "trim16 s = rev (dropWhile js_space (rev (dropWhile js_space s)))"

section \<open>Entities\<close>

definition MAX_DECODE_PASSES :: nat where "MAX_DECODE_PASSES = 3"

definition html_space :: "unit16 \<Rightarrow> bool" where
  "html_space c \<longleftrightarrow> c = 32 \<or> c = 10 \<or> c = 13 \<or> c = 9 \<or> c = 12"

text \<open>
  The lookup \<open>NAMED_ENTITIES[name]\<close> also finds what every object inherits; \<open>constructor\<close> is the one
  such property named in lower-case letters, and its text is that of the function \<open>Object\<close>.
\<close>

definition NAMED_ENTITIES :: "(text16 \<times> text16) list" where
  "NAMED_ENTITIES =
     [(lit ''nbsp'', lit '' ''), (lit ''lt'', lit ''<''), (lit ''gt'', lit ''>''), (lit ''amp'', lit ''&''),
      (lit ''quot'', [34]), (lit ''apos'', [39]), (lit ''constructor'', lit ''function Object() { [native code] }'')]"

definition code_text :: "int \<Rightarrow> text16" where
  "code_text code = (if code \<le> 0 \<or> code > 0x10FFFF then [] else fromCodePoint code)"

text \<open>The match at an ampersand: the body's kind, the body, and the rest after the semicolon.\<close>

datatype entity = HexEntity text16 | DecEntity text16 | NamedEntity text16

definition after_semicolon :: "(text16 \<Rightarrow> entity) \<Rightarrow> (unit16 \<Rightarrow> bool) \<Rightarrow> text16 \<Rightarrow> (entity \<times> text16) option" where
  "after_semicolon kind ok s =
     (case (takeWhile ok s, dropWhile ok s) of
        (b # bs, c # rest) \<Rightarrow> if c = 59 then Some (kind (b # bs), rest) else None
      | _ \<Rightarrow> None)"

fun match_entity :: "text16 \<Rightarrow> (entity \<times> text16) option" where
  "match_entity (c # d # s) =
     (if c = 35 then (if d = 120 \<or> d = 88 then after_semicolon HexEntity hex_unit s
                      else after_semicolon DecEntity digit_unit (d # s))
      else after_semicolon NamedEntity letter_unit (c # d # s))"
| "match_entity s = None"

fun entity_text :: "text16 \<Rightarrow> entity \<Rightarrow> text16" where
  "entity_text original (HexEntity ds) = code_text (parseInt16 16 ds)"
| "entity_text original (DecEntity ds) = code_text (parseInt16 10 ds)"
| "entity_text original (NamedEntity name) =
     (case map_of NAMED_ENTITIES (asciiLower name) of None \<Rightarrow> original | Some t \<Rightarrow> t)"

lemma after_semicolon_shorter: "after_semicolon kind ok s = Some (e, rest) \<Longrightarrow> length rest < length s"
  using length_dropWhile_le [of ok s] by (auto simp: after_semicolon_def split: list.splits if_splits)

lemma match_entity_shorter: "match_entity s = Some (e, rest) \<Longrightarrow> length rest < length s"
  by (cases s rule: match_entity.cases) (auto split: if_splits dest: after_semicolon_shorter)

function decodeEntities :: "text16 \<Rightarrow> text16" where
  "decodeEntities [] = []"
| "decodeEntities (c # s) =
     (case (if c = 38 then match_entity s else None) of
        None \<Rightarrow> c # decodeEntities s
      | Some (e, rest) \<Rightarrow> entity_text (c # take (length s - length rest) s) e @ decodeEntities rest)"
  by pat_completeness auto
termination
  by (relation "measure length") (auto dest: match_entity_shorter split: if_splits)

text \<open>Numeric references, whose semicolon may be missing.\<close>

definition take_reference :: "(unit16 \<Rightarrow> bool) \<Rightarrow> text16 \<Rightarrow> (text16 \<times> text16) option" where
  "take_reference ok s =
     (case takeWhile ok s of
        [] \<Rightarrow> None
      | ds \<Rightarrow> Some (ds, case dropWhile ok s of c # rest \<Rightarrow> if c = 59 then rest else c # rest | [] \<Rightarrow> []))"

fun match_numeric :: "text16 \<Rightarrow> (int \<times> text16) option" where
  "match_numeric (h # x # s) =
     (if h \<noteq> 35 then None
      else if x = 120 \<or> x = 88 then map_option (\<lambda>(ds, r). (parseInt16 16 ds, r)) (take_reference hex_unit s)
      else map_option (\<lambda>(ds, r). (parseInt16 10 ds, r)) (take_reference digit_unit (x # s)))"
| "match_numeric s = None"

lemma take_reference_shorter: "take_reference ok s = Some (ds, r) \<Longrightarrow> length r \<le> length s"
  using length_dropWhile_le [of ok s]
  by (cases "takeWhile ok s"; cases "dropWhile ok s") (auto simp: take_reference_def length_dropWhile_le split: if_splits)

lemma match_numeric_shorter: "match_numeric s = Some (n, r) \<Longrightarrow> length r < length s"
  by (cases s rule: match_numeric.cases) (auto split: if_splits dest!: take_reference_shorter)

function decodeNumericReferences :: "text16 \<Rightarrow> text16" where
  "decodeNumericReferences [] = []"
| "decodeNumericReferences (c # s) =
     (case (if c = 38 then match_numeric s else None) of
        None \<Rightarrow> c # decodeNumericReferences s
      | Some (code, rest) \<Rightarrow>
          (if 0xD800 \<le> code \<and> code \<le> 0xDFFF then [] else code_text code) @ decodeNumericReferences rest)"
  by pat_completeness auto
termination
  by (relation "measure length") (auto dest: match_numeric_shorter split: if_splits)

fun decode_passes :: "nat \<Rightarrow> text16 \<Rightarrow> text16" where
  "decode_passes 0 current = current"
| "decode_passes (Suc n) current =
     (let next = decodeNumericReferences (decodeEntities current) in
      if next = current then current else decode_passes n next)"

definition decodeBounded :: "text16 \<Rightarrow> text16" where
  "decodeBounded input = decode_passes MAX_DECODE_PASSES input"

section \<open>Attributes\<close>

definition event_handler_name :: "text16 \<Rightarrow> bool" where
  "event_handler_name n \<longleftrightarrow> prefix16 (lit ''on'') (asciiLower n) \<and> length n > 2 \<and> list_all letter_unit (drop 2 n)"

definition url_attr_name :: "text16 \<Rightarrow> bool" where
  "url_attr_name n \<longleftrightarrow> asciiLower n \<in> set (map lit [''href'', ''src'', ''action'', ''formaction'', ''poster'', ''background''])"

definition safe_url_value :: "text16 \<Rightarrow> bool" where
  "safe_url_value v \<longleftrightarrow> list_ex (\<lambda>p. prefix16 p (asciiLower v)) (map lit [''http:'', ''https:'', ''mailto:''])"

definition dropAttribute :: "text16 \<Rightarrow> text16 option \<Rightarrow> bool" where
  "dropAttribute name value \<longleftrightarrow>
     (let decodedName = decodeBounded name in
      if event_handler_name decodedName \<or> asciiLower decodedName = lit ''style'' then True
      else case value of
        None \<Rightarrow> False
      | Some v \<Rightarrow> url_attr_name decodedName \<and> \<not> safe_url_value (trim16 (decodeBounded v)))"

record scannedAttribute =
  sa_rest :: text16
  sa_kept :: text16
  sa_drop :: bool

definition name_unit :: "unit16 \<Rightarrow> bool" where
  "name_unit c \<longleftrightarrow> \<not> (html_space c \<or> c = 61 \<or> c = 47 \<or> c = 34 \<or> c = 39)"

text \<open>The value after the equals sign, and what follows it.\<close>

definition scan_value :: "text16 \<Rightarrow> text16 \<times> text16" where
  "scan_value s =
     (case s of
        [] \<Rightarrow> ([], [])
      | q # r \<Rightarrow>
          if q = 34 \<or> q = 39 then (takeWhile (\<lambda>c. c \<noteq> q) r, drop 1 (dropWhile (\<lambda>c. c \<noteq> q) r))
          else (takeWhile (\<lambda>c. \<not> html_space c) s, dropWhile (\<lambda>c. \<not> html_space c) s))"

definition scanAttribute :: "text16 \<Rightarrow> scannedAttribute" where
  "scanAttribute input =
     (let spaces = takeWhile html_space input;
          s1 = dropWhile html_space input;
          name = takeWhile name_unit s1;
          s2 = dropWhile name_unit s1;
          s3 = dropWhile html_space s2
      in if name = [] then
           (case s1 of
              [] \<Rightarrow> \<lparr>sa_rest = [], sa_kept = input, sa_drop = False\<rparr>
            | c # r \<Rightarrow> \<lparr>sa_rest = r, sa_kept = (if c = 47 then [] else spaces @ [c]), sa_drop = False\<rparr>)
         else if s3 = [] \<or> hd s3 \<noteq> 61 then
           \<lparr>sa_rest = s2, sa_kept = spaces @ name, sa_drop = dropAttribute name None\<rparr>
         else (case scan_value (dropWhile html_space (tl s3)) of
           (value, rest) \<Rightarrow>
             \<lparr>sa_rest = rest, sa_kept = take (length input - length rest) input, sa_drop = dropAttribute name (Some value)\<rparr>))"

definition append_kept :: "text16 \<Rightarrow> scannedAttribute \<Rightarrow> text16" where
  "append_kept out scanned =
     (case sa_kept scanned of
        [] \<Rightarrow> out
      | k # ks \<Rightarrow>
          if sa_drop scanned then out
          else if \<not> html_space k \<and> (out = [] \<or> \<not> html_space (last out)) then out @ 32 # k # ks
          else out @ k # ks)"

lemma scan_value_shorter: "length (snd (scan_value s)) \<le> length s"
  using length_dropWhile_le [of "\<lambda>c. \<not> html_space c" s]
  by (auto simp: scan_value_def intro: le_trans [OF diff_le_self] le_SucI [OF le_trans [OF diff_le_self length_dropWhile_le]] split: list.split)

lemma scanAttribute_shorter: "input \<noteq> [] \<Longrightarrow> length (sa_rest (scanAttribute input)) < length input"
proof -
  assume ne: "input \<noteq> []"
  define s1 where "s1 = dropWhile html_space input"
  define s2 where "s2 = dropWhile name_unit s1"
  define s3 where "s3 = dropWhile html_space s2"
  have le: "length s1 \<le> length input" "length s2 \<le> length s1" "length s3 \<le> length s2"
    by (simp_all add: s1_def s2_def s3_def length_dropWhile_le)
  have named: "takeWhile name_unit s1 \<noteq> [] \<Longrightarrow> length s2 < length s1"
    using takeWhile_dropWhile_id [of name_unit s1] unfolding s2_def
    by (metis length_append length_greater_0_conv less_add_same_cancel2)
  have "length (dropWhile html_space (tl s3)) \<le> length s3" by (rule le_trans [OF length_dropWhile_le]) simp
  then have "length (snd (scan_value (dropWhile html_space (tl s3)))) \<le> length s3"
    using scan_value_shorter le_trans by blast
  with le named ne show ?thesis
    by (auto simp: scanAttribute_def Let_def s1_def [symmetric] s2_def [symmetric] s3_def [symmetric] split: list.split prod.split)
qed

function sanitize_from :: "text16 \<Rightarrow> text16 \<Rightarrow> text16" where
  "sanitize_from out source =
     (if source = [] then out
      else let scanned = scanAttribute source in sanitize_from (append_kept out scanned) (sa_rest scanned))"
  by pat_completeness auto
termination by (relation "measure (length \<circ> snd)") (auto simp: scanAttribute_shorter)

declare sanitize_from.simps [simp del]

definition sanitizeAttributes :: "text16 \<Rightarrow> text16" where
  "sanitizeAttributes source = sanitize_from [] source"

section \<open>Tags\<close>

definition DROP_WITH_CONTENT :: "text16 list" where
  "DROP_WITH_CONTENT =
     map lit [''script'', ''style'', ''noscript'', ''iframe'', ''object'', ''embed'', ''svg'', ''math'', ''textarea'', ''title'']"

definition DROP_TAG :: "text16 list" where
  "DROP_TAG = DROP_WITH_CONTENT @
     map lit [''link'', ''meta'', ''base'', ''img'', ''video'', ''audio'', ''source'', ''track'', ''form'']"

definition isTagNameChar :: "unit16 \<Rightarrow> bool" where
  "isTagNameChar c \<longleftrightarrow> 48 \<le> c \<and> c \<le> 57 \<or> 65 \<le> c \<and> c \<le> 90 \<or> 97 \<le> c \<and> c \<le> 122"

record htmlTag =
  ht_name :: text16
  ht_closing :: bool
  ht_rest :: text16

text \<open>What follows the first occurrence of a text, if it occurs.\<close>

fun after16 :: "text16 \<Rightarrow> text16 \<Rightarrow> text16 option" where
  "after16 pat [] = (if pat = [] then Some [] else None)"
| "after16 pat (c # s) = (if prefix16 pat (c # s) then Some (drop (length pat) (c # s)) else after16 pat s)"

text \<open>What follows the closing sign of a tag: the first one outside quotes.\<close>

fun tag_end :: "unit16 option \<Rightarrow> text16 \<Rightarrow> text16 option" where
  "tag_end q [] = None"
| "tag_end (Some q) (c # s) = tag_end (if c = q then None else Some q) s"
| "tag_end None (c # s) = (if c = 34 \<or> c = 39 then tag_end (Some c) s else if c = 62 then Some s else tag_end None s)"

text \<open>\<open>html\<close> is the text from the opening sign of the tag on.\<close>

definition readTag :: "text16 \<Rightarrow> htmlTag option" where
  "readTag html =
     (if prefix16 (lit ''<!--'') html then
        Some \<lparr>ht_name = lit ''comment'', ht_closing = False,
          ht_rest = (case after16 (lit ''-->'') (drop 4 html) of None \<Rightarrow> [] | Some r \<Rightarrow> r)\<rparr>
      else let s = drop 1 html in
        if s \<noteq> [] \<and> (hd s = 33 \<or> hd s = 63) then
          map_option (\<lambda>r. \<lparr>ht_name = lit ''!'', ht_closing = False, ht_rest = r\<rparr>) (after16 (lit ''>'') s)
        else let closing = (s \<noteq> [] \<and> hd s = 47);
                 s1 = (if closing then tl s else s);
                 name = takeWhile isTagNameChar s1
             in if name = [] then None
                else map_option (\<lambda>r. \<lparr>ht_name = asciiLower name, ht_closing = closing, ht_rest = r\<rparr>)
                  (tag_end None (dropWhile isTagNameChar s1)))"

lemma after16_shorter: "after16 pat s = Some r \<Longrightarrow> length r \<le> length s - length pat"
  by (induction pat s rule: after16.induct) (auto split: if_splits)

lemma close_shorter:
  assumes "after16 (lit ''</'' @ name) (asciiLower s) = Some r"
  shows "s \<noteq> [] \<and> length r < length s"
proof (cases s)
  case Nil
  with assms show ?thesis by (simp add: asciiLower_def lit_def)
next
  case (Cons c cs)
  with after16_shorter [OF assms] show ?thesis by (simp add: asciiLower_def lit_def)
qed

function skipUntilClose :: "text16 \<Rightarrow> text16 \<Rightarrow> text16" where
  "skipUntilClose from_here name =
     (case after16 (lit ''</'' @ name) (asciiLower from_here) of
        None \<Rightarrow> []
      | Some r \<Rightarrow>
          (let after = drop (length from_here - length r) from_here;
               s = dropWhile html_space after
           in if s \<noteq> [] \<and> hd s = 62 then tl s else skipUntilClose after name))"
  by pat_completeness auto
termination by (relation "measure (length \<circ> fst)") (auto dest: close_shorter)

declare skipUntilClose.simps [simp del]

definition tagText :: "text16 \<Rightarrow> bool \<Rightarrow> text16" where
  "tagText name closing =
     (if name = lit ''br'' \<and> \<not> closing then [10]
      else if name = lit ''p'' \<and> closing then [10, 10]
      else if name = lit ''div'' \<and> closing then [10]
      else if name = lit ''li'' \<and> \<not> closing then [10, 8226, 32]
      else [])"

text \<open>\<open>raw\<close> runs from the opening to the closing sign; the regular expression takes the longest name.\<close>

definition sanitizeTag :: "text16 \<Rightarrow> text16" where
  "sanitizeTag raw =
     (let inner = butlast (drop 1 raw);
          alnum = (\<lambda>c. digit_unit c \<or> letter_unit c) in
      if raw = [] \<or> hd raw \<noteq> 60 \<or> last raw \<noteq> 62 \<or> takeWhile alnum inner = [] then raw
      else [60] @ takeWhile alnum inner @ sanitizeAttributes (dropWhile alnum inner) @ [62])"

datatype walk_mode = TextMode | HtmlMode

definition markup_start :: "unit16 \<Rightarrow> bool" where
  "markup_start c \<longleftrightarrow> letter_unit c \<or> c = 47 \<or> c = 33 \<or> c = 63"

lemma tag_end_shorter: "tag_end q s = Some r \<Longrightarrow> length r < length s"
  by (induction q s rule: tag_end.induct) (auto split: if_splits)

lemma readTag_shorter: "html \<noteq> [] \<Longrightarrow> readTag html = Some tag \<Longrightarrow> length (ht_rest tag) < length html"
proof -
  assume ne: "html \<noteq> []" and r: "readTag html = Some tag"
  have "length (case after16 (lit ''-->'') (drop 4 html) of None \<Rightarrow> [] | Some r \<Rightarrow> r) < length html"
    using ne after16_shorter [of "lit ''-->''" "drop 4 html"] by (cases html) (auto simp: lit_def split: option.split)
  moreover have "after16 (lit ''>'') (drop 1 html) = Some x \<Longrightarrow> length x < length html" for x
    using ne after16_shorter [of "lit ''>''" "drop 1 html"] by (cases html) (auto simp: lit_def)
  moreover have "tag_end None (dropWhile isTagNameChar (tl (drop 1 html))) = Some x \<Longrightarrow> length x < length html"
    "tag_end None (dropWhile isTagNameChar (drop 1 html)) = Some x \<Longrightarrow> length x < length html" for x
    using tag_end_shorter [of None _ x] length_dropWhile_le [of isTagNameChar "tl (drop 1 html)"]
      length_dropWhile_le [of isTagNameChar "drop 1 html"] by fastforce+
  ultimately show ?thesis using r unfolding readTag_def Let_def
    by (auto split: if_splits)
qed

lemmas readTag_Cons = readTag_shorter [OF list.distinct(2), simplified]

lemma skip_shorter: "length (skipUntilClose s name) \<le> length s"
proof (induction s name rule: skipUntilClose.induct)
  case (1 s name)
  show ?case
  proof (cases "after16 (lit ''</'' @ name) (asciiLower s)")
    case None
    then show ?thesis by (simp add: skipUntilClose.simps)
  next
    case (Some r)
    let ?after = "drop (length s - length r) s"
    have "length (dropWhile html_space ?after) \<le> length s" by (rule le_trans [OF length_dropWhile_le]) simp
    moreover have "length ?after \<le> length s" by simp
    ultimately show ?thesis using 1 [OF Some refl refl] Some
      by (subst skipUntilClose.simps) (auto simp: Let_def intro: le_trans)
  qed
qed

function walkHtml :: "walk_mode \<Rightarrow> text16 \<Rightarrow> text16" where
  "walkHtml mode [] = []"
| "walkHtml mode (c # s) =
     (if c \<noteq> 60 then c # walkHtml mode s
      else case readTag (c # s) of
        None \<Rightarrow> if s \<noteq> [] \<and> markup_start (hd s) then [] else c # walkHtml mode s
      | Some tag \<Rightarrow>
          if ht_name tag \<in> set DROP_WITH_CONTENT \<and> \<not> ht_closing tag then
            walkHtml mode (skipUntilClose (ht_rest tag) (ht_name tag))
          else if mode = HtmlMode \<and> (ht_name tag \<in> set DROP_TAG \<or> ht_name tag = lit ''comment'' \<or> ht_name tag = lit ''!'') then
            walkHtml mode (ht_rest tag)
          else if mode = TextMode then tagText (ht_name tag) (ht_closing tag) @ walkHtml mode (ht_rest tag)
          else sanitizeTag (take (length (c # s) - length (ht_rest tag)) (c # s)) @ walkHtml mode (ht_rest tag))"
  by pat_completeness auto
termination
  by (relation "measure (length \<circ> snd)") (auto dest: readTag_Cons intro: le_less_trans [OF skip_shorter])

declare walkHtml.simps(2) [simp del]

definition HTML_TRUNCATED_NOTE :: text16 where
  "HTML_TRUNCATED_NOTE =
     [10, 10, 8230] @ lit '' (HTML part cut at 2097152 characters before conversion)''"

definition capHtml :: "text16 \<Rightarrow> text16 \<times> text16" where
  "capHtml html =
     (if int (length html) \<le> 2 * 1024 * 1024 then (html, []) else (take (nat (2 * 1024 * 1024)) html, HTML_TRUNCATED_NOTE))"

text \<open>Runs of three or more line feeds become two.\<close>

fun squeeze16 :: "nat \<Rightarrow> text16 \<Rightarrow> text16" where
  "squeeze16 n [] = []"
| "squeeze16 n (c # s) =
     (if c = 10 then (if n < 2 then c # squeeze16 (Suc n) s else squeeze16 n s) else c # squeeze16 0 s)"

fun strip_passes :: "nat \<Rightarrow> text16 \<Rightarrow> text16" where
  "strip_passes 0 current = current"
| "strip_passes (Suc n) current =
     (let text = trim16 (squeeze16 0 (walkHtml TextMode (decodeEntities current))) in
      if text = current then current else strip_passes n text)"

definition stripHtml :: "text16 \<Rightarrow> text16" where
  "stripHtml html = (case capHtml html of (capped, note) \<Rightarrow> strip_passes MAX_DECODE_PASSES capped @ note)"

definition sanitizeEmailHtml :: "text16 \<Rightarrow> text16" where
  "sanitizeEmailHtml html = (case capHtml html of (capped, note) \<Rightarrow> walkHtml HtmlMode capped @ note)"

section \<open>Well-formed markup\<close>

text \<open>
  A document of text, opening tags with quoted attributes, closing tags, and elements whose content is
  dropped. \<open>render\<close> writes it, \<open>clean\<close> is what sanitizing should leave of it.
\<close>

type_synonym attr = "text16 \<times> text16"

datatype piece = Chars text16 | Open text16 "attr list" | Close text16 | Hidden text16 "attr list" text16

definition render_attr :: "attr \<Rightarrow> text16" where
  "render_attr a = 32 # fst a @ [61, 34] @ snd a @ [34]"

definition render_attrs :: "attr list \<Rightarrow> text16" where
  "render_attrs as = concat (map render_attr as)"

fun render_piece :: "piece \<Rightarrow> text16" where
  "render_piece (Chars t) = t"
| "render_piece (Open n as) = 60 # n @ render_attrs as @ [62]"
| "render_piece (Close n) = 60 # 47 # n @ [62]"
| "render_piece (Hidden n as content) = 60 # n @ render_attrs as @ 62 # content @ 60 # 47 # n @ [62]"

definition render :: "piece list \<Rightarrow> text16" where
  "render ps = concat (map render_piece ps)"

definition attr_ok :: "attr \<Rightarrow> bool" where
  "attr_ok a \<longleftrightarrow> fst a \<noteq> [] \<and> list_all (\<lambda>c. name_unit c \<and> c \<noteq> 62) (fst a) \<and> 34 \<notin> set (snd a)"

definition tag_name_ok :: "text16 \<Rightarrow> bool" where
  "tag_name_ok n \<longleftrightarrow> n \<noteq> [] \<and> list_all isTagNameChar n"

fun piece_ok :: "piece \<Rightarrow> bool" where
  "piece_ok (Chars t) \<longleftrightarrow> 60 \<notin> set t"
| "piece_ok (Open n as) \<longleftrightarrow> tag_name_ok n \<and> list_all attr_ok as \<and> asciiLower n \<notin> set DROP_WITH_CONTENT"
| "piece_ok (Close n) \<longleftrightarrow> tag_name_ok n"
| "piece_ok (Hidden n as content) \<longleftrightarrow>
     tag_name_ok n \<and> list_all attr_ok as \<and> asciiLower n \<in> set DROP_WITH_CONTENT \<and> 60 \<notin> set content"

definition tag_dropped :: "text16 \<Rightarrow> bool" where
  "tag_dropped n \<longleftrightarrow> asciiLower n \<in> set DROP_TAG \<or> asciiLower n = lit ''comment''"

definition attr_kept :: "attr \<Rightarrow> bool" where
  "attr_kept a \<longleftrightarrow> \<not> dropAttribute (fst a) (Some (snd a))"

fun clean_piece :: "piece \<Rightarrow> piece list" where
  "clean_piece (Chars t) = [Chars t]"
| "clean_piece (Open n as) = (if tag_dropped n then [] else [Open n (filter attr_kept as)])"
| "clean_piece (Close n) = (if tag_dropped n then [] else [Close n])"
| "clean_piece (Hidden n as content) = []"

definition clean :: "piece list \<Rightarrow> piece list" where
  "clean ps = concat (map clean_piece ps)"

lemma name_unit_space: "name_unit c \<Longrightarrow> \<not> html_space c"
  by (simp add: name_unit_def)

lemma scan_rendered:
  assumes "attr_ok a"
  shows "scanAttribute (render_attr a @ rest) =
    \<lparr>sa_rest = rest, sa_kept = render_attr a, sa_drop = dropAttribute (fst a) (Some (snd a))\<rparr>"
proof -
  obtain n v where a: "a = (n, v)" by (cases a)
  obtain c n' where n: "n = c # n'" using assms a by (cases n) (auto simp: attr_ok_def)
  have names: "list_all name_unit n" using assms a by (auto simp: attr_ok_def list_all_iff)
  have c: "\<not> html_space c" using names n by (simp add: name_unit_space)
  have "takeWhile html_space (render_attr a @ rest) = [32]" "dropWhile html_space (render_attr a @ rest) = n @ 61 # 34 # v @ 34 # rest"
    using c by (simp_all add: render_attr_def a n html_space_def)
  moreover have "takeWhile name_unit (n @ 61 # 34 # v @ 34 # rest) = n"
    "dropWhile name_unit (n @ 61 # 34 # v @ 34 # rest) = 61 # 34 # v @ 34 # rest"
    using names by (auto simp: takeWhile_append dropWhile_append list_all_iff name_unit_def [of 61])
  moreover have "scan_value (34 # v @ 34 # rest) = (v, rest)"
    using assms a by (auto simp: scan_value_def attr_ok_def takeWhile_append dropWhile_append)
  ultimately show ?thesis
    using n by (simp add: scanAttribute_def Let_def html_space_def [of 61] html_space_def [of 34] a)
qed

lemma sanitize_rendered:
  "list_all attr_ok as \<Longrightarrow> sanitize_from out (render_attrs as) = out @ render_attrs (filter attr_kept as)"
proof (induction as arbitrary: out)
  case Nil
  then show ?case by (simp add: render_attrs_def sanitize_from.simps)
next
  case (Cons a as)
  have "render_attr a \<noteq> []" by (simp add: render_attr_def)
  then have "sanitize_from out (render_attr a @ render_attrs as) =
      sanitize_from (append_kept out (scanAttribute (render_attr a @ render_attrs as))) (render_attrs as)"
    using scan_rendered [of a "render_attrs as"] Cons.prems by (subst sanitize_from.simps) simp
  moreover have "append_kept out (scanAttribute (render_attr a @ render_attrs as)) =
      (if attr_kept a then out @ render_attr a else out)"
    using scan_rendered [of a "render_attrs as"] Cons.prems
    by (simp add: append_kept_def attr_kept_def) (simp add: render_attr_def html_space_def)
  ultimately show ?case using Cons by (simp add: render_attrs_def)
qed

lemma tag_end_name: "list_all (\<lambda>c. name_unit c \<and> c \<noteq> 62) n \<Longrightarrow> tag_end None (n @ s) = tag_end None s"
  by (induction n) (auto simp: name_unit_def)

lemma tag_end_value: "34 \<notin> set v \<Longrightarrow> tag_end (Some 34) (v @ 34 # s) = tag_end None s"
  by (induction v) auto

lemma tag_end_attrs: "list_all attr_ok as \<Longrightarrow> tag_end None (render_attrs as @ 62 # rest) = Some rest"
proof (induction as)
  case (Cons a as)
  then have "tag_end None (render_attr a @ render_attrs as @ 62 # rest) = tag_end None (render_attrs as @ 62 # rest)"
    by (simp add: render_attr_def attr_ok_def tag_end_name tag_end_value)
  with Cons show ?case by (simp add: render_attrs_def)
qed (simp add: render_attrs_def)

lemma attrs_start: "as = [] \<and> render_attrs as = [] \<or> (\<exists>s. render_attrs as = 32 # s)"
  by (cases as) (auto simp: render_attrs_def render_attr_def)

lemma after_name:
  assumes "list_all isTagNameChar n" "s \<noteq> []" "\<not> isTagNameChar (hd s)"
  shows "takeWhile isTagNameChar (n @ s) = n" "dropWhile isTagNameChar (n @ s) = s"
  using assms by (cases s; auto simp: takeWhile_append dropWhile_append list_all_iff)+

lemma attrs_not_name: "\<not> isTagNameChar (hd (render_attrs as @ 62 # rest))"
  using attrs_start [of as] by (auto simp: isTagNameChar_def)

lemma read_open:
  assumes "tag_name_ok n" "list_all attr_ok as"
  shows "readTag (60 # n @ render_attrs as @ 62 # rest) = Some \<lparr>ht_name = asciiLower n, ht_closing = False, ht_rest = rest\<rparr>"
proof -
  obtain c n' where n: "n = c # n'" using assms(1) by (cases n) (auto simp: tag_name_ok_def)
  have "isTagNameChar c" using assms(1) n by (simp add: tag_name_ok_def)
  then have c: "c \<noteq> 33" "c \<noteq> 63" "c \<noteq> 47" by (auto simp: isTagNameChar_def)
  have "takeWhile isTagNameChar (n @ render_attrs as @ 62 # rest) = n"
    "dropWhile isTagNameChar (n @ render_attrs as @ 62 # rest) = render_attrs as @ 62 # rest"
    using assms(1) attrs_not_name by (intro after_name; simp add: tag_name_ok_def)+
  with tag_end_attrs [OF assms(2), of rest] c n show ?thesis
    by (simp add: readTag_def Let_def lit_def)
qed

lemma read_close:
  assumes "tag_name_ok n"
  shows "readTag (60 # 47 # n @ 62 # rest) = Some \<lparr>ht_name = asciiLower n, ht_closing = True, ht_rest = rest\<rparr>"
proof -
  have "takeWhile isTagNameChar (n @ 62 # rest) = n" "dropWhile isTagNameChar (n @ 62 # rest) = 62 # rest"
    using assms by (intro after_name; simp add: tag_name_ok_def isTagNameChar_def)+
  with assms show ?thesis by (simp add: readTag_def Let_def lit_def tag_name_ok_def)
qed

lemma walk_chars: "60 \<notin> set t \<Longrightarrow> walkHtml mode (t @ s) = t @ walkHtml mode s"
  by (induction t) (auto simp: walkHtml.simps(2))

lemma special_names: "lit ''comment'' \<notin> set DROP_WITH_CONTENT" "asciiLower n = lit ''!'' \<Longrightarrow> \<not> tag_name_ok n"
proof -
  show "lit ''comment'' \<notin> set DROP_WITH_CONTENT" by code_simp
  assume e: "asciiLower n = lit ''!''"
  show "\<not> tag_name_ok n"
  proof
    assume "tag_name_ok n"
    with e show False
      by (cases n) (auto simp: asciiLower_def lit_def tag_name_ok_def isTagNameChar_def lower_unit_def upper_unit_def split: if_splits)
  qed
qed

lemma sanitize_tag_open:
  assumes "tag_name_ok n" "list_all attr_ok as"
  shows "sanitizeTag (60 # n @ render_attrs as @ [62]) = 60 # n @ render_attrs (filter attr_kept as) @ [62]"
proof -
  have ext: "(\<lambda>c. digit_unit c \<or> letter_unit c) = isTagNameChar"
    by (auto simp: fun_eq_iff digit_unit_def letter_unit_def upper_unit_def isTagNameChar_def)
  have "\<not> isTagNameChar (hd (render_attrs as))" if "render_attrs as \<noteq> []"
    using attrs_start [of as] that by (auto simp: isTagNameChar_def)
  then have "takeWhile isTagNameChar (n @ render_attrs as) = n" "dropWhile isTagNameChar (n @ render_attrs as) = render_attrs as"
    using assms(1) after_name [of n "render_attrs as"]
    by (cases "render_attrs as = []"; simp add: tag_name_ok_def list_all_iff takeWhile_eq_all_conv dropWhile_eq_Nil_conv)+
  moreover have "butlast (n @ render_attrs as @ [62]) = n @ render_attrs as" by (simp add: butlast_append)
  ultimately show ?thesis
    using assms sanitize_rendered [OF assms(2), of "[]"]
    by (simp add: sanitizeTag_def Let_def ext sanitizeAttributes_def tag_name_ok_def)
qed

lemma sanitize_tag_close: "sanitizeTag (60 # 47 # n @ [62]) = 60 # 47 # n @ [62]"
  by (simp add: sanitizeTag_def Let_def butlast_append digit_unit_def letter_unit_def upper_unit_def)

lemma slice_front: "take (length (x @ s) - length s) (x @ s) = x"
  by simp

lemma walk_open:
  assumes "piece_ok (Open n as)"
  shows "walkHtml HtmlMode (render_piece (Open n as) @ s) = render (clean_piece (Open n as)) @ walkHtml HtmlMode s"
proof -
  have ok: "tag_name_ok n" "list_all attr_ok as" "asciiLower n \<notin> set DROP_WITH_CONTENT" using assms by auto
  have "take (length (60 # n @ render_attrs as @ 62 # s) - length s) (60 # n @ render_attrs as @ 62 # s) = 60 # n @ render_attrs as @ [62]"
    by simp
  moreover have "asciiLower n \<noteq> lit ''!''" using special_names(2) ok(1) by blast
  ultimately show ?thesis
    using read_open [OF ok(1,2), of s] sanitize_tag_open [OF ok(1,2)] ok(3)
    by (simp add: walkHtml.simps(2) tag_dropped_def render_def)
qed

lemma walk_close:
  assumes "tag_name_ok n"
  shows "walkHtml HtmlMode (render_piece (Close n) @ s) = render (clean_piece (Close n)) @ walkHtml HtmlMode s"
proof -
  have "take (length (60 # 47 # n @ 62 # s) - length s) (60 # 47 # n @ 62 # s) = 60 # 47 # n @ [62]"
    using slice_front [of "60 # 47 # n @ [62]" s] by (simp only: append_Cons append_assoc append_Nil)
  moreover have "asciiLower n \<noteq> lit ''!''" using special_names(2) assms by blast
  ultimately show ?thesis
    using read_close [OF assms, of s] sanitize_tag_close [of n]
    by (simp add: walkHtml.simps(2) tag_dropped_def render_def)
qed

lemma prefix16_append [simp]: "prefix16 p (p @ s)"
  by (induction p) auto

lemma after16_skip: "60 \<notin> set t \<Longrightarrow> after16 (60 # pat) (t @ 60 # pat @ s) = Some s"
  by (induction t) auto

lemma lower_not_60: "60 \<notin> set t \<Longrightarrow> 60 \<notin> set (asciiLower t)"
  by (auto simp: asciiLower_def lower_unit_def upper_unit_def)

lemma asciiLower_append [simp]: "asciiLower (a @ b) = asciiLower a @ asciiLower b"
  by (simp add: asciiLower_def)

lemma skip_rendered:
  assumes "60 \<notin> set content"
  shows "skipUntilClose (content @ 60 # 47 # n @ 62 # s) (asciiLower n) = s"
proof -
  have low: "asciiLower (content @ 60 # 47 # n @ 62 # s) = asciiLower content @ 60 # (47 # asciiLower n) @ asciiLower (62 # s)"
    by (simp add: asciiLower_def lower_unit_def upper_unit_def)
  have "after16 (lit ''</'' @ asciiLower n) (asciiLower (content @ 60 # 47 # n @ 62 # s)) = Some (asciiLower (62 # s))"
    unfolding low using after16_skip [OF lower_not_60 [OF assms], of "47 # asciiLower n" "asciiLower (62 # s)"]
    by (simp add: lit_def)
  moreover have "drop (length (content @ 60 # 47 # n @ 62 # s) - length (asciiLower (62 # s))) (content @ 60 # 47 # n @ 62 # s) = 62 # s"
    by (simp add: asciiLower_def)
  ultimately show ?thesis by (subst skipUntilClose.simps) (simp add: Let_def html_space_def)
qed

lemma walk_hidden:
  assumes "piece_ok (Hidden n as content)"
  shows "walkHtml HtmlMode (render_piece (Hidden n as content) @ s) = walkHtml HtmlMode s"
  using assms read_open [of n as "content @ 60 # 47 # n @ 62 # s"] skip_rendered [of content n s]
  by (simp add: walkHtml.simps(2))

lemma render_append: "render (a @ b) = render a @ render b"
  by (simp add: render_def)

lemma walk_rendered: "list_all piece_ok ps \<Longrightarrow> walkHtml HtmlMode (render ps) = render (clean ps)"
proof (induction ps)
  case (Cons p ps)
  have step: "render (p # ps) = render_piece p @ render ps" "clean (p # ps) = clean_piece p @ clean ps"
    by (simp_all add: render_def clean_def)
  have "walkHtml HtmlMode (render_piece p @ render ps) = render (clean_piece p) @ walkHtml HtmlMode (render ps)"
    using Cons.prems walk_open walk_close walk_hidden walk_chars
    by (cases p) (simp_all del: render_piece.simps(2-4) add: render_def [of "[]"] render_def [of "[Chars _]"])
  with Cons show ?case by (simp add: step render_append)
qed (simp add: render_def clean_def)

lemma clean_ok: "list_all piece_ok ps \<Longrightarrow> list_all piece_ok (clean ps)"
proof (induction ps)
  case (Cons p ps)
  then have "list_all piece_ok (clean_piece p)" by (cases p) (auto simp: list_all_iff)
  with Cons show ?case by (simp add: clean_def)
qed (simp add: clean_def)

lemma clean_piece_stable: "concat (map clean_piece (clean_piece p)) = clean_piece p"
  by (cases p) auto

lemma clean_stable: "clean (clean ps) = clean ps"
proof (induction ps)
  case (Cons p ps)
  then show ?case using clean_piece_stable [of p] by (simp add: clean_def)
qed (simp add: clean_def)


definition test_html :: "piece list" where
  "test_html =
     [Hidden (lit ''script'') [] (lit ''alert(1)''),
      Open (lit ''a'') [(lit ''href'', lit ''https://x/''), (lit ''onClick'', lit ''f()'')], Chars (lit ''hi''), Close (lit ''a''),
      Open (lit ''IMG'') [(lit ''src'', lit ''https://x/1.gif'')]]"


section \<open>Markup that is not well formed\<close>

text \<open>
  A quote in an attribute name opens no value in HTML, but \<open>readTag\<close> skips to the next quote: the
  script inside is copied as attributes. And a slash before the equals sign is dropped, which turns a
  harmless tag into a link that runs a script.
\<close>

lemma sanitizer_lets_script_through:
  "sanitizeEmailHtml (lit ''<div a'' @ [34] @ lit ''><script >alert(1)</script>'' @ [34] @ lit ''>'') =
     lit ''<div a '' @ [34] @ lit '' ><script >alert(1)< script> '' @ [34] @ lit ''>''"
  by code_simp

lemma sanitizer_makes_script_link:
  "sanitizeEmailHtml (lit ''<a href/='' @ [34] @ lit ''javascript:alert(1)'' @ [34] @ lit ''>'') =
     lit ''<a href = '' @ [34] @ lit '' javascript:alert(1) '' @ [34] @ lit ''>''"
  by code_simp

lemma remote_image_kept:
  "sanitizeEmailHtml (lit ''<input type=image src=https://x/y>'') = lit ''<input type=image src=https://x/y>''"
  by code_simp

lemma inherited_entity: "decodeEntities (lit ''&constructor;'') = lit ''function Object() { [native code] }''"
  by code_simp

end
