(* ===== verification/Notifier.thy ===== *)
theory Notifier
  imports Hooks HttpGuard EmailHtml Validation
begin

text \<open>
  Alerts (src/services/notifier.service.ts) and their settings at run time (the configure_alerts tool of
  src/tools/watcher.tool.ts). Texts with symbols beyond Latin-1 are lists of UTF-16 code units. The calls
  that await are cut there: an alert is its log entries, its desktop step and its webhook step; a test
  notification is its start and its end; other calls may come in between. Whether a command exists or
  succeeds, the URL parser, the resolver and the answer of the web server are arguments.
\<close>

section \<open>Settings\<close>

definition URGENCY_ORDER :: "priority \<Rightarrow> nat" where
  "URGENCY_ORDER p = (case p of Urgent \<Rightarrow> 4 | High \<Rightarrow> 3 | Normal \<Rightarrow> 2 | Low \<Rightarrow> 1)"

datatype log_level = LAlert | LWarning | LInfo | LDebug

definition MCP_LOG_LEVEL_MAP :: "priority \<Rightarrow> log_level" where
  "MCP_LOG_LEVEL_MAP p = (case p of Urgent \<Rightarrow> LAlert | High \<Rightarrow> LWarning | Normal \<Rightarrow> LInfo | Low \<Rightarrow> LDebug)"

definition URGENCY_LEVELS :: "(string, priority) jsmap" where
  "URGENCY_LEVELS = [(''urgent'', Urgent), (''high'', High), (''normal'', Normal), (''low'', Low)]"

definition MAX_WEBHOOK_URL_CHARS :: nat where "MAX_WEBHOOK_URL_CHARS = 2048"
definition MAX_NOTIFICATION_FIELD_CHARS :: nat where "MAX_NOTIFICATION_FIELD_CHARS = 200"

definition FREEDESKTOP_MESSAGE_SOUND :: string where
  "FREEDESKTOP_MESSAGE_SOUND = ''/usr/share/sounds/freedesktop/stereo/message-new-instant.oga''"

definition isUrgency :: "string \<Rightarrow> bool" where
  "isUrgency v \<longleftrightarrow> v \<in> set (js_keys URGENCY_LEVELS)"

datatype alerts_error =
    UrlTooLong | UrlControl | UrlRefused validation_error | UrlCredentials
  | DesktopNotBoolean | SoundNotBoolean | BadThreshold | BadEvents

definition web_parts :: "url_parser \<Rightarrow> string \<Rightarrow> (string \<times> string) option" where
  "web_parts parseUrl u = map_option (\<lambda>p. (u_protocol p, u_hostname p)) (parseUrl u)"

definition assertWebhookUrl :: "url_parser \<Rightarrow> string \<Rightarrow> bool \<Rightarrow> alerts_error + unit" where
  "assertWebhookUrl parseUrl url allowPrivate =
     (if length url > MAX_WEBHOOK_URL_CHARS then Inl UrlTooLong
      else if has_control url then Inl UrlControl
      else case validateWebhookUrl (web_parts parseUrl) allowPrivate url of
        Inl e \<Rightarrow> Inl (UrlRefused e)
      | Inr _ \<Rightarrow>
          (case parseUrl url of
             None \<Rightarrow> Inl (UrlRefused (InvalidUrl url))
           | Some p \<Rightarrow> if u_username p \<noteq> [] \<or> u_password p \<noteq> [] then Inl UrlCredentials else Inr ()))"

text \<open>A patch as it arrives: a value of the wrong type is \<open>NotBoolean\<close> or \<open>NotArray\<close>.\<close>

datatype flag_arg = FlagOf bool | NotBoolean
datatype events_arg = EventsOf "string list" | NotArray

record alertsPatch =
  pa_desktop :: "flag_arg option"
  pa_sound :: "flag_arg option"
  pa_urgencyThreshold :: "string option"
  pa_webhookUrl :: "string option"
  pa_webhookEvents :: "events_arg option"

definition flag_or :: "flag_arg option \<Rightarrow> bool \<Rightarrow> bool" where
  [model_defs]: "flag_or a d = (case a of Some (FlagOf b) \<Rightarrow> b | _ \<Rightarrow> d)"

definition level_of :: "string \<Rightarrow> priority" where
  "level_of s = (case js_get URGENCY_LEVELS s of None \<Rightarrow> Low | Some p \<Rightarrow> p)"

definition applyAlertsPatch :: "url_parser \<Rightarrow> alertsConfig \<Rightarrow> alertsPatch \<Rightarrow> alerts_error + alertsConfig" where
  "applyAlertsPatch parseUrl current partial =
     (if pa_desktop partial = Some NotBoolean then Inl DesktopNotBoolean
      else if pa_sound partial = Some NotBoolean then Inl SoundNotBoolean
      else if (case pa_urgencyThreshold partial of None \<Rightarrow> False | Some t \<Rightarrow> \<not> isUrgency t) then Inl BadThreshold
      else if (case pa_webhookEvents partial of
                 None \<Rightarrow> False
               | Some NotArray \<Rightarrow> True
               | Some (EventsOf es) \<Rightarrow> length es > length URGENCY_LEVELS \<or> list_ex (\<lambda>e. \<not> isUrgency e) es) then Inl BadEvents
      else bindE (case pa_webhookUrl partial of
                    None \<Rightarrow> Inr ()
                  | Some u \<Rightarrow> if u = [] then Inr () else assertWebhookUrl parseUrl u (al_allowPrivateWebhooks current = Some True))
        (\<lambda>_. Inr \<lparr>al_desktop = flag_or (pa_desktop partial) (al_desktop current),
           al_sound = flag_or (pa_sound partial) (al_sound current),
           al_urgencyThreshold = (case pa_urgencyThreshold partial of None \<Rightarrow> al_urgencyThreshold current | Some t \<Rightarrow> level_of t),
           al_webhookUrl = (case pa_webhookUrl partial of None \<Rightarrow> al_webhookUrl current | Some u \<Rightarrow> u),
           al_webhookEvents = (case pa_webhookEvents partial of Some (EventsOf es) \<Rightarrow> map level_of es | _ \<Rightarrow> al_webhookEvents current),
           al_allowPrivateWebhooks = al_allowPrivateWebhooks current\<rparr>))"

section \<open>Desktop commands\<close>

record notificationCommand =
  nc_bin :: string
  nc_args :: "text16 list"
  nc_env :: "(string \<times> text16) list"

definition notificationField :: "text16 \<Rightarrow> text16" where
  "notificationField s = take MAX_NOTIFICATION_FIELD_CHARS (filter (\<lambda>c. c \<noteq> 0) s)"

definition command :: "string \<Rightarrow> text16 list \<Rightarrow> notificationCommand" where
  [model_defs]: "command bin args = \<lparr>nc_bin = bin, nc_args = args, nc_env = []\<rparr>"

definition POWERSHELL_SCRIPT :: "text16 list" where
  "POWERSHELL_SCRIPT =
     [lit ''[void][System.Reflection.Assembly]::LoadWithPartialName('' @ [39] @ lit ''System.Windows.Forms'' @ [39] @ lit '')'',
      lit ''$n = New-Object System.Windows.Forms.NotifyIcon'',
      lit ''$n.Icon = [System.Drawing.SystemIcons]::Information'',
      lit ''$n.Visible = $true'',
      lit ''$n.ShowBalloonTip(5000, $env:MAILOO_NOTIFY_TITLE, $env:MAILOO_NOTIFY_BODY, '' @ [39] @ lit ''Info'' @ [39] @ lit '')'']"

fun join_units :: "text16 \<Rightarrow> text16 list \<Rightarrow> text16" where
  "join_units sep [] = []"
| "join_units sep [x] = x"
| "join_units sep (x # y # xs) = x @ sep @ join_units sep (y # xs)"

definition desktopNotificationCommands :: "string \<Rightarrow> text16 \<Rightarrow> text16 \<Rightarrow> bool \<Rightarrow> notificationCommand list" where
  "desktopNotificationCommands platform title body sound =
     (let safeTitle = notificationField title; safeBody = notificationField body in
      if platform = ''darwin'' then
        [command ''osascript''
           [lit ''-e'', lit ''on run argv'', lit ''-e'',
            lit ''display notification (item 2 of argv) with title (item 1 of argv)'' @
              (if sound then lit '' sound name '' @ [34] @ lit ''Glass'' @ [34] else []),
            lit ''-e'', lit ''end run'', lit ''--'', safeTitle, safeBody]]
      else if platform = ''linux'' then
        [command ''notify-send'' [lit ''-u'', if sound then lit ''critical'' else lit ''normal'', lit ''--'', safeTitle, safeBody]] @
        (if sound then [command ''paplay'' [lit FREEDESKTOP_MESSAGE_SOUND]] else [])
      else if platform = ''win32'' then
        [\<lparr>nc_bin = ''powershell'',
          nc_args = [lit ''-NoProfile'', lit ''-NonInteractive'', lit ''-Command'', join_units (lit ''; '') POWERSHELL_SCRIPT],
          nc_env = [(''MAILOO_NOTIFY_TITLE'', safeTitle), (''MAILOO_NOTIFY_BODY'', safeBody)]\<rparr>]
      else [])"

section \<open>Log entries\<close>

definition level_name :: "priority \<Rightarrow> string" where
  "level_name p = (case p of Urgent \<Rightarrow> ''urgent'' | High \<Rightarrow> ''high'' | Normal \<Rightarrow> ''normal'' | Low \<Rightarrow> ''low'')"

definition SIREN :: text16 where "SIREN = [0xD83D, 0xDEA8]"
definition ENVELOPE :: text16 where "ENVELOPE = [0xD83D, 0xDCE7]"

definition is_set :: "string option \<Rightarrow> bool" where
  [model_defs]: "is_set v \<longleftrightarrow> v \<noteq> None \<and> v \<noteq> Some []"

definition display_name :: "emailAddress \<Rightarrow> string" where
  "display_name a = (case ea_name a of None \<Rightarrow> ea_address a | Some n \<Rightarrow> n)"

definition log_where :: "alertPayload \<Rightarrow> text16" where
  "log_where p =
     (if ap_priority p = Urgent then SIREN else ENVELOPE) @ lit '' ['' @ lit (to_upper (level_name (ap_priority p))) @ lit ''] '' @
     lit (ap_account p) @ (if is_set (ap_folder p) then lit (''/'' @ the (ap_folder p)) else []) @
     (if is_set (ap_uid p) then lit ('' uid '' @ the (ap_uid p)) else [])"

definition log_tags :: "alertPayload \<Rightarrow> text16" where
  "log_tags p =
     (case ap_labels p of None \<Rightarrow> [] | Some ls \<Rightarrow> if ls = [] then [] else lit ('' ['' @ join_with '', '' ls @ '']'')) @
     (if is_set (ap_ruleName p) then lit ('' (rule: '' @ the (ap_ruleName p) @ '')'') else [])"

definition log_detail :: "alertPayload \<Rightarrow> text16" where
  "log_detail p = lit ('' from '' @ display_name (ap_sender p) @ '': '') @ [34] @ lit (ap_subject p) @ [34]"

definition formatAlertLog :: "alertPayload \<Rightarrow> log_level \<times> text16 \<times> text16 option" where
  "formatAlertLog p =
     (let level = MCP_LOG_LEVEL_MAP (ap_priority p) in
      if level = LDebug then (level, log_where p @ log_detail p @ log_tags p, None)
      else (level, log_where p @ log_tags p, Some (log_where p @ log_detail p)))"

definition alert_logs :: "alertPayload \<Rightarrow> (log_level \<times> text16) list" where
  "alert_logs p =
     (case formatAlertLog p of
        (level, message, detail) \<Rightarrow> (level, message) # (case detail of None \<Rightarrow> [] | Some d \<Rightarrow> [(LDebug, d)]))"

section \<open>Webhook\<close>

definition json_opt :: "string option \<Rightarrow> string" where
  [model_defs]: "json_opt v = (case v of None \<Rightarrow> ''null'' | Some s \<Rightarrow> json_string s)"

definition json_field :: "string \<Rightarrow> string \<Rightarrow> string" where
  [model_defs]: "json_field name value = json_string name @ '':'' @ value"

definition json_object :: "string list \<Rightarrow> string" where
  [model_defs]: "json_object members = ''{'' @ join_with '','' members @ ''}''"

definition webhook_body :: "alertPayload \<Rightarrow> string \<Rightarrow> string" where
  "webhook_body p timestamp =
     json_object
       [json_field ''event'' (json_string (''email.'' @ level_name (ap_priority p))), json_field ''account'' (json_string (ap_account p)),
        json_field ''uid'' (json_opt (ap_uid p)), json_field ''messageId'' (json_opt (ap_messageId p)),
        json_field ''folder'' (json_opt (ap_folder p)),
        json_field ''sender'' (json_object
          ((case ea_name (ap_sender p) of None \<Rightarrow> [] | Some n \<Rightarrow> [json_field ''name'' (json_string n)]) @
           [json_field ''address'' (json_string (ea_address (ap_sender p)))])),
        json_field ''subject'' (json_string (ap_subject p)),
        json_field ''hasAttachments'' (if ap_hasAttachments p = Some True then ''true'' else ''false''),
        json_field ''priority'' (json_string (level_name (ap_priority p))),
        json_field ''labels'' (''['' @ join_with '','' (map json_string (case ap_labels p of None \<Rightarrow> [] | Some ls \<Rightarrow> ls)) @ '']''),
        json_field ''rule'' (json_opt (ap_ruleName p)), json_field ''timestamp'' (json_string timestamp)]"

datatype webhook_end = NoUrl | InvalidWebhook validation_error | WebhookStatus nat | WebhookFailed | Delivered nat

text \<open>\<open>post\<close> is \<open>postWebhook\<close>: the status of the answer, \<open>None\<close> when it throws or is aborted.\<close>

definition sendWebhook ::
  "url_parser \<Rightarrow> (string \<Rightarrow> lookup_result) \<Rightarrow> (string \<Rightarrow> bool \<Rightarrow> string \<Rightarrow> nat option) \<Rightarrow> string \<Rightarrow> alertsConfig \<Rightarrow> alertPayload \<Rightarrow> webhook_end" where
  "sendWebhook parseUrl resolve post timestamp config p =
     (let url = al_webhookUrl config; allowPrivate = (al_allowPrivateWebhooks config = Some True) in
      if url = [] then NoUrl
      else case resolveWebhookUrl (web_parts parseUrl) resolve allowPrivate url of
        Inl e \<Rightarrow> InvalidWebhook e
      | Inr _ \<Rightarrow>
          (case post url allowPrivate (webhook_body p timestamp) of
             None \<Rightarrow> WebhookFailed
           | Some status \<Rightarrow> if status < 200 \<or> status \<ge> 300 then WebhookStatus status else Delivered status))"

section \<open>The notifier\<close>

record notifier =
  n_config :: alertsConfig
  n_desktopCount :: nat
  n_resetTimer :: bool
  n_logs :: "(log_level \<times> text16) list"
  n_ran :: "notificationCommand list list"
  n_webhooks :: "alertPayload list"

definition MAX_DESKTOP_PER_MIN :: nat where "MAX_DESKTOP_PER_MIN = 5"

definition new_notifier :: "alertsConfig \<Rightarrow> notifier" where
  "new_notifier config =
     \<lparr>n_config = config, n_desktopCount = 0, n_resetTimer = True, n_logs = [], n_ran = [], n_webhooks = []\<rparr>"

definition stop_notifier :: "notifier \<Rightarrow> notifier" where
  "stop_notifier n = n\<lparr>n_resetTimer := False\<rparr>"

definition reset_tick :: "notifier \<Rightarrow> notifier" where
  "reset_tick n = (if n_resetTimer n then n\<lparr>n_desktopCount := 0\<rparr> else n)"

definition updateConfig :: "url_parser \<Rightarrow> alertsPatch \<Rightarrow> notifier \<Rightarrow> (alerts_error + alertsConfig) \<times> notifier" where
  "updateConfig parseUrl partial n =
     (case applyAlertsPatch parseUrl (n_config n) partial of
        Inl e \<Rightarrow> (Inl e, n)
      | Inr c \<Rightarrow> (Inr c, n\<lparr>n_config := c\<rparr>))"

text \<open>The commands that are run: each waits for the one before; a failure other than the sound stops.\<close>

fun run_commands :: "(string \<Rightarrow> bool) \<Rightarrow> notificationCommand list \<Rightarrow> notificationCommand list" where
  "run_commands works [] = []"
| "run_commands works (c # cs) =
     c # (if works (nc_bin c) \<or> nc_bin c = ''paplay'' then run_commands works cs else [])"

definition sendDesktopNotification :: "string \<Rightarrow> (string \<Rightarrow> bool) \<Rightarrow> alertPayload \<Rightarrow> notifier \<Rightarrow> notifier" where
  "sendDesktopNotification platform works p n =
     (if n_desktopCount n \<ge> MAX_DESKTOP_PER_MIN then n
      else let title = ENVELOPE @ lit '' Mailoo '' @ [0x2014] @ lit '' '' @ lit (if ap_priority p = Urgent then ''Urgent'' else ''Important'');
               body = lit (''From: '' @ display_name (ap_sender p)) @ [10] @ lit (ap_subject p);
               playSound = (al_sound (n_config n) \<and> ap_priority p = Urgent)
           in n\<lparr>n_desktopCount := n_desktopCount n + 1,
                n_ran := n_ran n @ [run_commands works (desktopNotificationCommands platform title body playSound)]\<rparr>)"

definition alert_begin :: "alertPayload \<Rightarrow> notifier \<Rightarrow> bool \<times> notifier" where
  "alert_begin p n =
     (URGENCY_ORDER (ap_priority p) \<ge> URGENCY_ORDER (al_urgencyThreshold (n_config n)), n\<lparr>n_logs := n_logs n @ alert_logs p\<rparr>)"

definition alert_desktop :: "string \<Rightarrow> (string \<Rightarrow> bool) \<Rightarrow> alertPayload \<Rightarrow> bool \<Rightarrow> bool \<Rightarrow> notifier \<Rightarrow> notifier" where
  "alert_desktop platform works p meetsThreshold forceDesktop n =
     (if al_desktop (n_config n) \<and> (meetsThreshold \<or> forceDesktop) then sendDesktopNotification platform works p n else n)"

definition alert_webhook :: "alertPayload \<Rightarrow> notifier \<Rightarrow> notifier" where
  "alert_webhook p n =
     (if al_webhookUrl (n_config n) \<noteq> [] \<and> ap_priority p \<in> set (al_webhookEvents (n_config n))
      then n\<lparr>n_webhooks := n_webhooks n @ [p]\<rparr> else n)"

definition test_payload :: alertPayload where
  "test_payload =
     \<lparr>ap_account = ''test'', ap_sender = \<lparr>ea_name = Some ''Mailoo'', ea_address = ''test@mailoo.invalid''\<rparr>,
      ap_subject = ''If you see this, notifications work!'', ap_priority = Urgent, ap_labels = None, ap_ruleName = None,
      ap_uid = None, ap_messageId = None, ap_folder = None, ap_hasAttachments = None\<rparr>"

text \<open>After the platform check: the settings are saved and forced, and restored by the \<open>finally\<close> block.\<close>

definition test_begin :: "string \<Rightarrow> (string \<Rightarrow> bool) \<Rightarrow> bool \<Rightarrow> notifier \<Rightarrow> (bool \<times> bool) \<times> notifier" where
  "test_begin platform works withSound n =
     ((al_desktop (n_config n), al_sound (n_config n)),
      sendDesktopNotification platform works test_payload (n\<lparr>n_config := (n_config n)\<lparr>al_desktop := True, al_sound := withSound\<rparr>\<rparr>))"

definition test_end :: "bool \<times> bool \<Rightarrow> notifier \<Rightarrow> notifier" where
  "test_end orig n = n\<lparr>n_config := (n_config n)\<lparr>al_desktop := fst orig, al_sound := snd orig\<rparr>\<rparr>"

definition test_message :: "bool \<Rightarrow> string" where
  "test_message withSound =
     (if withSound then ''Test notification sent with sound. Check your notification center.''
      else ''Test notification sent. Check your notification center.'')"

section \<open>Platform diagnostics\<close>

record diagnostics =
  dg_platform :: string
  dg_supported :: bool
  dg_desktopTool :: "string \<times> bool"
  dg_soundTool :: "string \<times> bool"
  dg_issues :: "string list"
  dg_setupInstructions :: "text16 list"

definition ARROW :: text16 where "ARROW = [0x2192]"

definition quoted :: "string \<Rightarrow> text16" where
  [model_defs]: "quoted s = [34] @ lit s @ [34]"

definition mac_instructions :: "text16 list" where
  "mac_instructions =
     [lit ''1. Open System Settings '' @ ARROW @ lit '' Notifications & Focus'',
      lit ''2. Find your terminal app (Terminal, iTerm2, VS Code, Cursor, etc.)'',
      lit ''3. Enable '' @ quoted ''Allow Notifications'' @ lit '' and choose '' @ quoted ''Banners'' @ lit '' or '' @ quoted ''Alerts'',
      lit ''4. Ensure '' @ quoted ''Do Not Disturb'' @ lit '' / Focus mode is not active'',
      lit ''5. If using an MCP client, the notification appears from the terminal running the server'']"

definition checkPlatformSupport :: "string \<Rightarrow> (string \<Rightarrow> bool) \<Rightarrow> diagnostics" where
  "checkPlatformSupport platform commandExists =
     (if platform = ''darwin'' then
        (let ok = commandExists ''osascript'' in
         \<lparr>dg_platform = ''macOS'', dg_supported = ok, dg_desktopTool = (''osascript'', ok),
          dg_soundTool = (''afplay'', commandExists ''afplay''),
          dg_issues = (if ok then [] else [''osascript not found (should be built-in on macOS)'']),
          dg_setupInstructions = mac_instructions\<rparr>)
      else if platform = ''linux'' then
        (let notifySendOk = commandExists ''notify-send''; paplayOk = commandExists ''paplay'' in
         \<lparr>dg_platform = ''Linux'', dg_supported = notifySendOk, dg_desktopTool = (''notify-send'', notifySendOk),
          dg_soundTool = (''paplay'', paplayOk),
          dg_issues = (if notifySendOk then [] else [''notify-send not found'']) @
            (if paplayOk then [] else [''paplay not found (needed for sound alerts)'']),
          dg_setupInstructions =
            (if notifySendOk then []
             else [lit ''Install libnotify:'', lit ''  Ubuntu/Debian: sudo apt install libnotify-bin'',
                   lit ''  Fedora:        sudo dnf install libnotify'', lit ''  Arch:          sudo pacman -S libnotify'']) @
            (if paplayOk then []
             else [lit ''Install PulseAudio utils for sound:'', lit ''  Ubuntu/Debian: sudo apt install pulseaudio-utils'',
                   lit ''  Fedora:        sudo dnf install pulseaudio-utils'']) @
            [lit ''Note: Desktop notifications require a running display server (X11/Wayland).'',
             lit ''They will not work in headless/SSH sessions.'']\<rparr>)
      else if platform = ''win32'' then
        (let ok = commandExists ''powershell'' in
         \<lparr>dg_platform = ''Windows'', dg_supported = ok, dg_desktopTool = (''powershell'', ok), dg_soundTool = (''powershell'', ok),
          dg_issues = (if ok then [] else [''PowerShell not found'']),
          dg_setupInstructions =
            [lit ''1. Open Settings '' @ ARROW @ lit '' System '' @ ARROW @ lit '' Notifications'',
             lit ''2. Ensure '' @ quoted ''Notifications'' @ lit '' is turned on'',
             lit ''3. Ensure '' @ quoted ''Focus Assist'' @ lit '' is set to allow notifications'',
             lit ''4. If using Windows Terminal, ensure its notifications are enabled'']\<rparr>)
      else
        \<lparr>dg_platform = platform, dg_supported = False, dg_desktopTool = (''unknown'', False), dg_soundTool = (''unknown'', False),
         dg_issues = [''Unsupported platform: '' @ platform @ ''. Desktop notifications are not available.''],
         dg_setupInstructions = [lit ''Desktop notifications are only supported on macOS, Linux, and Windows.'']\<rparr>)"

definition sendTestNotification :: "string \<Rightarrow> (string \<Rightarrow> bool) \<Rightarrow> (string \<Rightarrow> bool) \<Rightarrow> bool \<Rightarrow> notifier \<Rightarrow> (bool \<times> string) \<times> notifier" where
  "sendTestNotification platform commandExists works withSound n =
     (let diag = checkPlatformSupport platform commandExists in
      if \<not> dg_supported diag then ((False, ''Desktop notifications not supported: '' @ join_with ''; '' (dg_issues diag)), n)
      else case test_begin platform works withSound n of
        (orig, n1) \<Rightarrow> ((True, test_message withSound), test_end orig n1))"

section \<open>The configure_alerts tool\<close>

record configureArgs =
  ca_desktop :: "bool option"
  ca_sound :: "bool option"
  ca_urgency_threshold :: "priority option"
  ca_webhook_url :: "string option"
  ca_webhook_events :: "priority list option"
  ca_save :: bool

definition alertsPatch_of :: "configureArgs \<Rightarrow> alertsPatch" where
  "alertsPatch_of args =
     \<lparr>pa_desktop = map_option FlagOf (ca_desktop args), pa_sound = map_option FlagOf (ca_sound args),
      pa_urgencyThreshold = map_option level_name (ca_urgency_threshold args), pa_webhookUrl = ca_webhook_url args,
      pa_webhookEvents = map_option (\<lambda>es. EventsOf (map level_name es)) (ca_webhook_events args)\<rparr>"

definition empty_patch :: alertsPatch where
  "empty_patch = \<lparr>pa_desktop = None, pa_sound = None, pa_urgencyThreshold = None, pa_webhookUrl = None, pa_webhookEvents = None\<rparr>"

definition webhookOrigin :: "url_parser \<Rightarrow> string \<Rightarrow> string" where
  "webhookOrigin parseUrl url =
     (if url = [] then []
      else case parseUrl url of
        None \<Rightarrow> ''[invalid URL]''
      | Some u \<Rightarrow> if u_origin u = ''null'' then ''[not an http(s) URL]'' else u_origin u)"

text \<open>\<open>replaceAll\<close> with a replacement that holds no dollar sign.\<close>

function replace_all :: "string \<Rightarrow> string \<Rightarrow> string \<Rightarrow> string" where
  "replace_all old new s =
     (if s = [] then []
      else if old \<noteq> [] \<and> starts_with old s then new @ replace_all old new (drop (length old) s)
      else hd s # replace_all old new (tl s))"
  by pat_completeness auto
termination by (relation "measure (\<lambda>(old, new, s). length s)") auto

declare replace_all.simps [simp del]

definition validation_text :: "validation_error \<Rightarrow> string" where
  "validation_text e =
     (case e of
        InvalidUrl u \<Rightarrow> ''Invalid webhook URL: '' @ u
      | BadProtocol p \<Rightarrow> ''Webhook URL must use http or https protocol, got '' @ p
      | PrivateAddress h \<Rightarrow> ''Webhook URL must not point to a loopback or private address: '' @ h
      | _ \<Rightarrow> [])"

definition alerts_error_text :: "alerts_error \<Rightarrow> string" where
  "alerts_error_text e =
     (case e of
        UrlTooLong \<Rightarrow> ''Webhook URL is too long''
      | UrlControl \<Rightarrow> ''Webhook URL must not contain control characters''
      | UrlRefused v \<Rightarrow> validation_text v
      | UrlCredentials \<Rightarrow> ''Webhook URL must not include credentials''
      | DesktopNotBoolean \<Rightarrow> ''desktop must be a boolean''
      | SoundNotBoolean \<Rightarrow> ''sound must be a boolean''
      | BadThreshold \<Rightarrow> ''urgency threshold must be urgent, high, normal, or low''
      | BadEvents \<Rightarrow> ''webhook events must be urgency levels'')"

text \<open>The audit entry: the patch with the origin in place of the webhook URL, the save flag, the error.\<close>

record alertsAudit =
  aa_patch :: alertsPatch
  aa_save :: bool
  aa_error :: "string option"

definition alertsAuditParams :: "url_parser \<Rightarrow> alertsPatch \<Rightarrow> bool \<Rightarrow> string option \<Rightarrow> alertsAudit" where
  "alertsAuditParams parseUrl partial save err =
     \<lparr>aa_patch = partial\<lparr>pa_webhookUrl := map_option (webhookOrigin parseUrl) (pa_webhookUrl partial)\<rparr>, aa_save = save, aa_error = err\<rparr>"

definition auditAlertsRefusal :: "url_parser \<Rightarrow> alertsPatch \<Rightarrow> bool \<Rightarrow> string \<Rightarrow> alertsAudit" where
  "auditAlertsRefusal parseUrl partial save errMsg =
     alertsAuditParams parseUrl partial save
       (Some (case pa_webhookUrl partial of
          None \<Rightarrow> errMsg
        | Some u \<Rightarrow> if u = [] then errMsg else replace_all u (webhookOrigin parseUrl u) errMsg))"

datatype configure_end = CurrentAlerts alertsConfig | UpdatedAlerts alertsConfig "string option" | AlertsRefused string

text \<open>\<open>persist\<close> is the write of the configuration file: its error, if any. The third part is \<open>hooksConfig.alerts\<close>.\<close>

definition configure_alerts ::
  "url_parser \<Rightarrow> (alertsConfig \<Rightarrow> string option) \<Rightarrow> configureArgs \<Rightarrow> alertsConfig \<Rightarrow> notifier \<Rightarrow>
     configure_end \<times> alertsAudit option \<times> alertsConfig \<times> notifier" where
  "configure_alerts parseUrl persist args hooksAlerts n =
     (let partial = alertsPatch_of args in
      if partial = empty_patch then (CurrentAlerts (n_config n), None, hooksAlerts, n)
      else case updateConfig parseUrl partial n of
        (Inl e, n1) \<Rightarrow>
          (AlertsRefused (alerts_error_text e), Some (auditAlertsRefusal parseUrl partial (ca_save args) (alerts_error_text e)), hooksAlerts, n1)
      | (Inr updated, n1) \<Rightarrow>
          (let saveError = (if ca_save args then persist updated else None) in
           (UpdatedAlerts updated saveError,
            Some (alertsAuditParams parseUrl partial (ca_save args) (map_option (\<lambda>e. ''Not saved: '' @ e) saveError)), updated, n1)))"

section \<open>Events\<close>

datatype notifier_event =
    AlertLogged alertPayload
  | AlertDesktop alertPayload bool bool
  | AlertWebhook alertPayload
  | UpdateConfig alertsPatch
  | TestBegins bool
  | TestEnds "bool \<times> bool"
  | ResetTick
  | StopNotifier

text \<open>The calls in the order in which they run; the steps of different calls may alternate freely.\<close>

fun notifier_step :: "url_parser \<Rightarrow> string \<Rightarrow> (string \<Rightarrow> bool) \<Rightarrow> notifier_event \<Rightarrow> notifier \<Rightarrow> notifier" where
  "notifier_step parseUrl platform works (AlertLogged p) n = snd (alert_begin p n)"
| "notifier_step parseUrl platform works (AlertDesktop p meets force) n = alert_desktop platform works p meets force n"
| "notifier_step parseUrl platform works (AlertWebhook p) n = alert_webhook p n"
| "notifier_step parseUrl platform works (UpdateConfig partial) n = snd (updateConfig parseUrl partial n)"
| "notifier_step parseUrl platform works (TestBegins withSound) n = snd (test_begin platform works withSound n)"
| "notifier_step parseUrl platform works (TestEnds orig) n = test_end orig n"
| "notifier_step parseUrl platform works ResetTick n = reset_tick n"
| "notifier_step parseUrl platform works StopNotifier n = stop_notifier n"

definition notifier_run :: "url_parser \<Rightarrow> string \<Rightarrow> (string \<Rightarrow> bool) \<Rightarrow> notifier_event list \<Rightarrow> notifier \<Rightarrow> notifier" where
  "notifier_run parseUrl platform works es n = fold (notifier_step parseUrl platform works) es n"

section \<open>Facts\<close>

lemma sendDesktop_fields [simp]:
  "n_config (sendDesktopNotification platform works p n) = n_config n"
  "n_logs (sendDesktopNotification platform works p n) = n_logs n"
  "n_webhooks (sendDesktopNotification platform works p n) = n_webhooks n"
  by (simp_all add: sendDesktopNotification_def Let_def)

lemma sendDesktop_counts:
  "n_desktopCount n \<le> 5 \<Longrightarrow> n_desktopCount (sendDesktopNotification platform works p n) \<le> 5 \<and>
    length (n_ran (sendDesktopNotification platform works p n)) + n_desktopCount n =
    length (n_ran n) + n_desktopCount (sendDesktopNotification platform works p n)"
  by (simp add: sendDesktopNotification_def Let_def MAX_DESKTOP_PER_MIN_def)

lemma step_counts:
  assumes "n_desktopCount n \<le> 5" "e \<noteq> ResetTick"
  shows "n_desktopCount (notifier_step parseUrl platform works e n) \<le> 5 \<and>
    length (n_ran (notifier_step parseUrl platform works e n)) + n_desktopCount n =
    length (n_ran n) + n_desktopCount (notifier_step parseUrl platform works e n)"
proof (cases e)
  case (TestBegins sound)
  then show ?thesis
    using sendDesktop_counts [of "n\<lparr>n_config := (n_config n)\<lparr>al_desktop := True, al_sound := sound\<rparr>\<rparr>"] assms(1)
    by (simp add: test_begin_def)
next
  case (AlertDesktop p meets force)
  with sendDesktop_counts [OF assms(1)] assms(1) show ?thesis by (simp add: alert_desktop_def)
qed (use assms in \<open>auto simp: alert_begin_def alert_webhook_def updateConfig_def test_end_def stop_notifier_def split: sum.split\<close>)

lemma run_counts:
  "n_desktopCount n \<le> 5 \<Longrightarrow> ResetTick \<notin> set es \<Longrightarrow>
    n_desktopCount (notifier_run parseUrl platform works es n) \<le> 5 \<and>
    length (n_ran (notifier_run parseUrl platform works es n)) + n_desktopCount n =
    length (n_ran n) + n_desktopCount (notifier_run parseUrl platform works es n)"
proof (induction es arbitrary: n)
  case (Cons e es)
  then have "e \<noteq> ResetTick" by auto
  from step_counts [OF Cons.prems(1) this, of parseUrl platform works] Cons.IH [of "notifier_step parseUrl platform works e n"] Cons.prems(2)
  show ?case by (simp add: notifier_run_def)
qed (simp add: notifier_run_def)

lemma step_keeps_bound: "n_desktopCount n \<le> 5 \<Longrightarrow> n_desktopCount (notifier_step parseUrl platform works e n) \<le> 5"
  by (cases "e = ResetTick") (auto simp: reset_tick_def step_counts)

lemma run_keeps_bound: "n_desktopCount n \<le> 5 \<Longrightarrow> n_desktopCount (notifier_run parseUrl platform works es n) \<le> 5"
  by (induction es arbitrary: n) (simp_all add: notifier_run_def step_keeps_bound)

text \<open>
  Between two resets of the counter (once a minute) at most five desktop notifications are shown,
  whatever alerts, test notifications and changes of the settings come before or in between.
\<close>

lemma desktop_rate_bounded:
  assumes "ResetTick \<notin> set window"
  shows "length (n_ran (notifier_run parseUrl platform works (earlier @ window) (new_notifier config)))
    \<le> length (n_ran (notifier_run parseUrl platform works earlier (new_notifier config))) + 5"
proof -
  let ?n = "notifier_run parseUrl platform works earlier (new_notifier config)"
  have "n_desktopCount ?n \<le> 5" by (rule run_keeps_bound) (simp add: new_notifier_def)
  from run_counts [OF this assms, of parseUrl platform works] show ?thesis by (simp add: notifier_run_def)
qed

text \<open>
  At the levels that shared client logs keep, the entries of an alert do not depend on the sender or
  the subject of the mail.
\<close>

theorem shared_logs_hide_mail:
  "filter (\<lambda>(level, _). level \<noteq> LDebug) (alert_logs p) =
   filter (\<lambda>(level, _). level \<noteq> LDebug) (alert_logs (p\<lparr>ap_sender := sender, ap_subject := subject\<rparr>))"
  by (simp add: alert_logs_def formatAlertLog_def Let_def log_where_def log_tags_def)

lemma lit_inject: "lit a = lit b \<longleftrightarrow> a = b"
  unfolding lit_def by (rule inj_map_eq_map) (simp add: inj_def)

definition command_shape :: "notificationCommand \<Rightarrow> string \<times> text16 list \<times> string list" where
  "command_shape c = (nc_bin c, takeWhile (\<lambda>a. a \<noteq> lit ''--'') (nc_args c), map fst (nc_env c))"

lemma notificationField_bounded: "length (notificationField s) \<le> 200 \<and> 0 \<notin> set (notificationField s)"
  unfolding notificationField_def MAX_NOTIFICATION_FIELD_CHARS_def using set_take_subset by fastforce


section \<open>Settings at run time\<close>

lemma assertWebhookUrl_ok:
  assumes "assertWebhookUrl parseUrl url allowPrivate = Inr ()"
  shows "length url \<le> 2048 \<and> \<not> has_control url \<and>
    (\<exists>u. parseUrl url = Some u \<and> u_protocol u \<in> {''http:'', ''https:''} \<and> u_username u = [] \<and> u_password u = [] \<and>
      (if allowPrivate then True else \<not> isBlockedWebhookHost (stripHostBrackets (u_hostname u))))"
  using assms
  by (auto simp: assertWebhookUrl_def validateWebhookUrl_def web_parts_def MAX_WEBHOOK_URL_CHARS_def Let_def
      split: if_splits option.splits sum.splits)

lemma applyAlertsPatch_Inr:
  assumes "applyAlertsPatch parseUrl current partial = Inr c"
  shows "al_allowPrivateWebhooks c = al_allowPrivateWebhooks current"
    "al_desktop c = flag_or (pa_desktop partial) (al_desktop current)" "al_sound c = flag_or (pa_sound partial) (al_sound current)"
    "al_webhookUrl c = al_webhookUrl current \<or> al_webhookUrl c = [] \<or>
       assertWebhookUrl parseUrl (al_webhookUrl c) (al_allowPrivateWebhooks current = Some True) = Inr ()"
proof -
  let ?check = "case pa_webhookUrl partial of
      None \<Rightarrow> Inr ()
    | Some u \<Rightarrow> if u = [] then Inr () else assertWebhookUrl parseUrl u (al_allowPrivateWebhooks current = Some True)"
  have c: "?check = Inr ()"
    "c = \<lparr>al_desktop = flag_or (pa_desktop partial) (al_desktop current),
       al_sound = flag_or (pa_sound partial) (al_sound current),
       al_urgencyThreshold = (case pa_urgencyThreshold partial of None \<Rightarrow> al_urgencyThreshold current | Some t \<Rightarrow> level_of t),
       al_webhookUrl = (case pa_webhookUrl partial of None \<Rightarrow> al_webhookUrl current | Some u \<Rightarrow> u),
       al_webhookEvents = (case pa_webhookEvents partial of Some (EventsOf es) \<Rightarrow> map level_of es | _ \<Rightarrow> al_webhookEvents current),
       al_allowPrivateWebhooks = al_allowPrivateWebhooks current\<rparr>"
    using assms unfolding applyAlertsPatch_def
    by (simp_all only: bindE_Inr_iff sum.simps if_split_eq1 simp_thms split: if_split_asm) auto
  show "al_allowPrivateWebhooks c = al_allowPrivateWebhooks current"
    "al_desktop c = flag_or (pa_desktop partial) (al_desktop current)" "al_sound c = flag_or (pa_sound partial) (al_sound current)"
    unfolding c(2) by simp_all
  show "al_webhookUrl c = al_webhookUrl current \<or> al_webhookUrl c = [] \<or>
       assertWebhookUrl parseUrl (al_webhookUrl c) (al_allowPrivateWebhooks current = Some True) = Inr ()"
    using c(1) unfolding c(2) by (auto split: option.splits if_splits)
qed

definition settings_checked :: "url_parser \<Rightarrow> alertsConfig \<Rightarrow> alertsConfig \<Rightarrow> bool" where
  "settings_checked parseUrl initial c \<longleftrightarrow>
     al_allowPrivateWebhooks c = al_allowPrivateWebhooks initial \<and>
     (al_webhookUrl c = al_webhookUrl initial \<or> al_webhookUrl c = [] \<or>
      assertWebhookUrl parseUrl (al_webhookUrl c) (al_allowPrivateWebhooks initial = Some True) = Inr ())"

lemma updateConfig_checked:
  assumes "settings_checked parseUrl initial (n_config n)"
  shows "settings_checked parseUrl initial (n_config (snd (updateConfig parseUrl partial n)))"
proof (cases "applyAlertsPatch parseUrl (n_config n) partial")
  case (Inr c)
  from applyAlertsPatch_Inr(1,4) [OF Inr] assms have "settings_checked parseUrl initial c" by (auto simp: settings_checked_def)
  with Inr show ?thesis by (simp add: updateConfig_def)
qed (use assms in \<open>simp add: updateConfig_def\<close>)

lemma step_checked:
  "settings_checked parseUrl initial (n_config n) \<Longrightarrow> settings_checked parseUrl initial (n_config (notifier_step parseUrl platform works e n))"
  by (cases e) (simp_all add: updateConfig_checked,
    auto simp: settings_checked_def alert_begin_def alert_desktop_def alert_webhook_def test_begin_def test_end_def reset_tick_def stop_notifier_def)

lemma run_checked:
  "settings_checked parseUrl initial (n_config n) \<Longrightarrow> settings_checked parseUrl initial (n_config (notifier_run parseUrl platform works es n))"
  by (induction es arbitrary: n) (simp_all add: notifier_run_def step_checked)


lemma refused_update_changes_nothing:
  assumes "configure_alerts parseUrl persist args hooksAlerts n = (AlertsRefused msg, entry, alerts', n')"
  shows "n' = n \<and> alerts' = hooksAlerts"
  using assms by (auto simp: configure_alerts_def updateConfig_def Let_def split: sum.splits if_splits prod.splits)

text \<open>
  A test notification that succeeds restores the settings of its start. What an update changes meanwhile
  is lost, although the update reported it; what it leaves unchanged is reported, and saved, as forced by
  the test. The test reports success even when nothing was shown.
\<close>

lemma test_restore_overwrites_update:
  assumes "test_begin platform works withSound n = (orig, n1)" "updateConfig parseUrl partial n1 = (Inr c, n2)"
  shows "al_desktop (n_config (test_end orig n2)) = al_desktop (n_config n)"
    and "pa_desktop partial = Some (FlagOf b) \<Longrightarrow> al_desktop c = b" and "pa_desktop partial = None \<Longrightarrow> al_desktop c = True"
proof -
  from assms(1) have orig: "fst orig = al_desktop (n_config n)" and n1: "al_desktop (n_config n1) = True"
    by (auto simp: test_begin_def)
  then show "al_desktop (n_config (test_end orig n2)) = al_desktop (n_config n)" by (simp add: test_end_def)
  from assms(2) have "applyAlertsPatch parseUrl (n_config n1) partial = Inr c"
    by (auto simp: updateConfig_def split: sum.splits)
  from applyAlertsPatch_Inr(2) [OF this] n1
  show "pa_desktop partial = Some (FlagOf b) \<Longrightarrow> al_desktop c = b" and "pa_desktop partial = None \<Longrightarrow> al_desktop c = True"
    by (simp_all add: flag_or_def)
qed

lemma test_success_without_notification:
  assumes "dg_supported (checkPlatformSupport platform commandExists)"
  shows "fst (fst (sendTestNotification platform commandExists works withSound n)) = True"
    and "n_desktopCount n \<ge> 5 \<Longrightarrow> n_ran (snd (sendTestNotification platform commandExists works withSound n)) = n_ran n"
  using assms
  by (simp_all add: sendTestNotification_def test_begin_def test_end_def sendDesktopNotification_def MAX_DESKTOP_PER_MIN_def)

end
