(* ===== verification/HeaderText.thy ===== *)
theory HeaderText
  imports Texts
begin

text \<open>
  Header blocks of messages: unfolding of continuation lines, splitting into lines, the reading of a block
  into a map (\<open>parseHeaderBlock\<close>) and of the message ids of its thread headers
  (src/services/imap.service.ts, src/utils/auth-headers.ts).
\<close>

definition CR :: char where [model_defs]: "CR = CHR 0x0D"
definition LF :: char where [model_defs]: "LF = CHR 0x0A"

definition blank :: "char \<Rightarrow> bool" where
  [model_defs]: "blank c \<longleftrightarrow> c = CHR '' '' \<or> c = CHR 0x09"

text \<open>The rest after a line break (a line feed, or a carriage return and a line feed).\<close>

definition after_break :: "string \<Rightarrow> string option" where
  "after_break s =
     (case s of
        [] \<Rightarrow> None
      | c # r \<Rightarrow>
          if c = LF then Some r
          else if c = CR \<and> r \<noteq> [] \<and> hd r = LF then Some (tl r) else None)"

lemma after_break_shorter: "after_break s = Some r \<Longrightarrow> length r < length s"
  by (auto simp: after_break_def split: list.splits if_splits)

definition after_fold :: "string \<Rightarrow> string option" where
  "after_fold s =
     (case after_break s of
        None \<Rightarrow> None
      | Some r \<Rightarrow> if r \<noteq> [] \<and> blank (hd r) then Some (dropWhile blank r) else None)"

lemma after_fold_shorter: "after_fold s = Some r \<Longrightarrow> length r < length s"
  by (auto simp: after_fold_def dest!: after_break_shorter split: option.splits if_splits
      intro: le_less_trans [OF length_dropWhile_le])

text \<open>Every line break with blanks after it becomes one space.\<close>

function unfoldHeaders :: "string \<Rightarrow> string" where
  "unfoldHeaders s =
     (case s of
        [] \<Rightarrow> []
      | c # r \<Rightarrow> (case after_fold s of Some rest \<Rightarrow> CHR '' '' # unfoldHeaders rest | None \<Rightarrow> c # unfoldHeaders r))"
  by pat_completeness auto
termination by (relation "measure length") (auto dest: after_fold_shorter)

declare unfoldHeaders.simps [simp del]

function split_lines :: "string \<Rightarrow> string list" where
  "split_lines s =
     (case s of
        [] \<Rightarrow> [[]]
      | c # r \<Rightarrow>
          (case after_break s of
             Some rest \<Rightarrow> [] # split_lines rest
           | None \<Rightarrow> (case split_lines r of [] \<Rightarrow> [[c]] | p # ps \<Rightarrow> (c # p) # ps)))"
  by pat_completeness auto
termination by (relation "measure length") (auto dest: after_break_shorter)

declare split_lines.simps [simp del]

section \<open>Header blocks\<close>

text \<open>
  The index of the first colon, the name before it and the value after it. A line without a colon, or
  that starts with one, is dropped, and so is one whose name is blank or \<open>__proto__\<close> (the setter of that
  name ignores texts). A repeated header is joined with a space. \<open>inherited\<close> is what \<open>headers[key]\<close> gives on the empty object: the text of an inherited member
  for its names.
\<close>

definition colon_split :: "string \<Rightarrow> (string \<times> string) option" where
  [model_defs]: "colon_split line =
     (if CHR '':'' \<in> set line then
        Some (takeWhile (\<lambda>c. c \<noteq> CHR '':'') line, tl (dropWhile (\<lambda>c. c \<noteq> CHR '':'') line))
      else None)"

definition add_header :: "(string \<Rightarrow> string option) \<Rightarrow> string \<Rightarrow> (string, string) jsmap \<Rightarrow> (string, string) jsmap" where
  "add_header inherited line headers =
     (case colon_split line of
        None \<Rightarrow> headers
      | Some (before, after) \<Rightarrow>
          (let key = to_lower (trim before); v = trim after in
           if before = [] \<or> key = [] \<or> key = ''__proto__'' then headers
           else case (case js_get headers key of Some old \<Rightarrow> Some old | None \<Rightarrow> inherited key) of
             None \<Rightarrow> js_set key v headers
           | Some old \<Rightarrow> js_set key (if old = [] then v else old @ '' '' @ v) headers))"

definition parseHeaderBlock :: "(string \<Rightarrow> string option) \<Rightarrow> string \<Rightarrow> (string, string) jsmap" where
  "parseHeaderBlock inherited headerBlock =
     fold (add_header inherited) (split_lines (unfoldHeaders headerBlock)) []"

text \<open>\<open>split\<close> at runs of white space, without the empty parts.\<close>

function words_of :: "string \<Rightarrow> string list" where
  "words_of s =
     (case dropWhile is_space s of
        [] \<Rightarrow> []
      | c # r \<Rightarrow> (c # takeWhile (\<lambda>x. \<not> is_space x) r) # words_of (dropWhile (\<lambda>x. \<not> is_space x) r))"
  by pat_completeness auto
termination
proof (relation "measure length", goal_cases)
  case (2 s c r)
  have "length (dropWhile (\<lambda>x. \<not> is_space x) r) \<le> length r" by (rule length_dropWhile_le)
  also have "length r < length (dropWhile is_space s)" using 2 by simp
  also have "length (dropWhile is_space s) \<le> length s" by (rule length_dropWhile_le)
  finally show ?case by simp
qed simp

declare words_of.simps [simp del]

section \<open>Message ids\<close>

definition id_char :: "char \<Rightarrow> bool" where
  [model_defs]: "id_char c \<longleftrightarrow> c \<noteq> CHR ''<'' \<and> c \<noteq> CHR ''>'' \<and> \<not> is_space c"

text \<open>Every match of \<open>/<[^<>\s]+>/g\<close>, from left to right.\<close>

function angle_ids :: "string \<Rightarrow> string list" where
  "angle_ids s =
     (case s of
        [] \<Rightarrow> []
      | c # r \<Rightarrow>
          (let run = takeWhile id_char r; rest = dropWhile id_char r in
           if c = CHR ''<'' \<and> run \<noteq> [] \<and> rest \<noteq> [] \<and> hd rest = CHR ''>''
           then (CHR ''<'' # run @ ''>'') # angle_ids (tl rest) else angle_ids r))"
  by pat_completeness auto
termination
  by (relation "measure length") (auto intro: le_less_trans [OF diff_le_self le_imp_less_Suc [OF length_dropWhile_le]])

declare angle_ids.simps [simp del]

definition thread_header_line :: "string \<Rightarrow> bool" where
  "thread_header_line line \<longleftrightarrow>
     list_ex (\<lambda>p. starts_with p (to_lower line)) [''message-id:'', ''references:'', ''in-reply-to:'']"

definition threadIdsInHeaders :: "string option \<Rightarrow> string list" where
  "threadIdsInHeaders headers =
     (case headers of
        None \<Rightarrow> []
      | Some text \<Rightarrow> concat (map angle_ids (filter thread_header_line (split_lines (unfoldHeaders text)))))"

end
