(* ===== verification/ImapThread.thy ===== *)
theory ImapThread
  imports HeaderText
begin

text \<open>
  The thread search of src/services/imap.service.ts (\<open>findThreadUids\<close>): from one message id, the ids that
  the headers of each found message name are searched in turn until nothing new turns up or the limit is
  reached. The server is two arguments: the uids a header search answers (\<open>None\<close> when it fails), and the
  thread headers of a message. The commands sent are kept in order. The lemmas show that the search ends,
  how many commands it takes, and that below the limit it finds exactly the messages the ids lead to.
\<close>

section \<open>The search\<close>

definition MAX_THREAD_MESSAGES :: nat where "MAX_THREAD_MESSAGES = 50"

definition THREAD_HEADERS :: "string list" where
  "THREAD_HEADERS = [''Message-ID'', ''References'', ''In-Reply-To'']"

definition set_add :: "'a \<Rightarrow> 'a list \<Rightarrow> 'a list" where
  "set_add x xs = (if x \<in> set xs then xs else xs @ [x])"

datatype thread_cmd = SearchHeader string string | FetchHeaders "nat list"

type_synonym header_search = "string \<Rightarrow> string \<Rightarrow> nat list option"
type_synonym header_fetch = "nat \<Rightarrow> string option"

definition searchThreadHeaders :: "header_search \<Rightarrow> string \<Rightarrow> nat list" where
  "searchThreadHeaders search i =
     concat (map (\<lambda>h. case search h i of None \<Rightarrow> [] | Some uids \<Rightarrow> uids) THREAD_HEADERS)"

definition collectThreadIds :: "header_fetch \<Rightarrow> nat list \<Rightarrow> string list \<Rightarrow> string list" where
  "collectThreadIds headers_of uids ids = fold set_add (concat (map (threadIdsInHeaders \<circ> headers_of) uids)) ids"

text \<open>The inner loop over the ids not searched yet.\<close>

record thread_state =
  t_searched :: "string list"
  t_found :: "nat list"
  t_cmds :: "thread_cmd list"

fun search_known :: "header_search \<Rightarrow> nat \<Rightarrow> string list \<Rightarrow> thread_state \<Rightarrow> thread_state" where
  "search_known search limit [] t = t"
| "search_known search limit (i # todo) t =
     (if length (t_found t) \<ge> limit then t
      else search_known search limit todo
        (t\<lparr>t_searched := set_add i (t_searched t), t_found := fold set_add (searchThreadHeaders search i) (t_found t),
           t_cmds := t_cmds t @ map (\<lambda>h. SearchHeader h i) THREAD_HEADERS\<rparr>))"

lemma set_add_set [simp]: "set (set_add x xs) = insert x (set xs)"
  by (auto simp: set_add_def)

lemma fold_set_add_set [simp]: "set (fold set_add ys xs) = set ys \<union> set xs"
  by (induction ys arbitrary: xs) auto

lemma set_add_distinct [simp]: "distinct xs \<Longrightarrow> distinct (set_add x xs)"
  by (simp add: set_add_def)

lemma fold_set_add_distinct [simp]: "distinct xs \<Longrightarrow> distinct (fold set_add ys xs)"
  by (induction ys arbitrary: xs) auto

lemma search_known_grows: "set (t_found t) \<subseteq> set (t_found (search_known search limit todo t))"
proof (induction todo arbitrary: t)
  case (Cons i todo)
  let ?t = "t\<lparr>t_searched := set_add i (t_searched t), t_found := fold set_add (searchThreadHeaders search i) (t_found t),
           t_cmds := t_cmds t @ map (\<lambda>h. SearchHeader h i) THREAD_HEADERS\<rparr>"
  have "set (t_found t) \<subseteq> set (t_found ?t)" by simp
  also have "\<dots> \<subseteq> set (t_found (search_known search limit todo ?t))" by (rule Cons)
  finally show ?case by simp
qed simp

text \<open>
  The outer loop. It goes on only after a message was read for the first time and while fewer than
  \<open>limit\<close> messages are found, so the number of read messages among the found ones is bounded and grows.
\<close>

function thread_loop ::
  "header_search \<Rightarrow> header_fetch \<Rightarrow> nat \<Rightarrow> string list \<Rightarrow> nat list \<Rightarrow> thread_state \<Rightarrow> thread_state" where
  "thread_loop search headers_of limit ids read t =
     (let t' = search_known search limit (filter (\<lambda>i. i \<notin> set (t_searched t)) ids) t;
          unread = filter (\<lambda>u. u \<notin> set read) (t_found t')
      in if unread \<noteq> [] \<and> length (t_found t') < limit
         then thread_loop search headers_of limit (collectThreadIds headers_of unread ids) (fold set_add unread read)
           (t'\<lparr>t_cmds := t_cmds t' @ [FetchHeaders unread]\<rparr>)
         else t')"
  by pat_completeness auto
termination
proof (relation "measure (\<lambda>(search, headers_of, limit, ids, read, t). limit - card (set read \<inter> set (t_found t)))", goal_cases)
  case (2 search headers_of limit ids read t t' unread)
  have sub: "set (t_found t) \<subseteq> set (t_found t')" unfolding 2(1) by (rule search_known_grows)
  obtain u where u: "u \<in> set (t_found t')" "u \<notin> set read" using 2 by (auto simp: filter_empty_conv)
  let ?old = "set read \<inter> set (t_found t)" and ?new = "set (fold set_add unread read) \<inter> set (t_found t')"
  have "?old \<subset> ?new" using sub u 2(2) by auto
  then have "card ?old < card ?new" by (rule psubset_card_mono [rotated]) simp
  moreover have "card ?new \<le> length (t_found t')" by (rule order_trans [OF card_mono card_length]) auto
  moreover have "length (t_found t') < limit" using 2(3) by simp
  ultimately have "limit - card ?new < limit - card ?old" by (intro diff_less_mono2) linarith+
  then show ?case by simp
qed simp

declare thread_loop.simps [simp del]

definition run_thread_search :: "header_search \<Rightarrow> header_fetch \<Rightarrow> nat \<Rightarrow> string \<Rightarrow> thread_state" where
  "run_thread_search search headers_of limit messageId =
     thread_loop search headers_of limit [messageId] [] \<lparr>t_searched = [], t_found = [], t_cmds = []\<rparr>"

definition findThreadUids :: "header_search \<Rightarrow> header_fetch \<Rightarrow> nat \<Rightarrow> string \<Rightarrow> nat list" where
  "findThreadUids search headers_of limit messageId = take limit (t_found (run_thread_search search headers_of limit messageId))"

section \<open>What a thread is\<close>

inductive in_thread :: "header_search \<Rightarrow> header_fetch \<Rightarrow> string \<Rightarrow> string \<Rightarrow> bool"
  for search :: header_search and headers_of :: header_fetch and messageId :: string where
  thread_start: "in_thread search headers_of messageId messageId"
| thread_next: "in_thread search headers_of messageId i \<Longrightarrow> u \<in> set (searchThreadHeaders search i) \<Longrightarrow>
    j \<in> set (threadIdsInHeaders (headers_of u)) \<Longrightarrow> in_thread search headers_of messageId j"

definition thread_uids :: "header_search \<Rightarrow> header_fetch \<Rightarrow> string \<Rightarrow> nat set" where
  "thread_uids search headers_of messageId =
     {u. \<exists>i. in_thread search headers_of messageId i \<and> u \<in> set (searchThreadHeaders search i)}"

section \<open>Facts about the search\<close>

definition is_search :: "thread_cmd \<Rightarrow> bool" where
  "is_search c = (case c of SearchHeader _ _ \<Rightarrow> True | FetchHeaders _ \<Rightarrow> False)"

definition searches :: "string list \<Rightarrow> thread_cmd list" where
  "searches ids = concat (map (\<lambda>i. map (\<lambda>h. SearchHeader h i) THREAD_HEADERS) ids)"

lemma filter_search [simp]:
  "filter is_search (map (\<lambda>h. SearchHeader h i) hs) = map (\<lambda>h. SearchHeader h i) hs"
  "filter (\<lambda>c. \<not> is_search c) (map (\<lambda>h. SearchHeader h i) hs) = []"
  by (simp_all add: is_search_def filter_id_conv filter_empty_conv)

lemma search_known_post:
  assumes "distinct (t_found t)" "distinct (t_searched t @ todo)"
    and "\<And>i. i \<in> set (t_searched t) \<Longrightarrow> set (searchThreadHeaders search i) \<subseteq> set (t_found t)"
    and "filter is_search (t_cmds t) = searches (t_searched t)"
  shows "\<exists>first rest. todo = first @ rest \<and>
      t_searched (search_known search limit todo t) = t_searched t @ first \<and>
      (rest \<noteq> [] \<longrightarrow> limit \<le> length (t_found (search_known search limit todo t))) \<and>
      distinct (t_found (search_known search limit todo t)) \<and>
      set (t_found (search_known search limit todo t)) = set (t_found t) \<union> (\<Union>i \<in> set first. set (searchThreadHeaders search i)) \<and>
      filter is_search (t_cmds (search_known search limit todo t)) = searches (t_searched t @ first) \<and>
      filter (\<lambda>c. \<not> is_search c) (t_cmds (search_known search limit todo t)) = filter (\<lambda>c. \<not> is_search c) (t_cmds t)"
  using assms
proof (induction todo arbitrary: t)
  case (Cons i todo)
  show ?case
  proof (cases "limit \<le> length (t_found t)")
    case True
    with Cons.prems show ?thesis by (intro exI [of _ "[]"] exI [of _ "i # todo"]) simp
  next
    case False
    let ?t = "t\<lparr>t_searched := set_add i (t_searched t), t_found := fold set_add (searchThreadHeaders search i) (t_found t),
           t_cmds := t_cmds t @ map (\<lambda>h. SearchHeader h i) THREAD_HEADERS\<rparr>"
    let ?r = "search_known search limit todo ?t"
    have add: "set_add i (t_searched t) = t_searched t @ [i]" using Cons.prems(2) by (simp add: set_add_def)
    have "\<exists>first rest. todo = first @ rest \<and> t_searched ?r = t_searched ?t @ first \<and>
        (rest \<noteq> [] \<longrightarrow> limit \<le> length (t_found ?r)) \<and> distinct (t_found ?r) \<and>
        set (t_found ?r) = set (t_found ?t) \<union> (\<Union>i \<in> set first. set (searchThreadHeaders search i)) \<and>
        filter is_search (t_cmds ?r) = searches (t_searched ?t @ first) \<and>
        filter (\<lambda>c. \<not> is_search c) (t_cmds ?r) = filter (\<lambda>c. \<not> is_search c) (t_cmds ?t)"
    proof (rule Cons.IH)
      show "set (searchThreadHeaders search j) \<subseteq> set (t_found ?t)" if "j \<in> set (t_searched ?t)" for j
        using that Cons.prems(3) [of j] by (auto simp: add)
    qed (use Cons.prems in \<open>simp_all add: add searches_def\<close>)
    then obtain first rest where r: "todo = first @ rest" "t_searched ?r = t_searched ?t @ first"
      "rest \<noteq> [] \<longrightarrow> limit \<le> length (t_found ?r)" "distinct (t_found ?r)"
      "set (t_found ?r) = set (t_found ?t) \<union> (\<Union>i \<in> set first. set (searchThreadHeaders search i))"
      "filter is_search (t_cmds ?r) = searches (t_searched ?t @ first)"
      "filter (\<lambda>c. \<not> is_search c) (t_cmds ?r) = filter (\<lambda>c. \<not> is_search c) (t_cmds ?t)" by blast
    have "search_known search limit (i # todo) t = ?r" using False by simp
    then show ?thesis
      using r by (intro exI [of _ "i # first"] exI [of _ rest]) (auto simp: add)
  qed
qed simp

definition thread_inv :: "header_search \<Rightarrow> header_fetch \<Rightarrow> string \<Rightarrow> string list \<Rightarrow> nat list \<Rightarrow> thread_state \<Rightarrow> bool" where
  "thread_inv search headers_of messageId ids read t \<longleftrightarrow>
     distinct ids \<and> distinct read \<and> distinct (t_found t) \<and> distinct (t_searched t) \<and>
     messageId \<in> set ids \<and> (\<forall>i \<in> set ids. in_thread search headers_of messageId i) \<and> set (t_searched t) \<subseteq> set ids \<and>
     (\<forall>i \<in> set (t_searched t). set (searchThreadHeaders search i) \<subseteq> set (t_found t)) \<and>
     set (t_found t) \<subseteq> thread_uids search headers_of messageId \<and> set read \<subseteq> set (t_found t) \<and>
     (\<forall>u \<in> set read. set (threadIdsInHeaders (headers_of u)) \<subseteq> set ids) \<and>
     filter is_search (t_cmds t) = searches (t_searched t) \<and>
     length (filter (\<lambda>c. \<not> is_search c) (t_cmds t)) \<le> length read"

definition thread_post :: "header_search \<Rightarrow> header_fetch \<Rightarrow> nat \<Rightarrow> string \<Rightarrow> thread_state \<Rightarrow> bool" where
  "thread_post search headers_of limit messageId t \<longleftrightarrow>
     distinct (t_found t) \<and> set (t_found t) \<subseteq> thread_uids search headers_of messageId \<and>
     (length (t_found t) < limit \<longrightarrow> set (t_found t) = thread_uids search headers_of messageId) \<and>
     distinct (t_searched t) \<and> filter is_search (t_cmds t) = searches (t_searched t) \<and>
     length (filter (\<lambda>c. \<not> is_search c) (t_cmds t)) \<le> limit"

lemma thread_closed:
  assumes "messageId \<in> set ids" "\<forall>i \<in> set ids. set (searchThreadHeaders search i) \<subseteq> found"
    and "\<forall>u \<in> found. set (threadIdsInHeaders (headers_of u)) \<subseteq> set ids"
  shows "thread_uids search headers_of messageId \<subseteq> found"
proof -
  have "i \<in> set ids" if "in_thread search headers_of messageId i" for i
    using that by induction (use assms in auto)
  then show ?thesis using assms(2) by (auto simp: thread_uids_def)
qed

text \<open>One round: what the inner loop leaves, before the next messages are read.\<close>

lemma thread_round:
  assumes inv: "thread_inv search headers_of messageId ids read t"
    and t': "t' = search_known search limit (filter (\<lambda>i. i \<notin> set (t_searched t)) ids) t"
  shows "thread_inv search headers_of messageId ids read t'"
    and "length (t_found t') < limit \<Longrightarrow> set ids = set (t_searched t')"
proof -
  let ?todo = "filter (\<lambda>i. i \<notin> set (t_searched t)) ids"
  have d: "distinct ids" "distinct (t_found t)" "distinct (t_searched t @ ?todo)" "set (t_searched t) \<subseteq> set ids"
    "\<And>i. i \<in> set (t_searched t) \<Longrightarrow> set (searchThreadHeaders search i) \<subseteq> set (t_found t)"
    "filter is_search (t_cmds t) = searches (t_searched t)" "set (t_found t) \<subseteq> thread_uids search headers_of messageId"
    using inv by (auto simp: thread_inv_def)
  from search_known_post [OF d(2,3,5,6), of limit] obtain first rest where r:
    "?todo = first @ rest" "t_searched t' = t_searched t @ first" "rest \<noteq> [] \<longrightarrow> limit \<le> length (t_found t')" "distinct (t_found t')"
    "set (t_found t') = set (t_found t) \<union> (\<Union>i \<in> set first. set (searchThreadHeaders search i))"
    "filter is_search (t_cmds t') = searches (t_searched t @ first)"
    "filter (\<lambda>c. \<not> is_search c) (t_cmds t') = filter (\<lambda>c. \<not> is_search c) (t_cmds t)"
    unfolding t' by blast
  have first: "set first \<subseteq> set ids" using r(1) by (metis Un_iff filter_is_subset set_append subset_iff)
  have found: "set (t_found t') \<subseteq> thread_uids search headers_of messageId"
    using d(7) first inv unfolding r(5) by (auto simp: thread_uids_def thread_inv_def)
  have distinct: "distinct (t_searched t')" using d(3) unfolding r(1,2) by auto
  show "thread_inv search headers_of messageId ids read t'"
    using inv r(2,4,5,6,7) first found distinct unfolding thread_inv_def by auto
  assume "length (t_found t') < limit"
  with r(3) have "?todo = first" using r(1) by simp
  then have "set first = set ids - set (t_searched t)" by auto
  with r(2) d(4) show "set ids = set (t_searched t')" by auto
qed

lemma collect_ids_facts:
  "set (collectThreadIds headers_of uids ids) = set ids \<union> (\<Union>u \<in> set uids. set (threadIdsInHeaders (headers_of u)))"
  "distinct ids \<Longrightarrow> distinct (collectThreadIds headers_of uids ids)"
  by (auto simp: collectThreadIds_def)

lemma thread_continue:
  assumes inv: "thread_inv search headers_of messageId ids read t"
    and unread: "unread = filter (\<lambda>u. u \<notin> set read) (t_found t)" "unread \<noteq> []"
    and searched: "set ids = set (t_searched t)"
  shows "thread_inv search headers_of messageId (collectThreadIds headers_of unread ids) (fold set_add unread read)
    (t\<lparr>t_cmds := t_cmds t @ [FetchHeaders unread]\<rparr>)"
proof -
  have ids: "in_thread search headers_of messageId j"
    if "j \<in> set (threadIdsInHeaders (headers_of u))" "u \<in> set unread" for j u
  proof -
    have "u \<in> thread_uids search headers_of messageId" using that(2) inv unread(1) by (auto simp: thread_inv_def)
    then show ?thesis using that(1) by (auto simp: thread_uids_def intro: thread_next)
  qed
  have fold: "fold set_add unread read = read @ unread" if "distinct unread" "set unread \<inter> set read = {}"
    using that by (induction unread arbitrary: read) (auto simp: set_add_def)
  have len: "length (fold set_add unread read) = length read + length unread"
    using inv unread(1) by (subst fold) (auto simp: thread_inv_def)
  have "length unread \<ge> 1" using unread(2) by (cases unread) auto
  then show ?thesis
    using inv ids len unread(1) unfolding thread_inv_def
    by (auto simp: collect_ids_facts is_search_def)
qed

lemma thread_loop_post:
  "thread_inv search headers_of messageId ids read t \<Longrightarrow> length read \<le> limit \<Longrightarrow>
    thread_post search headers_of limit messageId (thread_loop search headers_of limit ids read t)"
proof (induction search headers_of limit ids read t rule: thread_loop.induct)
  case (1 search headers_of limit ids read t)
  define t' where "t' = search_known search limit (filter (\<lambda>i. i \<notin> set (t_searched t)) ids) t"
  define unread where "unread = filter (\<lambda>u. u \<notin> set read) (t_found t')"
  have loop: "thread_loop search headers_of limit ids read t =
     (if unread \<noteq> [] \<and> length (t_found t') < limit
      then thread_loop search headers_of limit (collectThreadIds headers_of unread ids) (fold set_add unread read)
        (t'\<lparr>t_cmds := t_cmds t' @ [FetchHeaders unread]\<rparr>) else t')"
    by (subst thread_loop.simps) (simp add: t'_def unread_def Let_def)
  note round = thread_round [OF 1(2) t'_def]
  show ?case
  proof (cases "unread \<noteq> [] \<and> length (t_found t') < limit")
    case True
    from True round(2) have "set ids = set (t_searched t')" by simp
    note next_inv = thread_continue [OF round(1) unread_def _ this]
    have "set (fold set_add unread read) \<subseteq> set (t_found t')" using round(1) by (auto simp: unread_def thread_inv_def)
    moreover have "distinct (fold set_add unread read)" using round(1) by (simp add: thread_inv_def)
    ultimately have "length (fold set_add unread read) \<le> length (t_found t')"
      by (metis card_length card_mono distinct_card finite_set order_trans)
    then show ?thesis
      unfolding loop using 1(1) [OF t'_def unread_def True] next_inv True by simp
  next
    case False
    have "set (t_found t') = thread_uids search headers_of messageId" if less: "length (t_found t') < limit"
    proof
      show "set (t_found t') \<subseteq> thread_uids search headers_of messageId" using round(1) by (simp add: thread_inv_def)
      have "set (t_found t') \<subseteq> set read" using False less by (auto simp: unread_def filter_empty_conv)
      then show "thread_uids search headers_of messageId \<subseteq> set (t_found t')"
        using round(1) round(2) [OF less] by (intro thread_closed) (auto simp: thread_inv_def)
    qed
    then show ?thesis unfolding loop if_not_P [OF False] using round(1) 1(3) by (simp add: thread_post_def thread_inv_def)
  qed
qed

lemma thread_search_post: "thread_post search headers_of limit messageId (run_thread_search search headers_of limit messageId)"
  unfolding run_thread_search_def
  by (rule thread_loop_post) (auto simp: thread_inv_def searches_def intro: thread_start)

text \<open>
  C26: the thread search returns distinct messages, at most the limit, all of which the message ids lead to;
  when it returns fewer than the limit it has found every message of the thread.
\<close>

theorem thread_complete:
  "let r = findThreadUids search headers_of limit messageId in
   distinct r \<and> length r \<le> limit \<and> set r \<subseteq> thread_uids search headers_of messageId \<and>
   (if length r < limit then set r = thread_uids search headers_of messageId else True)"
  using thread_search_post [of search headers_of limit messageId] set_take_subset [of limit "t_found (run_thread_search search headers_of limit messageId)"]
  unfolding findThreadUids_def thread_post_def Let_def by (auto split: if_splits)


end
