(* ===== verification/MimeParts.thy ===== *)
theory MimeParts
  imports LocalPaths EmailText HeaderText Types
begin

text \<open>
  MIME structure and attachments (the helpers of src/services/imap.service.ts): the BODYSTRUCTURE tree,
  attachments with their part numbers, the text parts, calendar parts, decoded sizes, and saving
  attachments under distinct file names. A download or a write may fail; both are arguments.
\<close>

section \<open>Body structures\<close>

datatype mime_node = MimeNode
  (mn_type: string) (mn_subtype: string) (mn_disposition: "string option")
  (mn_parameters: "(string, string) jsmap") (mn_dispositionParameters: "(string, string) jsmap")
  (mn_encoding: "string option") (mn_size: "nat option") (mn_part: "string option") (mn_childNodes: "mime_node list")

fun hasAttachments :: "mime_node \<Rightarrow> bool" where
  "hasAttachments (MimeNode t st d ps dps e sz p children) \<longleftrightarrow> d = Some ''attachment'' \<or> list_ex hasAttachments children"

definition mimeTypeOf :: "mime_node \<Rightarrow> string" where
  "mimeTypeOf bs =
     (let raw = mn_type bs; subtype = mn_subtype bs in
      if CHR ''/'' \<in> set raw then to_lower raw
      else if raw \<noteq> [] \<and> subtype \<noteq> [] then to_lower raw @ ''/'' @ to_lower subtype
      else to_lower raw)"

definition partParameters :: "mime_node \<Rightarrow> (string, string) jsmap" where
  "partParameters bs = fold (\<lambda>(k, v). js_set k v) (mn_dispositionParameters bs) (mn_parameters bs)"

definition part_name :: "mime_node \<Rightarrow> string option" where
  [model_defs]: "part_name bs =
     (case js_get (partParameters bs) ''filename'' of Some f \<Rightarrow> Some f | None \<Rightarrow> js_get (partParameters bs) ''name'')"

record attachmentPart =
  ap_filename :: string
  ap_mimeType :: string
  ap_part :: string
  ap_encodedSize :: nat
  ap_encoding :: string

definition attachment_of :: "mime_node \<Rightarrow> string \<Rightarrow> attachmentPart" where
  "attachment_of bs path =
     \<lparr>ap_filename = (case part_name bs of Some f \<Rightarrow> f | None \<Rightarrow> ''unnamed''),
      ap_mimeType = (if mimeTypeOf bs = [] then ''application/octet-stream'' else mimeTypeOf bs),
      ap_part = path, ap_encodedSize = (case mn_size bs of None \<Rightarrow> 0 | Some n \<Rightarrow> n),
      ap_encoding = (case mn_encoding bs of None \<Rightarrow> [] | Some e \<Rightarrow> e)\<rparr>"

definition child_path :: "string \<Rightarrow> nat \<Rightarrow> string" where
  [model_defs]: "child_path path i = (if path \<noteq> [] then path @ ''.'' @ show_nat (Suc i) else show_nat (Suc i))"

text \<open>\<open>list_children\<close> is the \<open>forEach\<close> over the child nodes with their index.\<close>

fun listAttachmentParts :: "mime_node \<Rightarrow> string \<Rightarrow> attachmentPart list"
and list_children :: "mime_node list \<Rightarrow> nat \<Rightarrow> string \<Rightarrow> attachmentPart list" where
  "listAttachmentParts (MimeNode t st d ps dps e sz p children) partPath =
     (let effectivePath = (case p of Some q \<Rightarrow> q | None \<Rightarrow> partPath) in
      (if d = Some ''attachment'' then [attachment_of (MimeNode t st d ps dps e sz p children) effectivePath] else []) @
      list_children children 0 effectivePath)"
| "list_children [] i path = []"
| "list_children (c # cs) i path = listAttachmentParts c (child_path path i) @ list_children cs (Suc i) path"

section \<open>Sizes\<close>

definition BASE64_LINE_CHARS :: nat where "BASE64_LINE_CHARS = 76"
definition CRLF_OCTETS :: nat where "CRLF_OCTETS = 2"
definition BASE64_QUANTUM_CHARS :: nat where "BASE64_QUANTUM_CHARS = 4"
definition BASE64_QUANTUM_BYTES :: nat where "BASE64_QUANTUM_BYTES = 3"

text \<open>\<open>Math.round\<close> of a quotient of naturals.\<close>

definition round_div :: "nat \<Rightarrow> nat \<Rightarrow> nat" where
  [model_defs]: "round_div a b = (2 * a + b) div (2 * b)"

definition decodedBase64Size :: "nat \<Rightarrow> nat" where
  "decodedBase64Size encodedSize =
     (let lineOctets = BASE64_LINE_CHARS + CRLF_OCTETS;
          lineBytes = BASE64_LINE_CHARS div BASE64_QUANTUM_CHARS * BASE64_QUANTUM_BYTES
      in round_div (encodedSize * lineBytes) lineOctets)"

record attachmentMeta =
  am_filename :: string
  am_mimeType :: string
  am_size :: nat
  am_sizeIsEstimate :: bool

definition attachment_meta :: "attachmentPart \<Rightarrow> attachmentMeta" where
  "attachment_meta a =
     (if ap_encoding a \<noteq> ''base64''
      then \<lparr>am_filename = ap_filename a, am_mimeType = ap_mimeType a, am_size = ap_encodedSize a, am_sizeIsEstimate = False\<rparr>
      else \<lparr>am_filename = ap_filename a, am_mimeType = ap_mimeType a, am_size = decodedBase64Size (ap_encodedSize a),
            am_sizeIsEstimate = True\<rparr>)"

definition extractAttachments :: "mime_node \<Rightarrow> attachmentMeta list" where
  "extractAttachments bs = map attachment_meta (listAttachmentParts bs [])"

section \<open>File names\<close>

definition name_stem :: "string \<Rightarrow> string" where
  [model_defs]: "name_stem name = (case lastDot name of Some dot \<Rightarrow> if dot > 0 then take dot name else name | None \<Rightarrow> name)"

definition name_ext :: "string \<Rightarrow> string" where
  [model_defs]: "name_ext name = (case lastDot name of Some dot \<Rightarrow> if dot > 0 then drop dot name else [] | None \<Rightarrow> [])"

definition numbered :: "string \<Rightarrow> nat \<Rightarrow> string" where
  "numbered name n = name_stem name @ ''-'' @ show_nat n @ name_ext name"

lemma to_lower_append: "to_lower (a @ b) = to_lower a @ to_lower b"
  by (simp add: to_lower_def)

lemma to_lower_Cons: "to_lower (c # s) = to_lower_char c # to_lower s"
  by (simp add: to_lower_def)

lemma to_lower_number: "list_all is_digit s \<Longrightarrow> to_lower s = s"
  by (induction s) (auto simp: to_lower_def to_lower_char_def is_digit_def char_less_eq_nat)

lemma numbered_inject: "to_lower (numbered name n) = to_lower (numbered name m) \<longleftrightarrow> n = m"
proof -
  have "show_nat n = show_nat m \<longleftrightarrow> n = m" by (metis number_of_show_nat)
  then show ?thesis
    by (simp add: numbered_def to_lower_append to_lower_number [OF show_nat_digits [THEN conjunct1]] to_lower_Cons)
qed

lemma numbered_finite: "finite {m. P m \<and> to_lower (numbered name m) \<in> set used}"
proof (rule finite_subset)
  show "{m. P m \<and> to_lower (numbered name m) \<in> set used} \<subseteq> (\<lambda>m. to_lower (numbered name m)) -` set used" by auto
  show "finite ((\<lambda>m. to_lower (numbered name m)) -` set used)"
    by (rule finite_vimageI) (simp_all add: inj_def numbered_inject)
qed

text \<open>The \<open>for\<close> loop from 2 on: it ends, since distinct numbers give distinct names.\<close>

function free_number :: "string \<Rightarrow> string list \<Rightarrow> nat \<Rightarrow> nat" where
  "free_number name used n = (if to_lower (numbered name n) \<in> set used then free_number name used (Suc n) else n)"
  by pat_completeness auto
termination
proof (relation "measure (\<lambda>(name, used, n). card {m. n \<le> m \<and> to_lower (numbered name m) \<in> set used})", goal_cases)
  case (2 name used n)
  then have "{m. Suc n \<le> m \<and> to_lower (numbered name m) \<in> set used} \<subset> {m. n \<le> m \<and> to_lower (numbered name m) \<in> set used}"
    by (auto simp: Suc_le_eq intro: le_less_trans)
  then show ?case by (simp add: psubset_card_mono numbered_finite)
qed simp

declare free_number.simps [simp del]

definition uniqueFilename :: "string \<Rightarrow> string list \<Rightarrow> string \<times> string list" where
  "uniqueFilename name used =
     (let candidate = (if to_lower name \<in> set used then numbered name (free_number name used 2) else name)
      in (candidate, to_lower candidate # used))"

section \<open>Saving attachments\<close>

definition SAVED_ATTACHMENT_MAX_BYTES :: nat where "SAVED_ATTACHMENT_MAX_BYTES = 25 * 1024 * 1024"

record savedAttachment =
  sv_filename :: string
  sv_localPath :: string
  sv_fileUrl :: string
  sv_mimeType :: string
  sv_size :: nat

text \<open>
  \<open>download\<close> gives the octets of a part (\<open>None\<close> when it is missing or fails), \<open>writable\<close> tells whether the
  write of a path succeeds. The result holds what was saved and what was written where.
\<close>

record save_env =
  sa_download :: "string \<Rightarrow> nat list option"
  sa_writable :: "string \<Rightarrow> bool"

definition join_path :: "string \<Rightarrow> string \<Rightarrow> string" where
  [model_defs]: "join_path dir name = posix_normalize (dir @ ''/'' @ name)"

fun writeAttachmentParts ::
  "save_env \<Rightarrow> string \<Rightarrow> attachmentPart list \<Rightarrow> string list \<Rightarrow> (savedAttachment \<times> string \<times> nat list) list" where
  "writeAttachmentParts E destDir [] used = []"
| "writeAttachmentParts E destDir (meta # parts) used =
     (case uniqueFilename (sanitizeAttachmentFilename (ap_filename meta)) used of
        (name, used') \<Rightarrow>
          (let localPath = join_path destDir name;
               content = (if ap_part meta \<noteq> [] then sa_download E (ap_part meta) else None) in
           (case content of
              Some octets \<Rightarrow>
                if sa_writable E localPath then
                  [(\<lparr>sv_filename = ap_filename meta, sv_localPath = localPath, sv_fileUrl = ''file://'' @ localPath,
                     sv_mimeType = ap_mimeType meta, sv_size = length octets\<rparr>, name, octets)]
                else []
            | None \<Rightarrow> []) @ writeAttachmentParts E destDir parts used'))"

definition saved_parts :: "nat \<Rightarrow> mime_node \<Rightarrow> attachmentPart list" where
  "saved_parts maxSizeBytes bs =
     filter (\<lambda>a. ap_encodedSize a \<le> maxSizeBytes \<and> \<not> list_ex (starts_with ''calendar'') (suffixes_of (ap_mimeType a)) \<and>
        \<not> ends_with ''.ics'' (to_lower (ap_filename a)))
       (listAttachmentParts bs [])"

section \<open>Text and calendar parts\<close>

record text_leaves =
  tl_plain :: "(string \<times> mime_node) option"
  tl_html :: "(string \<times> mime_node) option"

definition or_else :: "'a option \<Rightarrow> 'a option \<Rightarrow> 'a option" where
  [model_defs]: "or_else a b = (case a of None \<Rightarrow> b | Some x \<Rightarrow> Some x)"

definition merge_leaves :: "text_leaves \<Rightarrow> text_leaves \<Rightarrow> text_leaves" where
  [model_defs]: "merge_leaves acc nested =
     \<lparr>tl_plain = or_else (tl_plain acc) (tl_plain nested), tl_html = or_else (tl_html acc) (tl_html nested)\<rparr>"

definition own_part :: "mime_node \<Rightarrow> string \<Rightarrow> string" where
  [model_defs]: "own_part bs fallback = (case mn_part bs of Some p \<Rightarrow> if p \<noteq> [] then p else fallback | None \<Rightarrow> fallback)"

definition text_child_path :: "string \<Rightarrow> nat \<Rightarrow> string" where
  [model_defs]: "text_child_path current i = (if current \<noteq> [] \<and> current \<noteq> ''1'' then current @ ''.'' @ show_nat (Suc i) else show_nat (Suc i))"

fun findTextMimeLeaves :: "mime_node \<Rightarrow> string \<Rightarrow> text_leaves"
and text_children :: "mime_node list \<Rightarrow> nat \<Rightarrow> string \<Rightarrow> text_leaves \<Rightarrow> text_leaves" where
  "findTextMimeLeaves (MimeNode t st d ps dps e sz p children) partPath =
     (let bs = MimeNode t st d ps dps e sz p children; mime = mimeTypeOf bs in
      if d = Some ''attachment'' \<or> starts_with ''message/'' mime then \<lparr>tl_plain = None, tl_html = None\<rparr>
      else let own = own_part bs partPath; current = (if own = [] then ''1'' else own) in
        text_children children 0 current
          \<lparr>tl_plain = (if mime = ''text/plain'' then Some (current, bs) else None),
           tl_html = (if mime = ''text/html'' then Some (current, bs) else None)\<rparr>)"
| "text_children [] i current acc = acc"
| "text_children (c # cs) i current acc =
     text_children cs (Suc i) current (merge_leaves acc (findTextMimeLeaves c (own_part c (text_child_path current i))))"

definition findTextMimeParts :: "mime_node \<Rightarrow> string option \<times> string option" where
  "findTextMimeParts bs =
     (let leaves = findTextMimeLeaves bs [] in (map_option fst (tl_plain leaves), map_option fst (tl_html leaves)))"

definition is_calendar_part :: "mime_node \<Rightarrow> bool" where
  [model_defs]: "is_calendar_part s \<longleftrightarrow>
     mimeTypeOf s = ''text/calendar'' \<or>
     (map_option to_lower (mn_disposition s) = Some ''attachment'' \<and>
      ends_with ''.ics'' (to_lower (case part_name s of None \<Rightarrow> [] | Some n \<Rightarrow> n)))"

fun findCalendarParts :: "mime_node \<Rightarrow> string \<Rightarrow> string list"
and calendar_children :: "mime_node list \<Rightarrow> nat \<Rightarrow> string \<Rightarrow> string list" where
  "findCalendarParts (MimeNode t st d ps dps e sz p children) prefix =
     (if is_calendar_part (MimeNode t st d ps dps e sz p children)
      then [case p of Some q \<Rightarrow> q | None \<Rightarrow> if prefix = [] then ''1'' else prefix] else []) @
     calendar_children children 0 prefix"
| "calendar_children [] i prefix = []"
| "calendar_children (c # cs) i prefix = findCalendarParts c (child_path prefix i) @ calendar_children cs (Suc i) prefix"

section \<open>Facts about sizes\<close>

text \<open>The octets of \<open>n\<close> bytes in base64 lines of 76 characters, with a line break after the last line or not.\<close>

definition wrapped_octets :: "nat \<Rightarrow> bool \<Rightarrow> nat" where
  "wrapped_octets n trailing =
     (let chars = 4 * ((n + 2) div 3); lines = (chars + 75) div 76
      in chars + 2 * (if trailing then lines else lines - 1))"

text \<open>
  For base64 wrapped at 76 characters, with or without a final line break, the size shown for an
  attachment is within three bytes of its true size.
\<close>

theorem decoded_size_within_three:
  "decodedBase64Size (wrapped_octets n trailing) \<le> n + 3 \<and> n \<le> decodedBase64Size (wrapped_octets n trailing) + 3"
proof -
  define k r where "k = n div 57" and "r = n mod 57"
  define c where "c = (r + 2) div 3"
  have n: "n = 57 * k + r" and r: "r < 57" by (simp_all add: k_def r_def)
  have c: "3 * c \<le> r + 2" "r \<le> 3 * c" "c \<le> 19" using r by (auto simp: c_def)
  have "(n + 2) div 3 = 19 * k + c" unfolding n c_def by simp
  then have chars: "4 * ((n + 2) div 3) = 76 * k + 4 * c" by simp
  have lines: "(76 * k + 4 * c + 75) div 76 = (if c = 0 then k else Suc k)"
    using c(3) by (cases "c = 0") (auto simp: div_nat_eqI)
  define e where "e = wrapped_octets n trailing"
  have e: "e = 76 * k + 4 * c + 2 * (if trailing then if c = 0 then k else Suc k else (if c = 0 then k else Suc k) - 1)"
    unfolding e_def wrapped_octets_def chars lines Let_def by (rule refl)
  have "78 * k + 4 * c \<le> e + 2" "e \<le> 78 * k + 4 * c + 2" unfolding e by (auto split: if_splits)
  moreover have "decodedBase64Size e = (114 * e + 78) div 156"
    by (simp add: decodedBase64Size_def BASE64_LINE_CHARS_def CRLF_OCTETS_def BASE64_QUANTUM_CHARS_def BASE64_QUANTUM_BYTES_def round_div_def)
  moreover have "156 * ((114 * e + 78) div 156) \<le> 114 * e + 78" "114 * e + 78 < 156 * ((114 * e + 78) div 156) + 156"
    by (simp_all add: dividend_less_times_div)
  ultimately show ?thesis unfolding e_def [symmetric] using n c by linarith
qed

section \<open>Facts about file names\<close>

lemma free_number_free: "to_lower (numbered name (free_number name used n)) \<notin> set used"
  by (induction name used n rule: free_number.induct) (subst free_number.simps, simp)

lemma free_number_lower: "n \<le> free_number name used n"
proof (induction name used n rule: free_number.induct)
  case (1 name used n)
  then show ?case by (subst free_number.simps) (auto dest: Suc_leD)
qed

lemma free_number_taken: "n \<le> m \<Longrightarrow> m < free_number name used n \<Longrightarrow> to_lower (numbered name m) \<in> set used"
proof (induction name used n rule: free_number.induct)
  case (1 name used n)
  show ?case
  proof (cases "to_lower (numbered name n) \<in> set used")
    case True
    then have step: "free_number name used n = free_number name used (Suc n)" by (subst free_number.simps) simp
    show ?thesis
    proof (cases "m = n")
      case False
      with 1 step True show ?thesis by simp
    qed (use True in simp)
  next
    case False
    then have "free_number name used n = n" by (subst free_number.simps) simp
    with 1(2,3) show ?thesis by simp
  qed
qed

lemma free_number_bound: "free_number name used n \<le> n + length used"
proof -
  let ?M = "{n..<free_number name used n}"
  have inj: "inj_on (\<lambda>m. to_lower (numbered name m)) ?M" by (simp add: inj_on_def numbered_inject)
  have "(\<lambda>m. to_lower (numbered name m)) ` ?M \<subseteq> set used" using free_number_taken by auto
  then have "card ((\<lambda>m. to_lower (numbered name m)) ` ?M) \<le> length used"
    by (rule order_trans [OF card_mono [OF finite_set] card_length])
  then have "card ?M \<le> length used" using inj by (simp add: card_image)
  then show ?thesis by simp
qed

text \<open>
  The search for a free file name ends after at most as many tries as names are in use; the name it
  finds is not in use under any capitals, and is the wanted name or that name with a number before its
  extension.
\<close>

theorem free_name_found:
  "let r = fst (uniqueFilename name used) in
   to_lower r \<notin> set used \<and>
   (r = name \<or> (\<exists>n. 2 \<le> n \<and> n \<le> length used + 2 \<and> r = name_stem name @ ''-'' @ show_nat n @ name_ext name))"
proof (cases "to_lower name \<in> set used")
  case True
  let ?n = "free_number name used 2"
  have "?n \<le> length used + 2" using free_number_bound [of name used 2] by simp
  moreover have "2 \<le> ?n" by (rule free_number_lower)
  ultimately show ?thesis
    using True free_number_free [of name used 2] by (auto simp: uniqueFilename_def Let_def numbered_def intro!: exI [of _ ?n])
qed (simp add: uniqueFilename_def Let_def)

lemma written_names:
  "list_all (\<lambda>w. to_lower (fst (snd w)) \<notin> set used) (writeAttachmentParts E dir parts used) \<and>
   distinct (map (\<lambda>w. to_lower (fst (snd w))) (writeAttachmentParts E dir parts used))"
proof (induction parts arbitrary: used)
  case (Cons a parts)
  obtain name used' where u: "uniqueFilename (sanitizeAttachmentFilename (ap_filename a)) used = (name, used')" by fastforce
  have free: "to_lower name \<notin> set used" and used': "used' = to_lower name # used"
    using u free_number_free by (auto simp: uniqueFilename_def Let_def split: if_splits)
  from Cons [of used'] show ?case
    by (auto simp: u used' free list_all_iff Let_def split: option.split)
qed simp

text \<open>
  C24: saving the attachments of one message never writes two of them under one name, even on a disk that
  ignores case, and each file holds the octets of a part that carries the reported file name.
\<close>

theorem saved_files_distinct:
  "distinct (map (\<lambda>(sv, name, octets). to_lower name) (writeAttachmentParts E dir parts [])) \<and>
   list_all (\<lambda>(sv, name, octets). sv_localPath sv = join_path dir name \<and> sv_size sv = length octets \<and>
       list_ex (\<lambda>a. ap_filename a = sv_filename sv \<and> sa_download E (ap_part a) = Some octets) parts)
     (writeAttachmentParts E dir parts [])"
proof
  have "(\<lambda>(sv :: savedAttachment, name, octets :: nat list). to_lower name) = (\<lambda>w. to_lower (fst (snd w)))" by auto
  then show "distinct (map (\<lambda>(sv, name, octets). to_lower name) (writeAttachmentParts E dir parts []))"
    using written_names [of "[]" E dir parts] by simp
  have "list_all (\<lambda>(sv, name, octets). sv_localPath sv = join_path dir name \<and> sv_size sv = length octets \<and>
       list_ex (\<lambda>a. ap_filename a = sv_filename sv \<and> sa_download E (ap_part a) = Some octets) parts)
     (writeAttachmentParts E dir parts used)" for used
  proof (induction parts arbitrary: used)
    case (Cons a parts)
    obtain name used' where u: "uniqueFilename (sanitizeAttachmentFilename (ap_filename a)) used = (name, used')" by fastforce
    from Cons [of used'] show ?case
      by (auto simp: u list_all_iff Let_def split: option.split if_splits)
  qed simp
  then show "list_all (\<lambda>(sv, name, octets). sv_localPath sv = join_path dir name \<and> sv_size sv = length octets \<and>
       list_ex (\<lambda>a. ap_filename a = sv_filename sv \<and> sa_download E (ap_part a) = Some octets) parts)
     (writeAttachmentParts E dir parts [])" .
qed

text \<open>
  A numbered name is longer than the name it avoids by at least two bytes: for a second attachment whose
  sanitized name has the full 255 bytes it exceeds what a file system takes, and the write fails.
\<close>

lemma numbered_name_too_long: "byteLength name + 2 \<le> byteLength (numbered name n)"
proof -
  have "name_stem name @ name_ext name = name" by (simp add: name_stem_def name_ext_def split: option.split)
  then have "byteLength name = byteLength (name_stem name @ name_ext name)" by simp
  then have parts: "byteLength (name_stem name) + byteLength (name_ext name) = byteLength name" unfolding byteLength_def by simp
  have "byteLength s \<ge> length s" for s by (induction s) (auto simp: byteLength_def char_bytes_def)
  then have "byteLength (show_nat n) \<ge> 1" using show_nat_digits [of n] by (metis One_nat_def Suc_leI length_greater_0_conv order_trans)
  moreover have "byteLength (numbered name n) = byteLength (name_stem name) + 1 + byteLength (show_nat n) + byteLength (name_ext name)"
    by (simp add: numbered_def byteLength_def char_bytes_def)
  ultimately show ?thesis using parts by simp
qed

section \<open>Facts about part numbers\<close>

definition dotted :: "nat list \<Rightarrow> string" where
  "dotted pos = join_with ''.'' (map (\<lambda>i. show_nat (Suc i)) pos)"

fun node_at :: "mime_node \<Rightarrow> nat list \<Rightarrow> mime_node option" where
  "node_at bs [] = Some bs"
| "node_at bs (i # pos) = (if i < length (mn_childNodes bs) then node_at (mn_childNodes bs ! i) pos else None)"

text \<open>The server numbers no node, or numbers it as RFC 3501 does.\<close>

fun well_numbered :: "mime_node \<Rightarrow> string \<Rightarrow> bool"
and well_numbered_children :: "mime_node list \<Rightarrow> nat \<Rightarrow> string \<Rightarrow> bool" where
  "well_numbered (MimeNode t st d ps dps e sz p children) path \<longleftrightarrow>
     (p = None \<or> p = Some path) \<and> well_numbered_children children 0 path"
| "well_numbered_children [] i path \<longleftrightarrow> True"
| "well_numbered_children (c # cs) i path \<longleftrightarrow> well_numbered c (child_path path i) \<and> well_numbered_children cs (Suc i) path"

fun attachment_positions :: "mime_node \<Rightarrow> nat list \<Rightarrow> nat list list"
and child_positions :: "mime_node list \<Rightarrow> nat \<Rightarrow> nat list \<Rightarrow> nat list list" where
  "attachment_positions (MimeNode t st d ps dps e sz p children) pos =
     (if d = Some ''attachment'' then [pos] else []) @ child_positions children 0 pos"
| "child_positions [] i pos = []"
| "child_positions (c # cs) i pos = attachment_positions c (pos @ [i]) @ child_positions cs (Suc i) pos"

lemma show_nat_no_dot: "CHR ''.'' \<notin> set (show_nat n)"
  using show_nat_digits [of n] by (auto simp: list_all_iff is_digit_def char_less_eq_nat)

lemma dotted_parts: "pos \<noteq> [] \<Longrightarrow> split_on CHR ''.'' (dotted pos) = map (\<lambda>i. show_nat (Suc i)) pos"
proof (induction pos)
  case (Cons i pos)
  then show ?case
    by (cases pos) (simp_all add: dotted_def split_on_none show_nat_no_dot split_on_append)
qed simp

lemma dotted_Nil_iff [simp]: "dotted pos = [] \<longleftrightarrow> pos = []"
  using show_nat_digits by (cases pos rule: list.exhaust; cases "tl pos") (auto simp: dotted_def)

lemma dotted_inject: "dotted p = dotted q \<longleftrightarrow> p = q"
proof
  assume eq: "dotted p = dotted q"
  show "p = q"
  proof (cases "p = []")
    case True
    with eq show ?thesis by (metis dotted_Nil_iff)
  next
    case False
    with eq have "q \<noteq> []" by (metis dotted_Nil_iff)
    with False eq have "map (\<lambda>i. show_nat (Suc i)) p = map (\<lambda>i. show_nat (Suc i)) q" by (metis dotted_parts)
    moreover have "inj (\<lambda>i. show_nat (Suc i))" by (rule injI) (metis Suc_inject number_of_show_nat)
    ultimately show ?thesis by (simp add: inj_map_eq_map)
  qed
qed simp

lemma join_with_snoc: "xs \<noteq> [] \<Longrightarrow> join_with sep (xs @ [x]) = join_with sep xs @ sep @ x"
  by (induction sep xs rule: join_with.induct) auto

lemma dotted_snoc: "dotted (pos @ [i]) = child_path (dotted pos) i"
proof (cases "pos = []")
  case False
  then have "dotted pos \<noteq> []" by simp
  with False show ?thesis by (simp add: child_path_def) (simp add: dotted_def join_with_snoc)
qed (simp add: dotted_def child_path_def)

definition addressed :: "(nat list \<Rightarrow> mime_node option) \<Rightarrow> nat list \<Rightarrow> attachmentPart \<Rightarrow> bool" where
  "addressed node pos a \<longleftrightarrow>
     (\<exists>r n. node r = Some n \<and> mn_disposition n = Some ''attachment'' \<and> a = attachment_of n (dotted (pos @ r)))"

lemma attachment_part [simp]: "ap_part (attachment_of n path) = path"
  by (simp add: attachment_of_def)

lemma addressed_here: "mn_disposition bs = Some ''attachment'' \<Longrightarrow> addressed (node_at bs) pos (attachment_of bs (dotted pos))"
  by (auto simp: addressed_def intro!: exI [of _ "[]"])

lemma addressed_child:
  assumes "j < length (mn_childNodes bs)" "addressed (node_at (mn_childNodes bs ! j)) (pos @ [j]) a"
  shows "addressed (node_at bs) pos a"
proof -
  from assms(2) obtain r n where "node_at (mn_childNodes bs ! j) r = Some n" "mn_disposition n = Some ''attachment''"
    "a = attachment_of n (dotted (pos @ j # r))" by (auto simp: addressed_def)
  with assms(1) show ?thesis by (auto simp: addressed_def intro!: exI [of _ "j # r"])
qed

lemma parts_addressed:
  "well_numbered bs path \<Longrightarrow> path = dotted pos \<Longrightarrow> list_all (addressed (node_at bs) pos) (listAttachmentParts bs path)"
  "well_numbered_children cs i path \<Longrightarrow> path = dotted pos \<Longrightarrow>
    list_all (\<lambda>a. \<exists>j < length cs. addressed (node_at (cs ! j)) (pos @ [i + j]) a) (list_children cs i path)"
proof (induction bs path and cs i path arbitrary: pos and pos rule: well_numbered_well_numbered_children.induct)
  case (1 t st d ps dps e sz p children path)
  let ?bs = "MimeNode t st d ps dps e sz p children"
  from 1 have path: "(case p of Some q \<Rightarrow> q | None \<Rightarrow> path) = dotted pos" by auto
  have "list_all (\<lambda>a. \<exists>j < length children. addressed (node_at (children ! j)) (pos @ [0 + j]) a) (list_children children 0 (dotted pos))"
    using 1 by simp
  then have "list_all (addressed (node_at ?bs) pos) (list_children children 0 (dotted pos))"
    by (auto simp: list_all_iff intro: addressed_child [where bs = ?bs, simplified])
  then show ?case using addressed_here [of ?bs pos] by (simp add: path Let_def)
next
  case (3 c cs i path)
  have head: "list_all (addressed (node_at c) (pos @ [i])) (listAttachmentParts c (child_path path i))"
    by (rule 3(1)) (use 3 in \<open>simp_all add: dotted_snoc\<close>)
  have tail: "list_all (\<lambda>a. \<exists>j < length cs. addressed (node_at (cs ! j)) (pos @ [Suc i + j]) a) (list_children cs (Suc i) path)"
    using 3 by simp
  have "\<exists>j < length (c # cs). addressed (node_at ((c # cs) ! j)) (pos @ [i + j]) a" if "addressed (node_at c) (pos @ [i]) a" for a
    using that by (intro exI [of _ 0]) simp
  moreover have "\<exists>j < length (c # cs). addressed (node_at ((c # cs) ! j)) (pos @ [i + j]) a"
    if "\<exists>j < length cs. addressed (node_at (cs ! j)) (pos @ [Suc i + j]) a" for a
  proof -
    from that obtain j where "j < length cs" "addressed (node_at (cs ! j)) (pos @ [Suc i + j]) a" by blast
    then show ?thesis by (intro exI [of _ "Suc j"]) simp
  qed
  ultimately show ?case using head tail by (auto simp: list_all_iff)
qed simp

lemma parts_positions:
  "well_numbered bs path \<Longrightarrow> path = dotted pos \<Longrightarrow> map ap_part (listAttachmentParts bs path) = map dotted (attachment_positions bs pos)"
  "well_numbered_children cs i path \<Longrightarrow> path = dotted pos \<Longrightarrow>
    map ap_part (list_children cs i path) = map dotted (child_positions cs i pos)"
proof (induction bs path and cs i path arbitrary: pos and pos rule: well_numbered_well_numbered_children.induct)
  case (1 t st d ps dps e sz p children path)
  then show ?case by (cases p) (auto simp: Let_def)
next
  case (3 c cs i path)
  have "map ap_part (listAttachmentParts c (child_path path i)) = map dotted (attachment_positions c (pos @ [i]))"
    by (rule 3(1)) (use 3 in \<open>simp_all add: dotted_snoc\<close>)
  with 3 show ?case by simp
qed simp

lemma positions_below:
  "q \<in> set (attachment_positions bs pos) \<Longrightarrow> take (length pos) q = pos \<and> length pos \<le> length q"
  "q \<in> set (child_positions cs i pos) \<Longrightarrow> take (length pos) q = pos \<and> length pos < length q \<and> i \<le> q ! length pos"
proof (induction bs pos and cs i pos rule: attachment_positions_child_positions.induct)
  case (3 c cs i pos)
  then consider "take (Suc (length pos)) q = pos @ [i]" "Suc (length pos) \<le> length q"
    | "take (length pos) q = pos" "length pos < length q" "Suc i \<le> q ! length pos" by auto
  then show ?case
  proof cases
    case 1
    then have "q = pos @ i # drop (Suc (length pos)) q" by (metis append_Cons append_Nil append_assoc append_take_drop_id)
    then obtain r where "q = pos @ i # r" by blast
    then show ?thesis by simp
  qed simp
qed (auto split: if_splits)

lemma positions_distinct:
  "distinct (attachment_positions bs pos)" "distinct (child_positions cs i pos)"
proof (induction bs pos and cs i pos rule: attachment_positions_child_positions.induct)
  case (1 t st d ps dps e sz p children pos)
  then show ?case using positions_below(2) [of pos children 0 pos] by auto
next
  case (3 c cs i pos)
  have "q ! length pos = i" if "q \<in> set (attachment_positions c (pos @ [i]))" for q
    using positions_below(1) [OF that] by (metis append_take_drop_id length_append_singleton lessI nth_append nth_append_length)
  with 3 positions_below(2) [of _ cs "Suc i" pos] show ?case by fastforce
qed simp

text \<open>
  When the server leaves parts unnumbered or numbers them as the standard does, the part numbers of the
  attachments of a message are distinct, and each leads to the node it was taken from, so a download by
  part number fetches the attachment that was listed.
\<close>

theorem attachment_parts_addressed:
  assumes "well_numbered bs []"
  shows "distinct (map ap_part (listAttachmentParts bs [])) \<and>
    list_all (\<lambda>a. \<exists>pos n. ap_part a = dotted pos \<and> node_at bs pos = Some n \<and> mn_disposition n = Some ''attachment'' \<and>
        a = attachment_of n (ap_part a)) (listAttachmentParts bs [])"
proof
  have root: "[] = dotted []" by (simp add: dotted_def)
  have "map ap_part (listAttachmentParts bs []) = map dotted (attachment_positions bs [])" by (rule parts_positions(1) [OF assms root])
  moreover have "inj_on dotted (set (attachment_positions bs []))" by (simp add: inj_on_def dotted_inject)
  ultimately show "distinct (map ap_part (listAttachmentParts bs []))" using positions_distinct(1) [of bs "[]"] by (simp add: distinct_map)
  show "list_all (\<lambda>a. \<exists>pos n. ap_part a = dotted pos \<and> node_at bs pos = Some n \<and> mn_disposition n = Some ''attachment'' \<and>
        a = attachment_of n (ap_part a)) (listAttachmentParts bs [])"
    using parts_addressed(1) [OF assms root] unfolding list_all_iff addressed_def by (metis attachment_part append_Nil)
qed

definition leaf :: "string \<Rightarrow> string option \<Rightarrow> string option \<Rightarrow> mime_node" where
  "leaf t d p = MimeNode t [] d [] [(''filename'', ''a.pdf'')] (Some ''base64'') (Some 78) p []"

definition sample_mail :: mime_node where
  "sample_mail = MimeNode ''multipart/mixed'' [] None [] [] None None None
     [leaf ''text/plain'' None (Some ''1''),
      MimeNode ''multipart/related'' [] None [] [] None None (Some ''2'') [leaf ''application/pdf'' (Some ''attachment'') (Some ''2.1'')],
      leaf ''application/pdf'' (Some ''attachment'') (Some ''3'')]"

theorem attachment_parts_addressed_witness:
  "map ap_part (listAttachmentParts sample_mail []) = [''2.1'', ''3''] \<and> distinct (map ap_part (listAttachmentParts sample_mail []))"
proof
  show "map ap_part (listAttachmentParts sample_mail []) = [''2.1'', ''3'']" by code_simp
  have "well_numbered sample_mail []" by code_simp
  from attachment_parts_addressed [OF this] show "distinct (map ap_part (listAttachmentParts sample_mail []))" by blast
qed

text \<open>
  The root of a message that consists of one attachment has the empty part number, which the download and
  the save refuse, although its content is part 1 (as \<open>findCalendarParts\<close> knows).
\<close>

lemma single_part_attachment_unreachable:
  "map ap_part (listAttachmentParts (leaf ''application/pdf'' (Some ''attachment'') None) []) = [[]]"
  "writeAttachmentParts E dir (listAttachmentParts (leaf ''application/pdf'' (Some ''attachment'') None) []) [] = []"
  by (simp_all add: leaf_def Let_def split_beta)

end
