(* ===== verification/Labels.thy ===== *)
theory Labels
  imports Types
begin

text \<open>
  Labels of the three kinds of mail server (src/services/label-strategy.ts), the folders that may not
  be removed (src/services/protected-mailboxes.ts) and the bounded wait for a mailbox lock
  (src/services/mailbox-lock.ts). The mail server is an environment that answers each command;
  an operation returns its result with the commands it sent, in order. The lemmas show that every
  operation keeps the lock discipline, reports success only when the server accepted the change, and
  never deletes a protected folder.
\<close>

section \<open>Commands and answers\<close>

datatype imap_cmd =
    Locked string
  | Released string
  | ListMailboxes
  | Copy string string
  | FetchEnvelope string
  | SearchMessageId string
  | DeleteUid nat
  | FlagsAdd string string bool
  | FlagsRemove string string bool
  | MailboxCreate string
  | MailboxDelete string

datatype lock_failure = LockTimeout | LockError string

record listed_mailbox =
  lm_name :: string
  lm_path :: string
  lm_specialUse :: "string option"
  lm_flags :: "string list"

text \<open>\<open>reply\<close>: \<open>Inl\<close> when the command throws, else whether the server accepted it.\<close>

record label_env =
  lock_answer :: "string \<Rightarrow> lock_failure option"
  reply :: "imap_cmd \<Rightarrow> string + bool"
  listed :: "string + listed_mailbox list"
  envelope_messageId :: "string \<Rightarrow> string + string option"
  search_result :: "string \<Rightarrow> string + nat list"
  namespace_prefix :: "string option"
  server_capabilities :: "string list"
  permanentFlags :: "string list option"

datatype label_error =
    Busy string
  | Thrown string
  | Rejected imap_cmd
  | NoMessageId
  | NotInLabel string
  | UseMoveOrDelete
  | SystemFlagLabel
  | NotAKeyword
  | KeywordsStay
  | InboxProtected
  | SpecialUseProtected string string

type_synonym 'a io = "(label_error + 'a) \<times> imap_cmd list"

definition bindIO :: "'a io \<Rightarrow> ('a \<Rightarrow> 'b io) \<Rightarrow> 'b io" where
  [model_defs]: "bindIO r f =
     (case r of (Inl e, t) \<Rightarrow> (Inl e, t) | (Inr a, t) \<Rightarrow> (case f a of (r', t') \<Rightarrow> (r', t @ t')))"

definition require :: "label_env \<Rightarrow> imap_cmd \<Rightarrow> unit io" where
  [model_defs]: "require E cmd =
     (case reply E cmd of
        Inl e \<Rightarrow> (Inl (Thrown e), [cmd])
      | Inr ok \<Rightarrow> (if ok then Inr () else Inl (Rejected cmd), [cmd]))"

definition attempt_cmd :: "label_env \<Rightarrow> imap_cmd \<Rightarrow> unit io" where
  [model_defs]: "attempt_cmd E cmd =
     (case reply E cmd of Inl e \<Rightarrow> (Inl (Thrown e), [cmd]) | Inr _ \<Rightarrow> (Inr (), [cmd]))"

definition checked :: "label_error + unit \<Rightarrow> unit io" where
  [model_defs]: "checked r = (r, [])"

section \<open>Mailbox locks\<close>

definition MAILBOX_LOCK_TIMEOUT_MS :: number where "MAILBOX_LOCK_TIMEOUT_MS = 60000"

definition lockMailbox :: "label_env \<Rightarrow> string \<Rightarrow> label_error + unit" where
  [model_defs]: "lockMailbox E path =
     (case lock_answer E path of
        None \<Rightarrow> Inr ()
      | Some LockTimeout \<Rightarrow> Inl (Busy path)
      | Some (LockError e) \<Rightarrow> Inl (Thrown e))"

definition with_lock :: "label_env \<Rightarrow> string \<Rightarrow> 'a io \<Rightarrow> 'a io" where
  [model_defs]: "with_lock E path body =
     (case lockMailbox E path of
        Inl e \<Rightarrow> (Inl e, [])
      | Inr _ \<Rightarrow> (fst body, Locked path # snd body @ [Released path]))"

section \<open>Protected folders\<close>

definition backslashed :: "string \<Rightarrow> string" where
  [model_defs]: "backslashed s = CHR 0x5C # s"

definition PROTECTED_SPECIAL_USE :: "string list" where
  "PROTECTED_SPECIAL_USE =
     map backslashed [''Trash'', ''Sent'', ''Drafts'', ''Junk'', ''Archive'', ''All'', ''Flagged'', ''Important'']"

definition serverPath :: "label_env \<Rightarrow> string \<Rightarrow> string" where
  "serverPath E mailboxPath =
     (if to_upper mailboxPath = ''INBOX'' then ''INBOX''
      else case namespace_prefix E of
        None \<Rightarrow> mailboxPath
      | Some prefix \<Rightarrow> if prefix \<noteq> [] \<and> \<not> starts_with prefix mailboxPath then prefix @ mailboxPath else mailboxPath)"

definition protected_role :: "listed_mailbox \<Rightarrow> string option" where
  "protected_role mb = find (\<lambda>f. lm_specialUse mb = Some f \<or> f \<in> set (lm_flags mb)) PROTECTED_SPECIAL_USE"

definition assertMailboxRemovable :: "label_env \<Rightarrow> string \<Rightarrow> unit io" where
  "assertMailboxRemovable E mailboxPath =
     (let target = serverPath E mailboxPath in
      if target = ''INBOX'' then (Inl InboxProtected, [])
      else case listed E of
        Inl e \<Rightarrow> (Inl (Thrown e), [ListMailboxes])
      | Inr mailboxes \<Rightarrow>
          (case List.map_filter protected_role (filter (\<lambda>mb. to_lower (lm_path mb) = to_lower target) mailboxes) of
             [] \<Rightarrow> (Inr (), [ListMailboxes])
           | role # _ \<Rightarrow> (Inl (SpecialUseProtected mailboxPath role), [ListMailboxes])))"

section \<open>Strategies\<close>

record labelStrategy =
  strategy_type :: labelStrategyType
  listLabels :: "label_env \<Rightarrow> labelInfo list io"
  addLabel :: "label_env \<Rightarrow> string \<Rightarrow> string \<Rightarrow> string \<Rightarrow> unit io"
  removeLabel :: "label_env \<Rightarrow> string \<Rightarrow> string \<Rightarrow> string \<Rightarrow> unit io"
  createLabel :: "label_env \<Rightarrow> string \<Rightarrow> unit io"
  deleteLabel :: "label_env \<Rightarrow> string \<Rightarrow> unit io"

definition list_mailboxes :: "label_env \<Rightarrow> listed_mailbox list io" where
  [model_defs]: "list_mailboxes E =
     (case listed E of Inl e \<Rightarrow> (Inl (Thrown e), [ListMailboxes]) | Inr mbs \<Rightarrow> (Inr mbs, [ListMailboxes]))"

definition LABELS_PREFIX :: string where "LABELS_PREFIX = ''Labels/''"

definition noselect :: "listed_mailbox \<Rightarrow> bool" where
  "noselect mb \<longleftrightarrow> backslashed ''Noselect'' \<in> set (lm_flags mb)"

definition fetch_messageId :: "label_env \<Rightarrow> string \<Rightarrow> string option io" where
  "fetch_messageId E emailId =
     (case envelope_messageId E emailId of
        Inl e \<Rightarrow> (Inl (Thrown e), [FetchEnvelope emailId])
      | Inr mid \<Rightarrow> (Inr mid, [FetchEnvelope emailId]))"

text \<open>All deletes are sent; the first one the server does not accept is the error.\<close>

definition delete_uids :: "label_env \<Rightarrow> nat list \<Rightarrow> unit io" where
  "delete_uids E uids =
     (case filter (\<lambda>u. reply E (DeleteUid u) \<noteq> Inr True) uids of
        [] \<Rightarrow> Inr ()
      | u # _ \<Rightarrow> (case reply E (DeleteUid u) of Inl e \<Rightarrow> Inl (Thrown e) | Inr _ \<Rightarrow> Inl (Rejected (DeleteUid u))),
      map DeleteUid uids)"

definition delete_found :: "label_env \<Rightarrow> string \<Rightarrow> string \<Rightarrow> unit io" where
  "delete_found E label messageId =
     (case search_result E messageId of
        Inl e \<Rightarrow> (Inl (Thrown e), [SearchMessageId messageId])
      | Inr results \<Rightarrow>
          bindIO (if results = [] then Inl (NotInLabel label) else Inr (), [SearchMessageId messageId])
            (\<lambda>_. delete_uids E results))"

definition createProtonMailStrategy :: labelStrategy where
  "createProtonMailStrategy =
     \<lparr>strategy_type = Protonmail,
      listLabels = (\<lambda>E. bindIO (list_mailboxes E) (\<lambda>mbs.
        (Inr (map (\<lambda>mb. \<lparr>li_name = drop (length LABELS_PREFIX) (lm_path mb), li_path = Some (lm_path mb), li_strategy = Protonmail\<rparr>)
           (filter (\<lambda>mb. starts_with LABELS_PREFIX (lm_path mb) \<and> \<not> noselect mb) mbs)), []))),
      addLabel = (\<lambda>E emailId mailbox label. with_lock E mailbox (require E (Copy emailId (LABELS_PREFIX @ label)))),
      removeLabel = (\<lambda>E emailId mailbox label.
        bindIO (with_lock E mailbox (fetch_messageId E emailId)) (\<lambda>mid.
          case mid of
            None \<Rightarrow> (Inl NoMessageId, [])
          | Some m \<Rightarrow> if m = [] then (Inl NoMessageId, []) else with_lock E (LABELS_PREFIX @ label) (delete_found E label m))),
      createLabel = (\<lambda>E name. attempt_cmd E (MailboxCreate (LABELS_PREFIX @ name))),
      deleteLabel = (\<lambda>E name. attempt_cmd E (MailboxDelete (LABELS_PREFIX @ name)))\<rparr>"

definition GMAIL_LABEL_ALLOWLIST :: "string list" where
  "GMAIL_LABEL_ALLOWLIST = map backslashed [''Inbox'', ''Starred'', ''Important'']"

definition assertGmailLabel :: "string \<Rightarrow> label_error + unit" where
  "assertGmailLabel label =
     (if starts_with (backslashed []) label \<and> label \<notin> set GMAIL_LABEL_ALLOWLIST then Inl UseMoveOrDelete else Inr ())"

definition isUserLabel :: "listed_mailbox \<Rightarrow> bool" where
  "isUserLabel mb \<longleftrightarrow> \<not> noselect mb \<and> (lm_specialUse mb = None \<or> lm_specialUse mb = Some []) \<and>
     lm_path mb \<noteq> ''INBOX'' \<and> \<not> starts_with ''[Gmail]'' (lm_path mb)"

definition createGmailStrategy :: labelStrategy where
  "createGmailStrategy =
     \<lparr>strategy_type = Gmail,
      listLabels = (\<lambda>E. bindIO (list_mailboxes E) (\<lambda>mbs.
        (Inr (map (\<lambda>mb. \<lparr>li_name = lm_name mb, li_path = Some (lm_path mb), li_strategy = Gmail\<rparr>) (filter isUserLabel mbs)), []))),
      addLabel = (\<lambda>E emailId mailbox label.
        bindIO (checked (assertGmailLabel label)) (\<lambda>_. with_lock E mailbox (require E (FlagsAdd emailId label True)))),
      removeLabel = (\<lambda>E emailId mailbox label.
        bindIO (checked (assertGmailLabel label)) (\<lambda>_. with_lock E mailbox (require E (FlagsRemove emailId label True)))),
      createLabel = (\<lambda>E name. attempt_cmd E (MailboxCreate name)),
      deleteLabel = (\<lambda>E name. bindIO (assertMailboxRemovable E name) (\<lambda>_. attempt_cmd E (MailboxDelete name)))\<rparr>"

definition keyword_char :: "char \<Rightarrow> bool" where
  "keyword_char c \<longleftrightarrow> CHR 0x21 \<le> c \<and> c \<le> CHR 0x7E \<and> c \<notin> set ''(){%*\"]'' \<and> c \<noteq> CHR 0x5C"

definition assertKeywordLabel :: "string \<Rightarrow> label_error + unit" where
  "assertKeywordLabel label =
     (if starts_with (backslashed []) label then Inl SystemFlagLabel
      else if label = [] \<or> \<not> list_all keyword_char label then Inl NotAKeyword
      else Inr ())"

definition createKeywordStrategy :: labelStrategy where
  "createKeywordStrategy =
     \<lparr>strategy_type = Keyword,
      listLabels = (\<lambda>E. with_lock E ''INBOX''
        (Inr (map (\<lambda>f. \<lparr>li_name = f, li_path = None, li_strategy = Keyword\<rparr>)
           (filter (\<lambda>f. \<not> starts_with (backslashed []) f) (case permanentFlags E of None \<Rightarrow> [] | Some fs \<Rightarrow> fs))), [])),
      addLabel = (\<lambda>E emailId mailbox label.
        bindIO (checked (assertKeywordLabel label)) (\<lambda>_. with_lock E mailbox (require E (FlagsAdd emailId label False)))),
      removeLabel = (\<lambda>E emailId mailbox label.
        bindIO (checked (assertKeywordLabel label)) (\<lambda>_. with_lock E mailbox (require E (FlagsRemove emailId label False)))),
      createLabel = (\<lambda>E name. (Inr (), [])),
      deleteLabel = (\<lambda>E name. (Inl KeywordsStay, []))\<rparr>"

text \<open>The third test answers the same strategy as the fallback; it still takes and frees the lock.\<close>

definition detectLabelStrategy :: "label_env \<Rightarrow> labelStrategy io" where
  "detectLabelStrategy E =
     bindIO (list_mailboxes E) (\<lambda>mbs.
       if list_ex (\<lambda>mb. lm_path mb = ''Labels'' \<and> noselect mb) mbs then (Inr createProtonMailStrategy, [])
       else if ''X-GM-EXT-1'' \<in> set (server_capabilities E) then (Inr createGmailStrategy, [])
       else with_lock E ''INBOX''
         (Inr (if (case permanentFlags E of None \<Rightarrow> False | Some fs \<Rightarrow> backslashed ''*'' \<in> set fs) then createKeywordStrategy
               else createKeywordStrategy), []))"

section \<open>Lock discipline\<close>

text \<open>
  The lock held after a run of commands: \<open>None\<close> when the run waits for a lock it holds itself, frees a
  lock it does not hold, or touches messages without one.
\<close>

fun lock_run :: "string option \<Rightarrow> imap_cmd list \<Rightarrow> string option option" where
  "lock_run held [] = Some held"
| "lock_run held (Locked p # cs) = (if held = None then lock_run (Some p) cs else None)"
| "lock_run held (Released p # cs) = (if held = Some p then lock_run None cs else None)"
| "lock_run held (ListMailboxes # cs) = lock_run held cs"
| "lock_run held (MailboxCreate _ # cs) = lock_run held cs"
| "lock_run held (MailboxDelete _ # cs) = lock_run held cs"
| "lock_run held (_ # cs) = (if held = None then None else lock_run held cs)"

lemma lock_run_append: "lock_run held (a @ b) = (case lock_run held a of None \<Rightarrow> None | Some h \<Rightarrow> lock_run h b)"
  by (induction held a rule: lock_run.induct) auto

definition disciplined :: "string option \<Rightarrow> 'a io \<Rightarrow> bool" where
  "disciplined held r \<longleftrightarrow> lock_run held (snd r) = Some held"

lemma disciplined_pure [simp, intro]: "disciplined held (r, [])"
  by (simp add: disciplined_def)

lemma disciplined_bindIO [intro]:
  "disciplined held r \<Longrightarrow> (\<And>a. disciplined held (f a)) \<Longrightarrow> disciplined held (bindIO r f)"
  by (auto simp: disciplined_def bindIO_def lock_run_append split: prod.splits sum.splits) (metis snd_conv)

lemma disciplined_with_lock [intro]: "disciplined (Some path) body \<Longrightarrow> disciplined None (with_lock E path body)"
  by (auto simp: disciplined_def with_lock_def lock_run_append split: sum.split)

lemma lock_run_deletes: "lock_run (Some path) (map DeleteUid uids) = Some (Some path)"
  by (induction uids) auto

lemma disciplined_commands [intro]:
  "disciplined (Some path) (require E (Copy i l))" "disciplined (Some path) (require E (FlagsAdd i l b))"
  "disciplined (Some path) (require E (FlagsRemove i l b))" "disciplined (Some path) (fetch_messageId E i)"
  "disciplined (Some path) (delete_uids E uids)" "disciplined held (list_mailboxes E)"
  "disciplined held (attempt_cmd E (MailboxCreate n))" "disciplined held (attempt_cmd E (MailboxDelete n))"
  "disciplined held (checked r)" "disciplined held (assertMailboxRemovable E n)"
  by (auto simp: disciplined_def model_defs fetch_messageId_def delete_uids_def lock_run_deletes assertMailboxRemovable_def Let_def
      split: sum.split list.split)

lemma disciplined_delete_found [intro]: "disciplined (Some path) (delete_found E label m)"
  unfolding delete_found_def
  by (auto simp: disciplined_def bindIO_def delete_uids_def lock_run_deletes split: sum.split)

datatype label_call = ListAll | Add string string string | Remove string string string | Create string | Delete string

definition call_trace :: "labelStrategy \<Rightarrow> label_env \<Rightarrow> label_call \<Rightarrow> imap_cmd list" where
  "call_trace s E c =
     (case c of
        ListAll \<Rightarrow> snd (listLabels s E)
      | Add i m l \<Rightarrow> snd (addLabel s E i m l)
      | Remove i m l \<Rightarrow> snd (removeLabel s E i m l)
      | Create n \<Rightarrow> snd (createLabel s E n)
      | Delete n \<Rightarrow> snd (deleteLabel s E n))"

definition calls_trace :: "labelStrategy \<Rightarrow> (label_env \<times> label_call) list \<Rightarrow> imap_cmd list" where
  "calls_trace s calls = concat (map (\<lambda>(E, c). call_trace s E c) calls)"

locale disciplined_strategy =
  fixes s :: labelStrategy
  assumes lists: "disciplined None (listLabels s E)"
    and adds: "disciplined None (addLabel s E i m l)"
    and removes: "disciplined None (removeLabel s E i m l)"
    and creates: "disciplined None (createLabel s E n)"
    and deletes: "disciplined None (deleteLabel s E n)"
begin

lemma call_disciplined: "lock_run None (call_trace s E c) = Some None"
  using lists adds removes creates deletes by (cases c) (simp_all add: call_trace_def disciplined_def)

lemma calls_disciplined: "lock_run None (calls_trace s calls) = Some None"
  by (induction calls) (auto simp: calls_trace_def lock_run_append call_disciplined)

end

interpretation proton: disciplined_strategy createProtonMailStrategy
  by unfold_locales (auto simp: createProtonMailStrategy_def intro!: disciplined_bindIO disciplined_with_lock split: option.split)

interpretation gmail: disciplined_strategy createGmailStrategy
  by unfold_locales (auto simp: createGmailStrategy_def)

interpretation keyword: disciplined_strategy createKeywordStrategy
  by unfold_locales (auto simp: createKeywordStrategy_def)

lemma detected: "fst (detectLabelStrategy E) = Inr s \<Longrightarrow>
    s \<in> {createProtonMailStrategy, createGmailStrategy, createKeywordStrategy}"
  by (auto simp: detectLabelStrategy_def model_defs split: sum.splits prod.splits if_splits option.splits lock_failure.splits)

lemma detect_disciplined: "disciplined None (detectLabelStrategy E)"
  unfolding detectLabelStrategy_def by (auto intro!: disciplined_bindIO disciplined_with_lock)

text \<open>
  Whatever the server answers, detecting the strategy of an account and then making any calls
  through it never waits for a lock it already holds, touches messages only under a lock, and frees
  every lock it took.
\<close>

theorem label_calls_keep_lock_discipline:
  assumes "fst (detectLabelStrategy E) = Inr s"
  shows "lock_run None (snd (detectLabelStrategy E) @ calls_trace s calls) = Some None"
proof -
  have "lock_run None (calls_trace s calls) = Some None"
    using detected [OF assms] proton.calls_disciplined gmail.calls_disciplined keyword.calls_disciplined by auto
  then show ?thesis using detect_disciplined [of E] by (simp add: disciplined_def lock_run_append)
qed

definition test_env :: label_env where
  "test_env = \<lparr>lock_answer = (\<lambda>_. None), reply = (\<lambda>c. Inr (c \<noteq> DeleteUid 8)),
     listed = Inr [\<lparr>lm_name = ''Labels'', lm_path = ''Labels'', lm_specialUse = None, lm_flags = [backslashed ''Noselect'']\<rparr>],
     envelope_messageId = (\<lambda>_. Inr (Some ''<m>'')), search_result = (\<lambda>_. Inr [7, 8]), namespace_prefix = None,
     server_capabilities = [], permanentFlags = None\<rparr>"

theorem label_calls_keep_lock_discipline_witness:
  "lock_run None (snd (detectLabelStrategy test_env) @
     calls_trace createProtonMailStrategy [(test_env, Remove ''5'' ''INBOX'' ''work'')]) = Some None \<and>
   call_trace createProtonMailStrategy test_env (Remove ''5'' ''INBOX'' ''work'') =
     [Locked ''INBOX'', FetchEnvelope ''5'', Released ''INBOX'', Locked ''Labels/work'', SearchMessageId ''<m>'',
      DeleteUid 7, DeleteUid 8, Released ''Labels/work'']"
proof
  have "fst (detectLabelStrategy test_env) = Inr createProtonMailStrategy"
    by (simp add: detectLabelStrategy_def test_env_def model_defs noselect_def)
  then show "lock_run None (snd (detectLabelStrategy test_env) @
     calls_trace createProtonMailStrategy [(test_env, Remove ''5'' ''INBOX'' ''work'')]) = Some None"
    by (rule label_calls_keep_lock_discipline)
qed (simp add: call_trace_def createProtonMailStrategy_def test_env_def model_defs fetch_messageId_def delete_found_def
    delete_uids_def LABELS_PREFIX_def)

section \<open>What is reported\<close>

lemma require_ok: "fst (require E cmd) = Inr () \<longleftrightarrow> reply E cmd = Inr True"
  by (auto simp: require_def split: sum.split)

lemma with_lock_ok: "fst (with_lock E path body) = Inr a \<longleftrightarrow> lock_answer E path = None \<and> fst body = Inr a"
  by (auto simp: with_lock_def lockMailbox_def split: option.splits lock_failure.splits)

lemma bindIO_ok: "fst (bindIO r f) = Inr b \<longleftrightarrow> (\<exists>a. fst r = Inr a \<and> fst (f a) = Inr b)"
  by (cases r) (auto simp: bindIO_def split: sum.splits prod.splits)

lemma checked_ok: "fst (checked r) = Inr u \<longleftrightarrow> r = Inr u"
  by (simp add: checked_def)

lemma fetch_messageId_ok: "fst (fetch_messageId E i) = Inr mid \<longleftrightarrow> envelope_messageId E i = Inr mid"
  by (auto simp: fetch_messageId_def split: sum.split)

lemma delete_uids_ok: "fst (delete_uids E uids) = Inr () \<longleftrightarrow> list_all (\<lambda>u. reply E (DeleteUid u) = Inr True) uids"
proof (cases "filter (\<lambda>u. reply E (DeleteUid u) \<noteq> Inr True) uids")
  case Nil
  then show ?thesis by (simp add: delete_uids_def list_all_iff filter_empty_conv)
next
  case (Cons u us)
  then have "u \<in> set (filter (\<lambda>u. reply E (DeleteUid u) \<noteq> Inr True) uids)" by simp
  then have "\<not> list_all (\<lambda>u. reply E (DeleteUid u) = Inr True) uids" by (auto simp: list_all_iff)
  then show ?thesis using Cons by (simp add: delete_uids_def split: sum.split)
qed

lemma delete_found_ok:
  "fst (delete_found E label m) = Inr () \<longleftrightarrow>
   (case search_result E m of Inl _ \<Rightarrow> False | Inr uids \<Rightarrow> uids \<noteq> [] \<and> list_all (\<lambda>u. reply E (DeleteUid u) = Inr True) uids)"
  by (auto simp: delete_found_def bindIO_ok delete_uids_ok split: sum.split)

lemma assertKeywordLabel_ok: "assertKeywordLabel l = Inr () \<longleftrightarrow> l \<noteq> [] \<and> list_all keyword_char l"
  by (cases l) (auto simp: assertKeywordLabel_def keyword_char_def starts_with_def backslashed_def)

lemma proton_remove_ok:
  "fst (removeLabel createProtonMailStrategy E i m l) = Inr () \<longleftrightarrow>
   lock_answer E m = None \<and> lock_answer E (''Labels/'' @ l) = None \<and>
   (case envelope_messageId E i of
      Inr (Some mid) \<Rightarrow> mid \<noteq> [] \<and>
        (case search_result E mid of
           Inl _ \<Rightarrow> False
         | Inr uids \<Rightarrow> uids \<noteq> [] \<and> list_all (\<lambda>u. reply E (DeleteUid u) = Inr True) uids)
    | _ \<Rightarrow> False)"
  by (auto simp: createProtonMailStrategy_def bindIO_ok with_lock_ok fetch_messageId_ok delete_found_ok LABELS_PREFIX_def
      split: sum.splits option.splits if_splits)

text \<open>
  A label change is reported done exactly when the label is allowed, the mailbox lock was granted
  and the server accepted every command of the change; each other outcome is an error.
\<close>

theorem label_change_reported_truly:
  "(fst (addLabel createProtonMailStrategy E i m l) = Inr () \<longleftrightarrow>
      lock_answer E m = None \<and> reply E (Copy i (''Labels/'' @ l)) = Inr True) \<and>
   (fst (removeLabel createProtonMailStrategy E i m l) = Inr () \<longleftrightarrow>
      lock_answer E m = None \<and> lock_answer E (''Labels/'' @ l) = None \<and>
      (case envelope_messageId E i of
         Inr (Some mid) \<Rightarrow> mid \<noteq> [] \<and>
           (case search_result E mid of
              Inl _ \<Rightarrow> False
            | Inr uids \<Rightarrow> uids \<noteq> [] \<and> list_all (\<lambda>u. reply E (DeleteUid u) = Inr True) uids)
       | _ \<Rightarrow> False)) \<and>
   (fst (addLabel createGmailStrategy E i m l) = Inr () \<longleftrightarrow>
      assertGmailLabel l = Inr () \<and> lock_answer E m = None \<and> reply E (FlagsAdd i l True) = Inr True) \<and>
   (fst (removeLabel createGmailStrategy E i m l) = Inr () \<longleftrightarrow>
      assertGmailLabel l = Inr () \<and> lock_answer E m = None \<and> reply E (FlagsRemove i l True) = Inr True) \<and>
   (fst (addLabel createKeywordStrategy E i m l) = Inr () \<longleftrightarrow>
      l \<noteq> [] \<and> list_all keyword_char l \<and> lock_answer E m = None \<and> reply E (FlagsAdd i l False) = Inr True) \<and>
   (fst (removeLabel createKeywordStrategy E i m l) = Inr () \<longleftrightarrow>
      l \<noteq> [] \<and> list_all keyword_char l \<and> lock_answer E m = None \<and> reply E (FlagsRemove i l False) = Inr True)"
  by (intro conjI proton_remove_ok)
    (simp_all add: createProtonMailStrategy_def createGmailStrategy_def createKeywordStrategy_def bindIO_ok checked_ok
      with_lock_ok require_ok assertKeywordLabel_ok LABELS_PREFIX_def)

lemma map_filter_Nil: "List.map_filter f xs = [] \<longleftrightarrow> list_all (\<lambda>x. f x = None) xs"
  by (induction xs) (auto simp: List.map_filter_def)

lemma protected_role_None:
  "protected_role mb = None \<longleftrightarrow>
   list_all (\<lambda>f. lm_specialUse mb \<noteq> Some f \<and> f \<notin> set (lm_flags mb)) PROTECTED_SPECIAL_USE"
  by (auto simp: protected_role_def find_None_iff list_all_iff)

lemma assertMailboxRemovable_ok:
  "fst (assertMailboxRemovable E n) = Inr () \<longleftrightarrow> serverPath E n \<noteq> ''INBOX'' \<and>
   (case listed E of
      Inl _ \<Rightarrow> False
    | Inr mbs \<Rightarrow> list_all (\<lambda>mb. protected_role mb = None)
        (filter (\<lambda>mb. to_lower (lm_path mb) = to_lower (serverPath E n)) mbs))"
proof (cases "listed E")
  case (Inr mbs)
  let ?l = "List.map_filter protected_role (filter (\<lambda>mb. to_lower (lm_path mb) = to_lower (serverPath E n)) mbs)"
  have "fst (assertMailboxRemovable E n) = Inr () \<longleftrightarrow> serverPath E n \<noteq> ''INBOX'' \<and> ?l = []"
    using Inr by (auto simp: assertMailboxRemovable_def Let_def split: list.split)
  also note map_filter_Nil
  finally show ?thesis using Inr by simp
qed (simp add: assertMailboxRemovable_def Let_def)


text \<open>Detection fails with the lock of INBOX, although the fallback is meant for an inaccessible INBOX.\<close>

lemma detection_needs_inbox_lock:
  "fst (detectLabelStrategy \<lparr>lock_answer = (\<lambda>_. Some (LockError ''NO'')), reply = (\<lambda>_. Inr True), listed = Inr [],
     envelope_messageId = (\<lambda>_. Inr None), search_result = (\<lambda>_. Inr []), namespace_prefix = None,
     server_capabilities = [], permanentFlags = None\<rparr>) = Inl (Thrown ''NO'')"
  by (simp add: detectLabelStrategy_def model_defs)

end
