(* ===== verification/ImapCore.thy ===== *)
theory ImapCore
  imports MimeParts Labels Validation
begin

text \<open>
  What the mailbox operations of src/services/imap.service.ts share: the log of what a call did, the
  answers of the mail server, and sequencing with errors. The server is arbitrary: each answer is a
  function of the whole log up to the command it answers, so it may differ from one command to the next.
  An operation takes the log before it and gives its result with the log after it.
\<close>

section \<open>Events\<close>

text \<open>The criteria of a search, all of which must hold; a date is \<open>None\<close> when its text does not parse.\<close>

datatype criterion =
    EveryMessage
  | AnyText string
  | ToText string
  | FromText string
  | SubjectText string
  | SeenIs bool
  | FlaggedIs bool
  | AnsweredIs bool
  | LargerThan int
  | SmallerThan int
  | SinceDate "int option"
  | BeforeDate "int option"

datatype svc_event =
    Connect
  | LockTaken string bool
  | LockRefused string
  | LockFreed string
  | Listed "listed_mailbox list"
  | ListRefused
  | StatusOf string
  | MoveTo string string
  | DeleteMessages string
  | StoreFlags string "string list" bool
  | AppendTo string string "string list"
  | CreateFolder string
  | RenameFolder string string
  | DeleteFolder string
  | FetchStructure string
  | FetchHeaderBlock string
  | FetchSize string
  | FetchSource string
  | Download string string
  | SearchHeaderId string
  | AskQuota string
  | FetchMessage string
  | FetchRows "nat list"
  | FetchPartial string "nat list"
  | FetchStart string
  | SearchUids "criterion list"
  | SearchThread string

type_synonym svc_log = "svc_event list"
type_synonym octets = "nat list"

datatype svc_error =
    BadInput validation_error
  | NoConnection string
  | MailboxBusy string
  | ServerError string
  | VirtualFolder string string
  | ServerRejected svc_event
  | MessageNotFound string
  | ProtectedFolder label_error
  | AttachmentNotFound string
  | AttachmentAmbiguous string nat
  | AttachmentTooLarge string nat
  | NoMimePart string
  | AttachmentDownloadFailed string
  | SourceNotFetched string
  | MessageTooLarge nat
  | NoMessageIdHeader
  | AttachmentsRefused string
  | ComposeFailed string

section \<open>The server\<close>

text \<open>
  What a fetch returns of a message. The date of an envelope is the instant \<open>Date\<close> reads it as, \<open>None\<close> when
  it is missing or does not parse.
\<close>

record imapAddress =
  ia_name :: "string option"
  ia_address :: "string option"

record imapEnvelope =
  ev_date :: "int option"
  ev_subject :: "string option"
  ev_from :: "imapAddress list option"
  ev_to :: "imapAddress list option"
  ev_cc :: "imapAddress list option"
  ev_bcc :: "imapAddress list option"
  ev_messageId :: "string option"
  ev_inReplyTo :: "string option"

record fetchedMessage =
  fx_uid :: nat
  fx_envelope :: "imapEnvelope option"
  fx_flags :: "string list"
  fx_structure :: "mime_node option"
  fx_headers :: "string option"
  fx_source :: "string option"

text \<open>
  \<open>Inl\<close> is a command that throws. \<open>sv_accepts\<close> is the boolean imapflow answers to a change, \<open>sv_part\<close> the
  content of a downloaded part, \<open>sv_size\<close> the size a message claims with its date as ISO text.
\<close>

record svc_env =
  sv_connect :: "svc_log \<Rightarrow> string option"
  sv_lock :: "svc_log \<Rightarrow> string \<Rightarrow> bool \<Rightarrow> lock_failure option"
  sv_list :: "svc_log \<Rightarrow> string + listed_mailbox list"
  sv_status :: "svc_log \<Rightarrow> string + (nat option \<times> nat option) option"
  sv_accepts :: "svc_log \<Rightarrow> string + bool"
  sv_append :: "svc_log \<Rightarrow> string + nat option"
  sv_structure :: "svc_log \<Rightarrow> string + mime_node option"
  sv_headers :: "svc_log \<Rightarrow> string + string option"
  sv_size :: "svc_log \<Rightarrow> string + (nat option \<times> string option) option"
  sv_source :: "svc_log \<Rightarrow> string + octets option"
  sv_part :: "svc_log \<Rightarrow> string + octets option"
  sv_search :: "svc_log \<Rightarrow> string + nat list option"
  sv_quota :: "svc_log \<Rightarrow> string + (nat option \<times> nat option) option"
  sv_message :: "svc_log \<Rightarrow> string + fetchedMessage option"
  sv_rows :: "svc_log \<Rightarrow> string + fetchedMessage list"
  sv_partial :: "svc_log \<Rightarrow> string + (nat \<times> octets option) list"
  sv_prefix :: "string option"

section \<open>Sequencing\<close>

type_synonym 'a svc = "svc_log \<Rightarrow> (svc_error + 'a) \<times> svc_log"

named_theorems svc_defs \<open>combinators of the mailbox operations\<close>

definition okS :: "'a \<Rightarrow> 'a svc" where [svc_defs]: "okS a h = (Inr a, h)"
definition failS :: "svc_error \<Rightarrow> 'a svc" where [svc_defs]: "failS e h = (Inl e, h)"

definition bindS :: "'a svc \<Rightarrow> ('a \<Rightarrow> 'b svc) \<Rightarrow> 'b svc" where
  [svc_defs]: "bindS m f h = (case m h of (Inl e, h') \<Rightarrow> (Inl e, h') | (Inr a, h') \<Rightarrow> f a h')"

definition checkS :: "validation_error + 'a \<Rightarrow> 'a svc" where
  [svc_defs]: "checkS r = (case r of Inl e \<Rightarrow> failS (BadInput e) | Inr a \<Rightarrow> okS a)"

definition ensureS :: "bool \<Rightarrow> svc_error \<Rightarrow> unit svc" where
  [svc_defs]: "ensureS b e = (if b then okS () else failS e)"

text \<open>One command: it is logged, then answered.\<close>

definition askS :: "(svc_log \<Rightarrow> string + 'a) \<Rightarrow> svc_event \<Rightarrow> 'a svc" where
  [svc_defs]: "askS answer cmd h =
     (case answer (h @ [cmd]) of Inl e \<Rightarrow> (Inl (ServerError e), h @ [cmd]) | Inr a \<Rightarrow> (Inr a, h @ [cmd]))"

text \<open>\<open>try\<close> with a \<open>catch\<close> that turns the error into a value.\<close>

definition attemptS :: "'a svc \<Rightarrow> (svc_error + 'a) svc" where
  [svc_defs]: "attemptS m h = (case m h of (r, h') \<Rightarrow> (Inr r, h'))"

definition connectS :: "svc_env \<Rightarrow> unit svc" where
  [svc_defs]: "connectS E h =
     (case sv_connect E (h @ [Connect]) of None \<Rightarrow> (Inr (), h @ [Connect]) | Some e \<Rightarrow> (Inl (NoConnection e), h @ [Connect]))"

definition listS :: "svc_env \<Rightarrow> listed_mailbox list svc" where
  [svc_defs]: "listS E h =
     (case sv_list E h of Inl e \<Rightarrow> (Inl (ServerError e), h @ [ListRefused]) | Inr mbs \<Rightarrow> (Inr mbs, h @ [Listed mbs]))"

text \<open>A mailbox lock around \<open>try { body } finally { release }\<close>.\<close>

definition withMailbox :: "svc_env \<Rightarrow> string \<Rightarrow> bool \<Rightarrow> 'a svc \<Rightarrow> 'a svc" where
  [svc_defs]: "withMailbox E path readOnly body h =
     (case sv_lock E h path readOnly of
        Some LockTimeout \<Rightarrow> (Inl (MailboxBusy path), h @ [LockRefused path])
      | Some (LockError e) \<Rightarrow> (Inl (ServerError e), h @ [LockRefused path])
      | None \<Rightarrow> (case body (h @ [LockTaken path readOnly]) of (r, h') \<Rightarrow> (r, h' @ [LockFreed path])))"

text \<open>\<open>for\<close> over a list, each step after the other.\<close>

fun eachS :: "('a \<Rightarrow> 'b svc) \<Rightarrow> 'a list \<Rightarrow> 'b list svc" where
  "eachS f [] = okS []"
| "eachS f (x # xs) = bindS (f x) (\<lambda>y. bindS (eachS f xs) (\<lambda>ys. okS (y # ys)))"

section \<open>Virtual folders\<close>

definition VIRTUAL_SPECIAL_USE :: "string list" where
  "VIRTUAL_SPECIAL_USE = map backslashed [''All'', ''Flagged'']"

definition virtual_flag_of :: "listed_mailbox \<Rightarrow> string option" where
  "virtual_flag_of mb = find (\<lambda>f. lm_specialUse mb = Some f \<or> f \<in> set (lm_flags mb)) VIRTUAL_SPECIAL_USE"

text \<open>The virtual flag of the folder with this path; a folder that is not listed has none.\<close>

definition virtual_flag :: "listed_mailbox list \<Rightarrow> string \<Rightarrow> string option" where
  "virtual_flag mailboxes path =
     (case find (\<lambda>m. lm_path m = path) mailboxes of None \<Rightarrow> None | Some mb \<Rightarrow> virtual_flag_of mb)"

definition assertRealMailbox :: "svc_env \<Rightarrow> string \<Rightarrow> unit svc" where
  "assertRealMailbox E path =
     bindS (listS E) (\<lambda>mailboxes.
       case virtual_flag mailboxes path of None \<Rightarrow> okS () | Some f \<Rightarrow> failS (VirtualFolder path f))"

section \<open>What a log must satisfy\<close>

text \<open>
  The state after a log: the lock held, and the listings of the folders since the last call began. A log
  is refused (\<open>None\<close>) when it takes a lock while holding one, frees one it does not hold, works on folders
  or connects while it holds one, reads a message without a lock, changes messages without a writable
  lock, or moves messages out of a folder that no listing of the same call shows as a real folder.
\<close>

record log_state =
  ls_held :: "(string \<times> bool) option"
  ls_listings :: "listed_mailbox list list"

definition reads_message :: "svc_event \<Rightarrow> bool" where
  "reads_message e = (case e of FetchStructure _ \<Rightarrow> True | FetchHeaderBlock _ \<Rightarrow> True | FetchSize _ \<Rightarrow> True
     | FetchSource _ \<Rightarrow> True | Download _ _ \<Rightarrow> True | SearchHeaderId _ \<Rightarrow> True
     | FetchMessage _ \<Rightarrow> True | FetchRows _ \<Rightarrow> True | FetchPartial _ _ \<Rightarrow> True | FetchStart _ \<Rightarrow> True | SearchUids _ \<Rightarrow> True
     | SearchThread _ \<Rightarrow> True | _ \<Rightarrow> False)"

definition changes_message :: "svc_event \<Rightarrow> bool" where
  "changes_message e = (case e of DeleteMessages _ \<Rightarrow> True | StoreFlags _ _ _ \<Rightarrow> True | _ \<Rightarrow> False)"

definition log_step :: "svc_event \<Rightarrow> log_state \<Rightarrow> log_state option" where
  "log_step e s =
     (case e of
        LockTaken p ro \<Rightarrow> if ls_held s = None then Some (s\<lparr>ls_held := Some (p, ro)\<rparr>) else None
      | LockFreed p \<Rightarrow> if map_option fst (ls_held s) = Some p then Some (s\<lparr>ls_held := None\<rparr>) else None
      | Listed mbs \<Rightarrow> if ls_held s = None then Some (s\<lparr>ls_listings := mbs # ls_listings s\<rparr>) else None
      | Connect \<Rightarrow> if ls_held s = None then Some (s\<lparr>ls_listings := []\<rparr>) else None
      | MoveTo _ _ \<Rightarrow>
          (case ls_held s of
             Some (p, False) \<Rightarrow> if list_ex (\<lambda>mbs. virtual_flag mbs p = None) (ls_listings s) then Some s else None
           | _ \<Rightarrow> None)
      | _ \<Rightarrow>
        if reads_message e then (if ls_held s \<noteq> None then Some s else None)
        else if changes_message e then (if map_option snd (ls_held s) = Some False then Some s else None)
        else if ls_held s = None then Some s else None)"

fun log_run :: "svc_log \<Rightarrow> log_state \<Rightarrow> log_state option" where
  "log_run [] s = Some s"
| "log_run (e # es) s = (case log_step e s of None \<Rightarrow> None | Some s' \<Rightarrow> log_run es s')"

definition fresh_log :: log_state where "fresh_log = \<lparr>ls_held = None, ls_listings = []\<rparr>"

lemma log_run_append: "log_run (a @ b) s = (case log_run a s of None \<Rightarrow> None | Some s' \<Rightarrow> log_run b s')"
  by (induction a arbitrary: s) (auto split: option.split)

text \<open>An operation keeps the discipline when it ends with the lock it began with, whatever the answers are.\<close>

definition keeps :: "(string \<times> bool) option \<Rightarrow> 'a svc \<Rightarrow> bool" where
  "keeps held m \<longleftrightarrow> (\<forall>h s. log_run h fresh_log = Some s \<longrightarrow> ls_held s = held \<longrightarrow>
     (\<exists>s'. log_run (snd (m h)) fresh_log = Some s' \<and> ls_held s' = held))"

lemma keepsI: "(\<And>h s. log_run h fresh_log = Some s \<Longrightarrow> ls_held s = held \<Longrightarrow>
    \<exists>s'. log_run (snd (m h)) fresh_log = Some s' \<and> ls_held s' = held) \<Longrightarrow> keeps held m"
  by (auto simp: keeps_def)

lemma keepsE: "keeps held m \<Longrightarrow> log_run h fresh_log = Some s \<Longrightarrow> ls_held s = held \<Longrightarrow>
    (\<And>s'. log_run (snd (m h)) fresh_log = Some s' \<Longrightarrow> ls_held s' = held \<Longrightarrow> P) \<Longrightarrow> P"
  by (auto simp: keeps_def)

lemma keeps_okS [intro!, simp]: "keeps held (okS a)" by (auto simp: keeps_def okS_def)
lemma keeps_failS [intro!, simp]: "keeps held (failS e)" by (auto simp: keeps_def failS_def)
lemma keeps_checkS [intro!, simp]: "keeps held (checkS r)" by (auto simp: checkS_def split: sum.split)
lemma keeps_ensureS [intro!, simp]: "keeps held (ensureS b e)" by (auto simp: ensureS_def)

lemma keeps_bindS [intro]: "keeps held m \<Longrightarrow> (\<And>a. keeps held (f a)) \<Longrightarrow> keeps held (bindS m f)"
proof (rule keepsI)
  fix h s
  assume m: "keeps held m" and f: "\<And>a. keeps held (f a)" and s: "log_run h fresh_log = Some s" "ls_held s = held"
  obtain s' where s': "log_run (snd (m h)) fresh_log = Some s'" "ls_held s' = held" by (rule keepsE [OF m s])
  show "\<exists>s'. log_run (snd (bindS m f h)) fresh_log = Some s' \<and> ls_held s' = held"
  proof (cases "m h")
    case (Pair r h')
    then show ?thesis using s' f by (cases r) (auto simp: bindS_def elim: keepsE)
  qed
qed

lemma keeps_attemptS [intro]: "keeps held m \<Longrightarrow> keeps held (attemptS m)"
  by (auto simp: keeps_def attemptS_def split: prod.split) (metis snd_conv)

lemma keeps_askS_reading [intro]: "reads_message c \<Longrightarrow> keeps (Some l) (askS answer c)"
  by (cases l) (auto simp: keeps_def askS_def log_run_append log_step_def reads_message_def split: sum.split svc_event.splits)

lemma keeps_askS_changing [intro]: "changes_message c \<Longrightarrow> keeps (Some (p, False)) (askS answer c)"
  by (auto simp: keeps_def askS_def log_run_append log_step_def reads_message_def changes_message_def
      split: sum.split svc_event.splits)

definition folder_command :: "svc_event \<Rightarrow> bool" where
  "folder_command e = (case e of StatusOf _ \<Rightarrow> True | AppendTo _ _ _ \<Rightarrow> True | CreateFolder _ \<Rightarrow> True
     | RenameFolder _ _ \<Rightarrow> True | DeleteFolder _ \<Rightarrow> True | AskQuota _ \<Rightarrow> True | _ \<Rightarrow> False)"

lemma keeps_askS_folder [intro]: "folder_command c \<Longrightarrow> keeps None (askS answer c)"
  by (auto simp: keeps_def askS_def log_run_append log_step_def folder_command_def reads_message_def changes_message_def
      split: sum.split svc_event.splits)

lemma keeps_connectS [intro!, simp]: "keeps None (connectS E)"
  by (auto simp: keeps_def connectS_def log_run_append log_step_def reads_message_def changes_message_def split: option.split)

lemma keeps_listS [intro!, simp]: "keeps None (listS E)"
  by (auto simp: keeps_def listS_def log_run_append log_step_def reads_message_def changes_message_def split: sum.split)

lemma keeps_withMailbox [intro]: "keeps (Some (path, ro)) body \<Longrightarrow> keeps None (withMailbox E path ro body)"
proof (rule keepsI)
  fix h s
  assume body: "keeps (Some (path, ro)) body" and s: "log_run h fresh_log = Some s" "ls_held s = None"
  show "\<exists>s'. log_run (snd (withMailbox E path ro body h)) fresh_log = Some s' \<and> ls_held s' = None"
  proof (cases "sv_lock E h path ro")
    case None
    have "log_run (h @ [LockTaken path ro]) fresh_log = Some (s\<lparr>ls_held := Some (path, ro)\<rparr>)"
      using s by (simp add: log_run_append log_step_def)
    then obtain s' where "log_run (snd (body (h @ [LockTaken path ro]))) fresh_log = Some s'" "ls_held s' = Some (path, ro)"
      by (rule keepsE [OF body]) simp_all
    then show ?thesis using None by (auto simp: withMailbox_def log_run_append log_step_def split: prod.split)
  next
    case (Some f)
    then show ?thesis using s
      by (cases f) (auto simp: withMailbox_def log_run_append log_step_def reads_message_def changes_message_def)
  qed
qed

text \<open>A move after the check of its folder; another listing may come between the two.\<close>

lemma keeps_checked_move:
  assumes m: "\<And>a. keeps None (m a)"
    and listings: "\<And>a h s s'. log_run h fresh_log = Some s \<Longrightarrow> log_run (snd (m a h)) fresh_log = Some s' \<Longrightarrow>
      set (ls_listings s) \<subseteq> set (ls_listings s')"
    and body: "\<And>a b h. \<exists>r d. snd (body a b h) = h @ [MoveTo r d]"
  shows "keeps None (bindS (assertRealMailbox E path) (\<lambda>a. bindS (m a) (\<lambda>b. withMailbox E path False (body a b))))"
proof (rule keepsI)
  fix h s
  assume s: "log_run h fresh_log = Some s" "ls_held s = None"
  let ?op = "bindS (assertRealMailbox E path) (\<lambda>a. bindS (m a) (\<lambda>b. withMailbox E path False (body a b)))"
  show "\<exists>s'. log_run (snd (?op h)) fresh_log = Some s' \<and> ls_held s' = None"
  proof (cases "assertRealMailbox E path h")
    case (Pair r h1)
    show ?thesis
    proof (cases r)
      case (Inl e)
      have "keeps None (assertRealMailbox E path)"
        unfolding assertRealMailbox_def by (auto split: option.split)
      then show ?thesis using s Pair Inl by (auto simp: bindS_def elim: keepsE)
    next
      case (Inr a)
      obtain mbs where h1: "h1 = h @ [Listed mbs]" "virtual_flag mbs path = None"
        using Pair Inr by (auto simp: assertRealMailbox_def svc_defs split: sum.splits option.splits)
      let ?s1 = "s\<lparr>ls_listings := mbs # ls_listings s\<rparr>"
      have s1: "log_run h1 fresh_log = Some ?s1" using s h1 by (simp add: log_run_append log_step_def)
      obtain r2 h2 where m2: "m a h1 = (r2, h2)" by (cases "m a h1")
      have "ls_held ?s1 = None" using s by simp
      then obtain s2 where s2: "log_run h2 fresh_log = Some s2" "ls_held s2 = None"
        by (rule keepsE [OF m [of a] s1]) (use m2 in simp_all)
      have real: "list_ex (\<lambda>mbs. virtual_flag mbs path = None) (ls_listings s2)"
        using listings [OF s1, of a s2] s2 m2 h1 by (auto simp: list_ex_iff)
      show ?thesis
      proof (cases r2)
        case (Inl e)
        then show ?thesis using Pair Inr m2 s2 by (simp add: bindS_def)
      next
        case R: (Inr b)
        let ?h3 = "h2 @ [LockTaken path False]"
        obtain x d where "snd (body a b ?h3) = ?h3 @ [MoveTo x d]" using body by blast
        then show ?thesis using Pair Inr m2 R s2 real
          by (auto simp: bindS_def withMailbox_def log_run_append log_step_def reads_message_def changes_message_def all_bool_eq
              split: option.split lock_failure.split prod.split bool.split)
      qed
    qed
  qed
qed

lemma keeps_eachS [intro]: "(\<And>x. keeps held (f x)) \<Longrightarrow> keeps held (eachS f xs)"
  by (induction xs) auto

lemma events_simps [simp]:
  "reads_message (FetchStructure i)" "reads_message (FetchHeaderBlock i)" "reads_message (FetchSize i)"
  "reads_message (FetchMessage i)" "reads_message (FetchRows us)" "reads_message (FetchPartial s us)" "reads_message (FetchStart i)"
  "reads_message (SearchUids cr)" "reads_message (SearchThread i)"
  "reads_message (FetchSource i)" "reads_message (Download i p)" "reads_message (SearchHeaderId i)"
  "changes_message (DeleteMessages i)" "changes_message (StoreFlags i fs b)"
  "folder_command (StatusOf p)" "folder_command (AppendTo p m fs)" "folder_command (CreateFolder p)"
  "folder_command (RenameFolder p q)" "folder_command (DeleteFolder p)" "folder_command (AskQuota p)"
  by (simp_all add: reads_message_def changes_message_def folder_command_def)

lemma keeps_events [simp]:
  "keeps (Some l) (askS a1 (FetchStructure i))" "keeps (Some l) (askS a2 (FetchHeaderBlock i))" "keeps (Some l) (askS a3 (FetchSize i))"
  "keeps (Some l) (askS a4 (FetchSource i))" "keeps (Some l) (askS a5 (Download i p))" "keeps (Some l) (askS a6 (SearchHeaderId i))"
  "keeps (Some (q, False)) (askS a7 (DeleteMessages i))" "keeps (Some (q, False)) (askS a8 (StoreFlags i fs b))"
  "keeps (Some l) (askS c1 (FetchMessage i))" "keeps (Some l) (askS c2 (FetchRows us))" "keeps (Some l) (askS c3 (FetchPartial s us))"
  "keeps (Some l) (askS c4 (FetchStart i))" "keeps (Some l) (askS c5 (SearchUids cr))" "keeps (Some l) (askS c6 (SearchThread i))"
  "keeps None (askS a9 (StatusOf p))" "keeps None (askS b1 (AppendTo p m fs))" "keeps None (askS b2 (CreateFolder p))"
  "keeps None (askS b3 (RenameFolder p q))" "keeps None (askS b4 (DeleteFolder p))" "keeps None (askS b5 (AskQuota p))"
  by (auto intro: keeps_askS_reading keeps_askS_changing keeps_askS_folder)

lemma bindS_ok [simp]: "bindS (okS a) f = f a" by (intro ext) (simp add: bindS_def okS_def)
lemma bindS_fail [simp]: "bindS (failS e) f = failS e" by (intro ext) (simp add: bindS_def failS_def)

end
