(* ===== verification/ImapOps.thy ===== *)
theory ImapOps
  imports ImapCore
begin

text \<open>
  The operations of src/services/imap.service.ts that change mail or folders, and those that list
  folders: moves, deletions, flags, bulk actions, drafts, the copy of sent mail, folder creation, renaming
  and deletion, the search for the folder of a message, the folder list and the quota.
\<close>

section \<open>Commands\<close>

definition requireS :: "svc_env \<Rightarrow> svc_event \<Rightarrow> unit svc" where
  [svc_defs]: "requireS E cmd = bindS (askS (sv_accepts E) cmd) (\<lambda>ok. ensureS ok (ServerRejected cmd))"

definition commandS :: "svc_env \<Rightarrow> svc_event \<Rightarrow> unit svc" where
  [svc_defs]: "commandS E cmd = bindS (askS (sv_accepts E) cmd) (\<lambda>_. okS ())"

definition js_int :: "int \<Rightarrow> string" where
  "js_int n = (if n < 0 then ''-'' @ show_nat (nat (- n)) else show_nat (nat n))"

fun parse_ids :: "int list \<Rightarrow> validation_error + string list" where
  "parse_ids [] = Inr []"
| "parse_ids (i # is) = bindE (parseMessageUid (js_int i)) (\<lambda>u. bindE (parse_ids is) (\<lambda>us. Inr (u # us)))"

definition bulkUidSet :: "int list \<Rightarrow> validation_error + string" where
  "bulkUidSet ids = bindE (parse_ids ids) (\<lambda>us. Inr (join_with '','' us))"

section \<open>Moving and deleting\<close>

definition moveEmail :: "svc_env \<Rightarrow> string \<Rightarrow> string \<Rightarrow> string \<Rightarrow> unit svc" where
  "moveEmail E emailId sourceMailbox destinationMailbox =
     bindS (checkS (parseMessageUid emailId)) (\<lambda>uid.
     bindS (checkS (sanitizeMailboxName sourceMailbox)) (\<lambda>source.
     bindS (checkS (sanitizeMailboxName destinationMailbox)) (\<lambda>dest.
     bindS (connectS E) (\<lambda>_.
     bindS (assertRealMailbox E source) (\<lambda>_.
       withMailbox E source False (requireS E (MoveTo uid dest)))))))"

definition special_path :: "string \<Rightarrow> listed_mailbox list \<Rightarrow> string" where
  "special_path role mailboxes =
     (case find (\<lambda>mb. lm_specialUse mb = Some (backslashed role)) mailboxes of None \<Rightarrow> role | Some mb \<Rightarrow> lm_path mb)"

definition deleteEmail :: "svc_env \<Rightarrow> string \<Rightarrow> string \<Rightarrow> bool \<Rightarrow> unit svc" where
  "deleteEmail E emailId mailbox permanent =
     bindS (checkS (parseMessageUid emailId)) (\<lambda>uid.
     bindS (checkS (sanitizeMailboxName mailbox)) (\<lambda>path.
     bindS (connectS E) (\<lambda>_.
       if permanent then withMailbox E path False (requireS E (DeleteMessages uid))
       else bindS (assertRealMailbox E path) (\<lambda>_.
         bindS (listS E) (\<lambda>mailboxes.
           withMailbox E path False (requireS E (MoveTo uid (special_path ''Trash'' mailboxes))))))))"

section \<open>Flags\<close>

datatype flagAction = MarkRead | MarkUnread | AddFlag | RemoveFlag

definition flagChange :: "flagAction \<Rightarrow> string list \<times> bool" where
  "flagChange a =
     (case a of MarkRead \<Rightarrow> ([backslashed ''Seen''], True) | MarkUnread \<Rightarrow> ([backslashed ''Seen''], False)
      | AddFlag \<Rightarrow> ([backslashed ''Flagged''], True) | RemoveFlag \<Rightarrow> ([backslashed ''Flagged''], False))"

definition setFlags :: "svc_env \<Rightarrow> string \<Rightarrow> string \<Rightarrow> flagAction \<Rightarrow> unit svc" where
  "setFlags E emailId mailbox action =
     bindS (checkS (parseMessageUid emailId)) (\<lambda>uid.
     bindS (checkS (sanitizeMailboxName mailbox)) (\<lambda>path.
     bindS (connectS E) (\<lambda>_.
       case flagChange action of (flags, add) \<Rightarrow> withMailbox E path False (requireS E (StoreFlags uid flags add)))))"

section \<open>Bulk actions\<close>

record bulkResult =
  br_total :: nat
  br_succeeded :: nat
  br_failed :: nat
  br_errors :: "svc_error list option"

definition bulk_result :: "int list \<Rightarrow> svc_error + unit \<Rightarrow> bulkResult" where
  "bulk_result ids r =
     (case r of
        Inr _ \<Rightarrow> \<lparr>br_total = length ids, br_succeeded = length ids, br_failed = 0, br_errors = None\<rparr>
      | Inl e \<Rightarrow> \<lparr>br_total = length ids, br_succeeded = 0, br_failed = length ids, br_errors = Some [e]\<rparr>)"

text \<open>The lock is taken outside the \<open>try\<close>, so a busy mailbox is an error and not a result.\<close>

definition bulk_change :: "svc_env \<Rightarrow> int list \<Rightarrow> string \<Rightarrow> svc_event \<Rightarrow> bulkResult svc" where
  "bulk_change E ids path cmd =
     withMailbox E path False (bindS (attemptS (requireS E cmd)) (\<lambda>r. okS (bulk_result ids r)))"

definition bulkSetFlags :: "svc_env \<Rightarrow> int list \<Rightarrow> string \<Rightarrow> flagAction \<Rightarrow> bulkResult svc" where
  "bulkSetFlags E ids mailbox action =
     bindS (checkS (bulkUidSet ids)) (\<lambda>range.
     bindS (checkS (sanitizeMailboxName mailbox)) (\<lambda>path.
     bindS (connectS E) (\<lambda>_.
       case flagChange action of (flags, add) \<Rightarrow> bulk_change E ids path (StoreFlags range flags add))))"

definition bulkMove :: "svc_env \<Rightarrow> int list \<Rightarrow> string \<Rightarrow> string \<Rightarrow> bulkResult svc" where
  "bulkMove E ids mailbox destination =
     bindS (checkS (bulkUidSet ids)) (\<lambda>range.
     bindS (checkS (sanitizeMailboxName mailbox)) (\<lambda>path.
     bindS (checkS (sanitizeMailboxName destination)) (\<lambda>dest.
     bindS (connectS E) (\<lambda>_.
     bindS (assertRealMailbox E path) (\<lambda>_.
       bulk_change E ids path (MoveTo range dest))))))"

definition bulkDelete :: "svc_env \<Rightarrow> int list \<Rightarrow> string \<Rightarrow> bool \<Rightarrow> bulkResult svc" where
  "bulkDelete E ids mailbox permanent =
     bindS (checkS (bulkUidSet ids)) (\<lambda>range.
     bindS (checkS (sanitizeMailboxName mailbox)) (\<lambda>path.
     bindS (connectS E) (\<lambda>_.
       if permanent then bulk_change E ids path (DeleteMessages range)
       else bindS (assertRealMailbox E path) (\<lambda>_.
         bindS (listS E) (\<lambda>mailboxes. bulk_change E ids path (MoveTo range (special_path ''Trash'' mailboxes)))))))"

section \<open>Drafts and sent mail\<close>

definition has_path :: "string \<Rightarrow> listed_mailbox list \<Rightarrow> bool" where
  [model_defs]: "has_path path mailboxes \<longleftrightarrow> list_ex (\<lambda>mb. lm_path mb = path) mailboxes"

definition createMissingMailbox :: "svc_env \<Rightarrow> string \<Rightarrow> listed_mailbox list \<Rightarrow> unit svc" where
  "createMissingMailbox E path mailboxes =
     (if has_path path mailboxes then okS ()
      else bindS (attemptS (commandS E (CreateFolder path))) (\<lambda>r.
        case r of
          Inr _ \<Rightarrow> okS ()
        | Inl e \<Rightarrow> bindS (listS E) (\<lambda>again. ensureS (has_path path again) e)))"

record 'att draft_fields =
  df_from :: string
  df_to :: string
  df_cc :: "string option"
  df_bcc :: "string option"
  df_subject :: string
  df_inReplyTo :: "string option"
  df_attachments :: "'att list"
  df_body :: string
  df_html :: bool

record draft_options =
  do_to :: "string list"
  do_subject :: string
  do_body :: string
  do_cc :: "string list option"
  do_bcc :: "string list option"
  do_html :: bool
  do_inReplyTo :: "string option"

definition sender_of :: "accountConfig \<Rightarrow> string" where
  "sender_of account =
     (case acc_fullName account of
        Some name \<Rightarrow> if name \<noteq> [] then CHR 0x22 # name @ [CHR 0x22] @ '' <'' @ acc_email account @ ''>'' else acc_email account
      | None \<Rightarrow> acc_email account)"

definition draft_fields_of :: "accountConfig \<Rightarrow> draft_options \<Rightarrow> 'att list \<Rightarrow> 'att draft_fields" where
  "draft_fields_of account options attachments =
     \<lparr>df_from = sender_of account, df_to = join_with '', '' (do_to options),
      df_cc = map_option (join_with '', '') (do_cc options), df_bcc = map_option (join_with '', '') (do_bcc options),
      df_subject = do_subject options, df_inReplyTo = do_inReplyTo options, df_attachments = attachments,
      df_body = do_body options, df_html = do_html options\<rparr>"

text \<open>
  \<open>attached\<close> is the outcome of reading the attachments, \<open>compile\<close> the composition of the message (both may
  fail). The result is the UID of the draft (0 when the server names none) and its folder.
\<close>

definition saveDraft ::
  "svc_env \<Rightarrow> accountConfig \<Rightarrow> ('att draft_fields \<Rightarrow> string + string) \<Rightarrow> draft_options \<Rightarrow> string + 'att list \<Rightarrow> (nat \<times> string) svc" where
  "saveDraft E account compile options attached =
     (case attached of
        Inl e \<Rightarrow> failS (AttachmentsRefused e)
      | Inr attachments \<Rightarrow>
          bindS (connectS E) (\<lambda>_.
          bindS (listS E) (\<lambda>mailboxes.
            let path = special_path ''Drafts'' mailboxes in
            bindS (createMissingMailbox E path mailboxes) (\<lambda>_.
              case compile (draft_fields_of account options attachments) of
                Inl e \<Rightarrow> failS (ComposeFailed e)
              | Inr raw \<Rightarrow>
                  bindS (askS (sv_append E) (AppendTo path raw [backslashed ''Draft'', backslashed ''Seen''])) (\<lambda>uid.
                    okS (case uid of None \<Rightarrow> 0 | Some u \<Rightarrow> u, path))))))"

definition appendSentMessage :: "svc_env \<Rightarrow> accountConfig \<Rightarrow> string \<Rightarrow> unit svc" where
  "appendSentMessage E account raw =
     bindS (connectS E) (\<lambda>_.
     bindS (case acc_sentMailbox account of
              Some path \<Rightarrow> if path \<noteq> [] then okS path else
                bindS (listS E) (\<lambda>mailboxes. let path = special_path ''Sent'' mailboxes in
                  bindS (createMissingMailbox E path mailboxes) (\<lambda>_. okS path))
            | None \<Rightarrow>
                bindS (listS E) (\<lambda>mailboxes. let path = special_path ''Sent'' mailboxes in
                  bindS (createMissingMailbox E path mailboxes) (\<lambda>_. okS path))) (\<lambda>path.
       bindS (askS (sv_append E) (AppendTo path raw [backslashed ''Seen''])) (\<lambda>_. okS ())))"

text \<open>The answer of the server to the deletion is not looked at.\<close>

definition deleteDraft :: "svc_env \<Rightarrow> int \<Rightarrow> string \<Rightarrow> unit svc" where
  "deleteDraft E emailId mailbox =
     bindS (checkS (parseMessageUid (js_int emailId))) (\<lambda>uid.
     bindS (checkS (sanitizeMailboxName mailbox)) (\<lambda>path.
     bindS (connectS E) (\<lambda>_.
       withMailbox E path False (commandS E (DeleteMessages uid)))))"

section \<open>Folders\<close>

definition createMailbox :: "svc_env \<Rightarrow> string \<Rightarrow> unit svc" where
  "createMailbox E folderPath =
     bindS (checkS (sanitizeMailboxName folderPath)) (\<lambda>path.
     bindS (connectS E) (\<lambda>_. commandS E (CreateFolder path)))"

text \<open>The check of \<open>protected-mailboxes.ts\<close>, on the listing this server answers now.\<close>

definition removable_env :: "svc_env \<Rightarrow> svc_log \<Rightarrow> label_env" where
  "removable_env E h =
     \<lparr>lock_answer = (\<lambda>_. None), reply = (\<lambda>_. Inr True), listed = sv_list E h, envelope_messageId = (\<lambda>_. Inr None),
      search_result = (\<lambda>_. Inr []), namespace_prefix = sv_prefix E, server_capabilities = [], permanentFlags = None\<rparr>"

definition assertRemovable :: "svc_env \<Rightarrow> string \<Rightarrow> unit svc" where
  "assertRemovable E path h =
     (case assertMailboxRemovable (removable_env E h) path of (r, cmds) \<Rightarrow>
        (case r of Inl (Thrown e) \<Rightarrow> Inl (ServerError e) | Inl e \<Rightarrow> Inl (ProtectedFolder e) | Inr u \<Rightarrow> Inr u,
         if cmds = [] then h else h @ [case sv_list E h of Inl _ \<Rightarrow> ListRefused | Inr mbs \<Rightarrow> Listed mbs]))"

definition renameMailbox :: "svc_env \<Rightarrow> string \<Rightarrow> string \<Rightarrow> unit svc" where
  "renameMailbox E folderPath newPath =
     bindS (checkS (sanitizeMailboxName folderPath)) (\<lambda>path.
     bindS (checkS (sanitizeMailboxName newPath)) (\<lambda>new.
     bindS (connectS E) (\<lambda>_.
     bindS (assertRemovable E path) (\<lambda>_. commandS E (RenameFolder path new)))))"

definition deleteMailbox :: "svc_env \<Rightarrow> string \<Rightarrow> unit svc" where
  "deleteMailbox E folderPath =
     bindS (checkS (sanitizeMailboxName folderPath)) (\<lambda>path.
     bindS (connectS E) (\<lambda>_.
     bindS (assertRemovable E path) (\<lambda>_. commandS E (DeleteFolder path))))"

definition mailbox_info :: "listed_mailbox \<Rightarrow> svc_error + (nat option \<times> nat option) option \<Rightarrow> mailboxInfo" where
  "mailbox_info mb r =
     (case r of
        Inr (Some (messages, unseen)) \<Rightarrow>
          \<lparr>mbi_name = lm_name mb, mbi_path = lm_path mb, mbi_specialUse = lm_specialUse mb,
           mbi_totalMessages = (case messages of None \<Rightarrow> 0 | Some n \<Rightarrow> n),
           mbi_unseenMessages = (case unseen of None \<Rightarrow> 0 | Some n \<Rightarrow> n)\<rparr>
      | _ \<Rightarrow>
          \<lparr>mbi_name = lm_name mb, mbi_path = lm_path mb, mbi_specialUse = lm_specialUse mb,
           mbi_totalMessages = 0, mbi_unseenMessages = 0\<rparr>)"

text \<open>Every folder is listed; one whose status is refused or fails has no counts.\<close>

definition listMailboxes :: "svc_env \<Rightarrow> mailboxInfo list svc" where
  "listMailboxes E =
     bindS (connectS E) (\<lambda>_.
     bindS (listS E) (\<lambda>mailboxes.
       eachS (\<lambda>mb. bindS (attemptS (askS (sv_status E) (StatusOf (lm_path mb)))) (\<lambda>r. okS (mailbox_info mb r))) mailboxes))"

section \<open>Finding the folder of a message\<close>

definition line_end :: "char \<Rightarrow> bool" where
  [model_defs]: "line_end c \<longleftrightarrow> c = CR \<or> c = LF"

fun header_line_starts :: "bool \<Rightarrow> string \<Rightarrow> string list" where
  "header_line_starts b [] = (if b then [[]] else [])"
| "header_line_starts b (c # s) = (if b then [c # s] else []) @ header_line_starts (line_end c) s"

text \<open>\<open>/^message-id:\s*(.+)$/im\<close>, trimmed; an empty id counts as none.\<close>

definition header_message_id :: "string \<Rightarrow> string option" where
  "header_message_id text =
     (case filter (\<lambda>s. starts_with ''message-id:'' (to_lower s)) (header_line_starts True text) of
        [] \<Rightarrow> None
      | s # _ \<Rightarrow>
          (let value = trim (takeWhile (\<lambda>c. \<not> line_end c) (dropWhile is_space (drop 11 s)))
           in if value = [] then None else Some value))"

definition searchable :: "(string \<Rightarrow> bool) \<Rightarrow> listed_mailbox \<Rightarrow> bool" where
  "searchable named mb \<longleftrightarrow> named (lm_path mb) \<and> \<not> noselect mb \<and> virtual_flag_of mb = None"

definition search_folder :: "svc_env \<Rightarrow> string \<Rightarrow> listed_mailbox \<Rightarrow> string list svc" where
  "search_folder E messageId mb =
     bindS (attemptS (withMailbox E (lm_path mb) False (askS (sv_search E) (SearchHeaderId messageId)))) (\<lambda>r.
       okS (case r of Inr (Some (u # us)) \<Rightarrow> [lm_path mb] | _ \<Rightarrow> []))"

text \<open>\<open>named\<close> tells which folders \<open>LIST\<close> itself named (imapflow also reports subscriptions).\<close>

definition findEmailFolder :: "svc_env \<Rightarrow> (string \<Rightarrow> bool) \<Rightarrow> string \<Rightarrow> string \<Rightarrow> (string list \<times> string) svc" where
  "findEmailFolder E named emailId sourceMailbox =
     bindS (checkS (parseMessageUid emailId)) (\<lambda>uid.
     bindS (checkS (sanitizeMailboxName sourceMailbox)) (\<lambda>source.
     bindS (connectS E) (\<lambda>_.
     bindS (withMailbox E source False (askS (sv_headers E) (FetchHeaderBlock uid))) (\<lambda>headers.
       case Option.bind headers header_message_id of
         None \<Rightarrow> failS NoMessageIdHeader
       | Some messageId \<Rightarrow>
           bindS (listS E) (\<lambda>mailboxes.
           bindS (eachS (search_folder E messageId) (filter (searchable named) mailboxes)) (\<lambda>found.
             okS (concat found, messageId)))))))"

section \<open>Quota\<close>

record quotaInfo =
  qi_usedMb :: nat
  qi_totalMb :: nat
  qi_percentage :: nat

definition quota_info :: "nat option \<times> nat option \<Rightarrow> quotaInfo option" where
  "quota_info storage =
     (case storage of (usage, limit) \<Rightarrow>
        (case limit of
           None \<Rightarrow> None
         | Some n \<Rightarrow>
             if n = 0 then None
             else let used = round_div (case usage of None \<Rightarrow> 0 | Some u \<Rightarrow> u) (1024 * 1024);
                      total = round_div n (1024 * 1024)
                  in Some \<lparr>qi_usedMb = used, qi_totalMb = total,
                       qi_percentage = (if total > 0 then round_div (used * 100) total else 0)\<rparr>))"

definition getQuota :: "svc_env \<Rightarrow> quotaInfo option svc" where
  "getQuota E =
     bindS (connectS E) (\<lambda>_.
     bindS (attemptS (askS (sv_quota E) (AskQuota ''INBOX''))) (\<lambda>r.
       okS (case r of Inr (Some storage) \<Rightarrow> quota_info storage | _ \<Rightarrow> None)))"

section \<open>Lock discipline\<close>

lemma keeps_requireS [intro]: "keeps held (askS (sv_accepts E) cmd) \<Longrightarrow> keeps held (requireS E cmd)"
  unfolding requireS_def by auto

lemma keeps_commandS [intro]: "keeps held (askS (sv_accepts E) cmd) \<Longrightarrow> keeps held (commandS E cmd)"
  unfolding commandS_def by auto

lemma keeps_bulk_change [intro]: "changes_message cmd \<Longrightarrow> keeps None (bulk_change E ids path cmd)"
  unfolding bulk_change_def by (intro keeps_withMailbox keeps_bindS keeps_attemptS keeps_requireS keeps_askS_changing keeps_okS)

lemma move_logged: "\<exists>r d. snd (requireS E (MoveTo x y) h) = h @ [MoveTo r d]"
  by (auto simp: svc_defs split: sum.split)

lemma bulk_move_logged:
  "\<exists>r d. snd (bindS (attemptS (requireS E (MoveTo x y))) (\<lambda>r. okS (bulk_result ids r)) h) = h @ [MoveTo r d]"
  by (auto simp: svc_defs split: sum.split)

lemma keeps_move_now:
  assumes "\<And>a h. \<exists>r d. snd (body a h) = h @ [MoveTo r d]"
  shows "keeps None (bindS (assertRealMailbox E path) (\<lambda>a. withMailbox E path False (body a)))"
proof -
  have "keeps None (bindS (assertRealMailbox E path) (\<lambda>a. bindS (okS ()) (\<lambda>_. withMailbox E path False (body a))))"
    by (rule keeps_checked_move) (auto simp del: bindS_ok simp: okS_def intro: assms)
  then show ?thesis by simp
qed

lemma keeps_move_after_listing:
  assumes "\<And>a b h. \<exists>r d. snd (body a b h) = h @ [MoveTo r d]"
  shows "keeps None (bindS (assertRealMailbox E path) (\<lambda>a. bindS (listS E) (\<lambda>b. withMailbox E path False (body a b))))"
  by (rule keeps_checked_move [OF keeps_listS _ assms])
    (auto simp: listS_def log_run_append log_step_def reads_message_def changes_message_def split: sum.splits if_splits)

lemma keeps_create_missing: "keeps None (createMissingMailbox E path mbs)"
  unfolding createMissingMailbox_def by (auto intro!: keeps_bindS keeps_attemptS keeps_commandS split: sum.split)

lemma keeps_removable: "keeps None (assertRemovable E path)"
  by (auto simp: keeps_def assertRemovable_def log_run_append log_step_def reads_message_def changes_message_def split: prod.split sum.split)

lemma keeps_moves:
  "keeps None (moveEmail E i m d)" "keeps None (deleteEmail E i m b)" "keeps None (bulkMove E is m d)" "keeps None (bulkDelete E is m b)"
  unfolding moveEmail_def deleteEmail_def bulkMove_def bulkDelete_def
  by (auto intro!: keeps_bindS keeps_withMailbox keeps_requireS keeps_attemptS keeps_move_now keeps_move_after_listing move_logged bulk_move_logged
      simp: bulk_change_def)

lemma keeps_folders:
  "keeps None (createMailbox E p)" "keeps None (renameMailbox E p q)" "keeps None (deleteMailbox E p)"
  "keeps None (listMailboxes E)" "keeps None (findEmailFolder E named i m)" "keeps None (getQuota E)"
  unfolding createMailbox_def renameMailbox_def deleteMailbox_def listMailboxes_def findEmailFolder_def getQuota_def search_folder_def
  by (auto intro!: keeps_bindS keeps_commandS keeps_removable keeps_eachS keeps_attemptS keeps_withMailbox split: option.split)

lemma keeps_changes:
  "keeps None (setFlags E i m a)" "keeps None (bulkSetFlags E is m a)" "keeps None (deleteDraft E n m)"
  "keeps None (saveDraft E acc compile options attached)" "keeps None (appendSentMessage E acc raw)"
  unfolding setFlags_def bulkSetFlags_def deleteDraft_def saveDraft_def appendSentMessage_def Let_def
  by (auto intro!: keeps_bindS keeps_withMailbox keeps_requireS keeps_bulk_change keeps_commandS keeps_create_missing
      split: prod.split sum.split option.split)

section \<open>Calls\<close>

datatype 'att svc_call =
    MoveCall string string string
  | DeleteCall string string bool
  | FlagsCall string string flagAction
  | BulkFlags "int list" string flagAction
  | BulkMove "int list" string string
  | BulkDelete "int list" string bool
  | SaveDraft accountConfig "'att draft_fields \<Rightarrow> string + string" draft_options "string + 'att list"
  | AppendSent accountConfig string
  | DeleteDraft int string
  | CreateMailbox string
  | RenameMailbox string string
  | DeleteMailbox string
  | ListMailboxes
  | FindFolder "string \<Rightarrow> bool" string string
  | Quota

definition doneS :: "'a svc \<Rightarrow> unit svc" where
  [svc_defs]: "doneS m = bindS m (\<lambda>_. okS ())"

definition run_call :: "svc_env \<Rightarrow> 'att svc_call \<Rightarrow> unit svc" where
  "run_call E c =
     (case c of
        MoveCall i m d \<Rightarrow> moveEmail E i m d
      | DeleteCall i m p \<Rightarrow> deleteEmail E i m p
      | FlagsCall i m a \<Rightarrow> setFlags E i m a
      | BulkFlags is m a \<Rightarrow> doneS (bulkSetFlags E is m a)
      | BulkMove is m d \<Rightarrow> doneS (bulkMove E is m d)
      | BulkDelete is m p \<Rightarrow> doneS (bulkDelete E is m p)
      | SaveDraft acc compile options attached \<Rightarrow> doneS (saveDraft E acc compile options attached)
      | AppendSent acc raw \<Rightarrow> appendSentMessage E acc raw
      | DeleteDraft i m \<Rightarrow> deleteDraft E i m
      | CreateMailbox p \<Rightarrow> createMailbox E p
      | RenameMailbox p q \<Rightarrow> renameMailbox E p q
      | DeleteMailbox p \<Rightarrow> deleteMailbox E p
      | ListMailboxes \<Rightarrow> doneS (listMailboxes E)
      | FindFolder named i m \<Rightarrow> doneS (findEmailFolder E named i m)
      | Quota \<Rightarrow> doneS (getQuota E))"

definition run_calls :: "svc_env \<Rightarrow> 'att svc_call list \<Rightarrow> svc_log" where
  "run_calls E cs = foldl (\<lambda>h c. snd (run_call E c h)) [] cs"

lemma keeps_run_call: "keeps None (run_call E c)"
  by (cases c) (auto simp: run_call_def doneS_def intro!: keeps_moves keeps_folders keeps_changes keeps_bindS)

lemma run_calls_snoc: "run_calls E (cs @ [c]) = snd (run_call E c (run_calls E cs))"
  by (simp add: run_calls_def)


section \<open>Wrong input\<close>

definition valid :: "validation_error + 'a \<Rightarrow> bool" where
  [model_defs]: "valid r = (case r of Inl _ \<Rightarrow> False | Inr _ \<Rightarrow> True)"

definition uid_ok :: "string \<Rightarrow> bool" where [model_defs]: "uid_ok i = valid (parseMessageUid i)"
definition name_ok :: "string \<Rightarrow> bool" where [model_defs]: "name_ok m = valid (sanitizeMailboxName m)"
definition ids_ok :: "int list \<Rightarrow> bool" where [model_defs]: "ids_ok is = list_all (\<lambda>i. uid_ok (js_int i)) is"

definition input_ok :: "'att svc_call \<Rightarrow> bool" where
  "input_ok c =
     (case c of
        MoveCall i m d \<Rightarrow> uid_ok i \<and> name_ok m \<and> name_ok d
      | DeleteCall i m p \<Rightarrow> uid_ok i \<and> name_ok m
      | FlagsCall i m a \<Rightarrow> uid_ok i \<and> name_ok m
      | BulkFlags is m a \<Rightarrow> ids_ok is \<and> name_ok m
      | BulkMove is m d \<Rightarrow> ids_ok is \<and> name_ok m \<and> name_ok d
      | BulkDelete is m p \<Rightarrow> ids_ok is \<and> name_ok m
      | DeleteDraft i m \<Rightarrow> uid_ok (js_int i) \<and> name_ok m
      | CreateMailbox p \<Rightarrow> name_ok p
      | RenameMailbox p q \<Rightarrow> name_ok p \<and> name_ok q
      | DeleteMailbox p \<Rightarrow> name_ok p
      | FindFolder named i m \<Rightarrow> uid_ok i \<and> name_ok m
      | _ \<Rightarrow> True)"

definition bad_input :: "svc_error + 'a \<Rightarrow> bool" where
  "bad_input r = (case r of Inl (BadInput _) \<Rightarrow> True | _ \<Rightarrow> False)"

text \<open>An operation past its input checks.\<close>

definition clean :: "'a svc \<Rightarrow> bool" where "clean m \<longleftrightarrow> (\<forall>h. \<not> bad_input (fst (m h)))"

lemma clean_basics [simp, intro!]:
  "clean (okS a)" "clean (askS ans cmd)" "clean (connectS E)" "clean (listS E)" "clean (attemptS m)"
  by (auto simp: clean_def svc_defs bad_input_def split: sum.split option.split prod.split)

lemma clean_failS [simp]: "clean (failS e) \<longleftrightarrow> \<not> bad_input (Inl e :: svc_error + unit)"
  by (auto simp: clean_def failS_def bad_input_def)

lemma clean_bindS [intro]: "clean m \<Longrightarrow> (\<And>a. clean (f a)) \<Longrightarrow> clean (bindS m f)"
proof (unfold clean_def, rule allI)
  fix h
  assume m: "\<forall>h. \<not> bad_input (fst (m h))" and f: "\<And>a. \<forall>h. \<not> bad_input (fst (f a h))"
  obtain r h' where mh: "m h = (r, h')" by (cases "m h")
  then have "\<not> bad_input r" using spec [OF m, of h] by simp
  then show "\<not> bad_input (fst (bindS m f h))" using mh f by (cases r) (auto simp: bindS_def bad_input_def)
qed

lemma clean_withMailbox [intro]: "clean m \<Longrightarrow> clean (withMailbox E p ro m)"
proof (unfold clean_def, rule allI)
  fix h
  assume m: "\<forall>h. \<not> bad_input (fst (m h))"
  then have "\<not> bad_input (fst (m (h @ [LockTaken p ro])))" by blast
  then show "\<not> bad_input (fst (withMailbox E p ro m h))"
    by (auto simp: withMailbox_def bad_input_def split: option.split lock_failure.split prod.split)
qed

lemma clean_eachS [intro]: "(\<And>x. clean (f x)) \<Longrightarrow> clean (eachS f xs)"
  by (induction xs) auto

lemma clean_parts [intro!]:
  "clean (requireS E cmd)" "clean (commandS E cmd)" "clean (assertRealMailbox E p)" "clean (bulk_change E is p cmd)"
  "clean (createMissingMailbox E p mbs)" "clean (search_folder E mid mb)" "clean (assertRemovable E p)"
proof -
  show "clean (requireS E cmd)" "clean (commandS E cmd)" "clean (assertRealMailbox E p)" "clean (bulk_change E is p cmd)" "clean (search_folder E mid mb)"
    unfolding requireS_def commandS_def assertRealMailbox_def bulk_change_def search_folder_def
    by (auto intro!: clean_bindS clean_withMailbox simp: ensureS_def bad_input_def split: option.split)
  show "clean (assertRemovable E p)"
    by (auto simp: clean_def assertRemovable_def bad_input_def split: prod.split sum.split label_error.split)
  show "clean (createMissingMailbox E p mbs)"
  proof (unfold clean_def, rule allI)
    fix h show "\<not> bad_input (fst (createMissingMailbox E p mbs h))"
      by (auto simp: createMissingMailbox_def svc_defs bad_input_def split: sum.split prod.split)
  qed
qed

text \<open>A call that stops at its input checks, or gets past them.\<close>

definition guarded :: "bool \<Rightarrow> 'a svc \<Rightarrow> bool" where
  "guarded b m \<longleftrightarrow> (if b then clean m else (\<exists>e. m = failS (BadInput e)))"

lemma guarded_check: "(\<And>a. r = Inr a \<Longrightarrow> guarded b (f a)) \<Longrightarrow> guarded (valid r \<and> b) (bindS (checkS r) f)"
  by (cases r) (auto simp: guarded_def checkS_def valid_def)

lemma guarded_clean: "clean m \<Longrightarrow> guarded True m"
  by (simp add: guarded_def)

lemma guarded_done: "guarded b m \<Longrightarrow> guarded b (doneS m)"
  by (auto simp: guarded_def doneS_def intro!: clean_bindS split: if_splits)

lemma valid_simps [simp]: "valid (Inl e) = False" "valid (Inr a) = True"
  by (simp_all add: valid_def)

lemma valid_bindE: "valid (bindE r f) \<longleftrightarrow> (case r of Inl _ \<Rightarrow> False | Inr a \<Rightarrow> valid (f a))"
  by (cases r) simp_all

lemma valid_map: "valid (bindE r (\<lambda>a. Inr (f a))) = valid r"
  by (cases r) simp_all

lemma valid_ids: "valid (bulkUidSet is) \<longleftrightarrow> ids_ok is"
proof -
  have "valid (parse_ids is) \<longleftrightarrow> ids_ok is"
  proof (induction "is")
    case (Cons i "is")
    then show ?case
      by (cases "parseMessageUid (js_int i)") (simp_all add: ids_ok_def uid_ok_def valid_map)
  qed (simp add: ids_ok_def)
  then show ?thesis by (simp add: bulkUidSet_def valid_map)
qed

lemma guarded_checked:
  "(\<And>a. guarded b (f a)) \<Longrightarrow> guarded (uid_ok i \<and> b) (bindS (checkS (parseMessageUid i)) f)"
  "(\<And>a. guarded b (f a)) \<Longrightarrow> guarded (name_ok i \<and> b) (bindS (checkS (sanitizeMailboxName i)) f)"
  "(\<And>a. guarded b (f a)) \<Longrightarrow> guarded (ids_ok is \<and> b) (bindS (checkS (bulkUidSet is)) f)"
  unfolding uid_ok_def name_ok_def valid_ids [symmetric] by (rule guarded_check; blast)+

lemmas guarded_last = guarded_checked [where b = True, simplified]

lemma guarded_ops:
  "guarded (uid_ok i \<and> name_ok m \<and> name_ok d) (moveEmail E i m d)" "guarded (uid_ok i \<and> name_ok m) (deleteEmail E i m p)"
  "guarded (uid_ok i \<and> name_ok m) (setFlags E i m a)" "guarded (ids_ok is \<and> name_ok m) (bulkSetFlags E is m a)"
  "guarded (ids_ok is \<and> name_ok m \<and> name_ok d) (bulkMove E is m d)" "guarded (ids_ok is \<and> name_ok m) (bulkDelete E is m p)"
  "guarded (uid_ok (js_int n) \<and> name_ok m) (deleteDraft E n m)" "guarded (name_ok m) (createMailbox E m)"
  "guarded (name_ok m \<and> name_ok d) (renameMailbox E m d)" "guarded (name_ok m) (deleteMailbox E m)"
  "guarded (uid_ok i \<and> name_ok m) (findEmailFolder E named i m)"
  unfolding moveEmail_def deleteEmail_def setFlags_def bulkSetFlags_def bulkMove_def bulkDelete_def deleteDraft_def createMailbox_def
    renameMailbox_def deleteMailbox_def findEmailFolder_def
  by (auto intro!: guarded_checked guarded_last guarded_clean clean_bindS clean_withMailbox clean_eachS split: prod.split option.split
      simp: bad_input_def)

lemma clean_ops: "clean (saveDraft E acc compile options attached)" "clean (appendSentMessage E acc raw)" "clean (listMailboxes E)" "clean (getQuota E)"
  unfolding saveDraft_def appendSentMessage_def listMailboxes_def getQuota_def Let_def
  by (auto intro!: clean_bindS clean_eachS split: sum.split option.split simp: bad_input_def)

lemma clean_done: "clean m \<Longrightarrow> clean (doneS m)"
  unfolding doneS_def by auto

lemma guarded_run_call: "guarded (input_ok c) (run_call E c)"
  by (cases c) (auto simp: run_call_def input_ok_def intro!: guarded_done guarded_ops guarded_clean clean_done clean_ops)

text \<open>
  C23: a call with a message id, folder name or id list that is not valid fails with that error and sends
  nothing at all; a call whose input is valid never fails with such an error.
\<close>

theorem wrong_input_sends_nothing:
  "if input_ok c then \<not> bad_input (fst (run_call E c h)) else bad_input (fst (run_call E c h)) \<and> snd (run_call E c h) = h"
  using guarded_run_call [of c E] by (auto simp: guarded_def clean_def failS_def bad_input_def)

section \<open>What is deleted for good\<close>

text \<open>An operation sends only such events.\<close>

definition sends :: "(svc_event \<Rightarrow> bool) \<Rightarrow> 'a svc \<Rightarrow> bool" where
  "sends P m \<longleftrightarrow> (\<forall>h. \<exists>es. snd (m h) = h @ es \<and> list_all P es)"

lemma sendsI: "(\<And>h. \<exists>es. snd (m h) = h @ es \<and> list_all P es) \<Longrightarrow> sends P m"
  by (simp add: sends_def)

lemma sends_basics [simp, intro!]: "sends P (okS a)" "sends P (failS e)" "sends P (checkS r)" "sends P (ensureS b e)"
  by (auto simp: sends_def svc_defs split: sum.split)

lemma sends_askS: "P cmd \<Longrightarrow> sends P (askS answer cmd)"
  by (auto simp: sends_def askS_def split: sum.split)

lemma sends_connectS: "P Connect \<Longrightarrow> sends P (connectS E)"
  by (auto simp: sends_def connectS_def split: option.split)

lemma sends_listS: "P ListRefused \<Longrightarrow> (\<And>mbs. P (Listed mbs)) \<Longrightarrow> sends P (listS E)"
  by (auto simp: sends_def listS_def split: sum.split)

lemma sends_bindS: "sends P m \<Longrightarrow> (\<And>a. sends P (f a)) \<Longrightarrow> sends P (bindS m f)"
proof (rule sendsI)
  fix h
  assume m: "sends P m" and f: "\<And>a. sends P (f a)"
  obtain es where es: "snd (m h) = h @ es" "list_all P es" using m by (auto simp: sends_def)
  show "\<exists>es. snd (bindS m f h) = h @ es \<and> list_all P es"
  proof (cases "m h")
    case (Pair r h')
    then have h': "h' = h @ es" using es by simp
    show ?thesis
    proof (cases r)
      case (Inl e)
      then show ?thesis using Pair h' es by (simp add: bindS_def)
    next
      case (Inr a)
      obtain es2 where "snd (f a h') = h' @ es2" "list_all P es2" using f by (auto simp: sends_def)
      then show ?thesis using Pair h' es Inr by (intro exI [of _ "es @ es2"]) (simp add: bindS_def)
    qed
  qed
qed

lemma sends_attemptS: "sends P m \<Longrightarrow> sends P (attemptS m)"
  by (auto simp: sends_def attemptS_def split: prod.split) (metis snd_conv)

lemma sends_withMailbox:
  assumes m: "sends P m" and locks: "P (LockTaken p ro)" "P (LockRefused p)" "P (LockFreed p)"
  shows "sends P (withMailbox E p ro m)"
proof (rule sendsI)
  fix h
  obtain es where "snd (m (h @ [LockTaken p ro])) = (h @ [LockTaken p ro]) @ es" "list_all P es"
    using m unfolding sends_def by blast
  then show "\<exists>es. snd (withMailbox E p ro m h) = h @ es \<and> list_all P es"
    using locks by (auto simp: withMailbox_def split: option.split lock_failure.split prod.split)
qed

lemma sends_eachS: "(\<And>x. sends P (f x)) \<Longrightarrow> sends P (eachS f xs)"
  by (induction xs) (auto intro: sends_bindS)

lemma sends_mono: "sends P m \<Longrightarrow> (\<And>e. P e \<Longrightarrow> Q e) \<Longrightarrow> sends Q m"
  unfolding sends_def by (meson list_all_iff)

lemmas sends_rules = sends_bindS sends_askS sends_connectS sends_listS sends_attemptS sends_withMailbox sends_eachS

text \<open>The message sets a call asks to delete for good, and the events of calls that ask for nothing else.\<close>

definition deletes :: "'att svc_call \<Rightarrow> string set" where
  "deletes c =
     (case c of
        DeleteCall i m p \<Rightarrow> if p then {i} else {}
      | BulkDelete is m p \<Rightarrow> if p then {join_with '','' (map js_int is)} else {}
      | DeleteDraft i m \<Rightarrow> {js_int i}
      | _ \<Rightarrow> {})"

definition deletes_only :: "string set \<Rightarrow> svc_event \<Rightarrow> bool" where
  "deletes_only D e = (case e of DeleteMessages r \<Rightarrow> r \<in> D | _ \<Rightarrow> True)"

lemma deletes_only_simps [simp]:
  "deletes_only D Connect" "deletes_only D (LockTaken p ro)" "deletes_only D (LockRefused p)" "deletes_only D (LockFreed p)"
  "deletes_only D (Listed mbs)" "deletes_only D ListRefused" "deletes_only D (StatusOf p)" "deletes_only D (MoveTo i p)"
  "deletes_only D (StoreFlags i fs b)" "deletes_only D (AppendTo p r fs)" "deletes_only D (CreateFolder p)"
  "deletes_only D (RenameFolder p q)" "deletes_only D (DeleteFolder p)" "deletes_only D (FetchHeaderBlock i)"
  "deletes_only D (SearchHeaderId i)" "deletes_only D (AskQuota p)" "deletes_only D (DeleteMessages r) \<longleftrightarrow> r \<in> D"
  by (simp_all add: deletes_only_def)

lemma parsed_uid: "parseMessageUid i = Inr u \<Longrightarrow> u = i"
  by (auto simp: parseMessageUid_def split: if_splits)

lemma parsed_ids: "parse_ids is = Inr us \<Longrightarrow> us = map js_int is"
  by (induction "is" arbitrary: us) (auto simp: bindE_Inr_iff dest: parsed_uid)

lemma sends_check: "(\<And>a. r = Inr a \<Longrightarrow> sends P (f a)) \<Longrightarrow> sends P (bindS (checkS r) f)"
  by (cases r) (simp_all add: checkS_def)

lemma sends_parts [intro!]:
  "deletes_only D cmd \<Longrightarrow> sends (deletes_only D) (requireS E cmd)" "deletes_only D cmd \<Longrightarrow> sends (deletes_only D) (commandS E cmd)"
  "sends (deletes_only D) (assertRealMailbox E p)" "deletes_only D cmd \<Longrightarrow> sends (deletes_only D) (bulk_change E is p cmd)"
  "sends (deletes_only D) (createMissingMailbox E p mbs)" "sends (deletes_only D) (search_folder E mid mb)"
  "sends (deletes_only D) (assertRemovable E p)"
proof -
  show "sends (deletes_only D) (assertRemovable E p)"
    by (auto simp: sends_def assertRemovable_def split: prod.split sum.split)
qed (auto simp: requireS_def commandS_def assertRealMailbox_def bulk_change_def createMissingMailbox_def search_folder_def
    intro!: sends_rules split: option.split sum.split)

lemma sends_ops: "sends (deletes_only (deletes c)) (run_call E c)"
proof -
  note ops = moveEmail_def deleteEmail_def setFlags_def bulkSetFlags_def bulkMove_def bulkDelete_def deleteDraft_def createMailbox_def
    renameMailbox_def deleteMailbox_def findEmailFolder_def saveDraft_def appendSentMessage_def listMailboxes_def getQuota_def
  show ?thesis
    by (cases c) (auto simp: run_call_def deletes_def ops doneS_def bulkUidSet_def bindE_Inr_iff Let_def
      intro!: sends_check sends_rules dest!: parsed_uid parsed_ids split: prod.split sum.split option.split)
qed


section \<open>What bulk actions report\<close>

definition accepted :: "svc_env \<Rightarrow> svc_log \<Rightarrow> bool" where
  "accepted E h \<longleftrightarrow> sv_accepts E (butlast h) = Inr True"

definition reported_truly :: "svc_env \<Rightarrow> int list \<Rightarrow> svc_log \<Rightarrow> bulkResult \<Rightarrow> bool" where
  "reported_truly E ids h r \<longleftrightarrow>
     br_total r = length ids \<and> br_succeeded r + br_failed r = br_total r \<and>
     br_succeeded r = (if accepted E h then length ids else 0) \<and> (br_errors r = None \<longleftrightarrow> accepted E h)"

definition answers_truly :: "svc_env \<Rightarrow> int list \<Rightarrow> bulkResult svc \<Rightarrow> bool" where
  "answers_truly E ids m \<longleftrightarrow> (\<forall>h. case m h of (Inl _, _) \<Rightarrow> True | (Inr r, h') \<Rightarrow> reported_truly E ids h' r)"

lemma answers_bulk_change [intro!]: "answers_truly E ids (bulk_change E ids path cmd)"
  by (auto simp: answers_truly_def bulk_change_def bulk_result_def reported_truly_def accepted_def svc_defs butlast_append
      split: option.split lock_failure.split sum.split prod.split)

lemma answers_bindS [intro!]: "(\<And>a. answers_truly E ids (f a)) \<Longrightarrow> answers_truly E ids (bindS m f)"
proof (unfold answers_truly_def, rule allI)
  fix h
  assume f: "\<And>a. \<forall>h. case f a h of (Inl _, _) \<Rightarrow> True | (Inr r, h') \<Rightarrow> reported_truly E ids h' r"
  obtain r h' where "m h = (r, h')" by (cases "m h")
  then show "case bindS m f h of (Inl _, _) \<Rightarrow> True | (Inr r, h') \<Rightarrow> reported_truly E ids h' r"
    using f by (cases r) (auto simp: bindS_def)
qed

text \<open>
  A bulk action that returns a result accounts for every message: succeeded and failed add up to the
  number of ids, all of them succeeded when the server accepted the one command of the action, and
  otherwise none did and the error is reported.
\<close>

theorem bulk_results_account:
  "answers_truly E ids (bulkSetFlags E ids m a) \<and> answers_truly E ids (bulkMove E ids m d) \<and> answers_truly E ids (bulkDelete E ids m p)"
  unfolding bulkSetFlags_def bulkMove_def bulkDelete_def by (auto split: prod.split)

section \<open>A gap in the check for virtual folders\<close>

definition gmail_folders :: "listed_mailbox list" where
  "gmail_folders = [\<lparr>lm_name = ''All Mail'', lm_path = ''[Gmail]/All Mail'', lm_specialUse = Some (backslashed ''All''), lm_flags = []\<rparr>]"

definition quiet_env :: svc_env where
  "quiet_env = \<lparr>sv_connect = (\<lambda>_. None), sv_lock = (\<lambda>_ _ _. None), sv_list = (\<lambda>_. Inr gmail_folders), sv_status = (\<lambda>_. Inr None),
     sv_accepts = (\<lambda>_. Inr True), sv_append = (\<lambda>_. Inr None), sv_structure = (\<lambda>_. Inr None), sv_headers = (\<lambda>_. Inr None),
     sv_size = (\<lambda>_. Inr None), sv_source = (\<lambda>_. Inr None), sv_part = (\<lambda>_. Inr None), sv_search = (\<lambda>_. Inr None),
     sv_quota = (\<lambda>_. Inr None), sv_message = (\<lambda>_. Inr None), sv_rows = (\<lambda>_. Inr []), sv_partial = (\<lambda>_. Inr []), sv_prefix = None\<rparr>"

lemma parse_seven: "parseMessageUid ''7'' = Inr ''7''"
  by (simp add: parseMessageUid_def MAX_MESSAGE_UID_def uid_shape_def is_digit_def number_of_def digit_value_def)

lemma sample_names:
  "sanitizeMailboxName ''[Gmail]/All Mail'' = Inr ''[Gmail]/All Mail''" "sanitizeMailboxName ''[gmail]/all mail'' = Inr ''[gmail]/all mail''"
  "sanitizeMailboxName ''INBOX'' = Inr ''INBOX''"
  by code_simp+

lemma sample_flags:
  "virtual_flag gmail_folders ''[Gmail]/All Mail'' = Some (backslashed ''All'')" "virtual_flag gmail_folders ''[gmail]/all mail'' = None"
  by code_simp+

text \<open>
  The check compares paths with case, unlike the check that keeps folders from being removed, which
  ignores case because some servers do: the virtual folder in other letters passes.
\<close>

lemma virtual_check_needs_exact_case:
  "fst (moveEmail quiet_env ''7'' ''[Gmail]/All Mail'' ''INBOX'' []) = Inl (VirtualFolder ''[Gmail]/All Mail'' (backslashed ''All''))"
  "MoveTo ''7'' ''INBOX'' \<in> set (snd (moveEmail quiet_env ''7'' ''[gmail]/all mail'' ''INBOX'' []))"
  by (simp_all add: moveEmail_def parse_seven sample_names checkS_def assertRealMailbox_def)
    (simp_all add: svc_defs quiet_env_def sample_flags)

end
