(* ===== verification/IsoDates.thy ===== *)
theory IsoDates
  imports SendAt
begin

text \<open>
  Dates as the program writes them: \<open>toISOString\<close> of an instant in milliseconds (the ECMAScript format),
  the date of a message (src/utils/iso-date.ts), and the proof that a written date is read back as the
  same instant by the reader of src/services/scheduler.service.ts.
\<close>

section \<open>Instants to dates\<close>

definition CYCLE_DAYS :: int where [model_defs]: "CYCLE_DAYS = 146097"

text \<open>The year that holds a day counted from 0000-01-01; the first guess is at most one year off.\<close>

definition year_of :: "nat \<Rightarrow> nat" where
  "year_of n =
     (let y = n * 400 div 146097 in
      if days_before_year (Suc y) \<le> n then Suc y else if n < days_before_year y then y - 1 else y)"

fun month_from :: "nat \<Rightarrow> nat \<Rightarrow> nat list \<Rightarrow> nat \<times> nat" where
  "month_from y r [] = (12, r)"
| "month_from y r (m # ms) = (if r < daysInMonth y m then (m, r) else month_from y (r - daysInMonth y m) ms)"

definition date_of :: "nat \<Rightarrow> nat \<times> nat \<times> nat" where
  "date_of n =
     (let y = year_of n in case month_from y (n - days_before_year y) [1..<13] of (m, r) \<Rightarrow> (y, m, r + 1))"

definition pad_zeros :: "nat \<Rightarrow> nat \<Rightarrow> string" where
  "pad_zeros k n = replicate (k - length (show_nat n)) CHR ''0'' @ show_nat n"

definition year_text :: "int \<Rightarrow> string" where
  "year_text y =
     (if 0 \<le> y \<and> y \<le> 9999 then pad_zeros 4 (nat y)
      else (if y < 0 then ''-'' else ''+'') @ pad_zeros 6 (nat \<bar>y\<bar>))"

definition toISOString :: "int \<Rightarrow> string" where
  "toISOString t =
     (let days = t div 86400000 + 719528; ms = nat (t mod 86400000) in
      case date_of (nat (days mod CYCLE_DAYS)) of (y, m, d) \<Rightarrow>
        year_text (400 * (days div CYCLE_DAYS) + int y) @ ''-'' @ pad_zeros 2 m @ ''-'' @ pad_zeros 2 d @ ''T'' @
        pad_zeros 2 (ms div 3600000) @ '':'' @ pad_zeros 2 (ms div 60000 mod 60) @ '':'' @
        pad_zeros 2 (ms div 1000 mod 60) @ ''.'' @ pad_zeros 3 (ms mod 1000) @ ''Z'')"

text \<open>A message whose date does not parse is dated now.\<close>

definition isoDate :: "int \<Rightarrow> int option \<Rightarrow> string" where
  "isoDate now date = (case date of Some t \<Rightarrow> toISOString t | None \<Rightarrow> toISOString now)"

section \<open>Reading written dates\<close>

lemma year_bounds:
  "146097 * y \<le> 400 * days_before_year y + 396" "400 * days_before_year y \<le> 146097 * y + 699"
proof -
  define a b c where "a = (y + 3) div 4" and "b = (y + 399) div 400" and "c = (y + 99) div 100"
  have "y \<le> 4 * a" "4 * a \<le> y + 3" "y \<le> 400 * b" "400 * b \<le> y + 399" "y \<le> 100 * c" "100 * c \<le> y + 99"
    unfolding a_def b_def c_def by linarith+
  moreover have "days_before_year y = 365 * y + a + b - c" by (simp add: days_before_year_def a_def b_def c_def)
  ultimately show "146097 * y \<le> 400 * days_before_year y + 396" "400 * days_before_year y \<le> 146097 * y + 699" by linarith+
qed

lemma days_of_cycles: "days_before_year (400 * q + y) = 146097 * q + days_before_year y"
proof -
  define a b c where "a = (y + 3) div 4" and "b = (y + 399) div 400" and "c = (y + 99) div 100"
  have sums: "400 * q + y + 3 = (y + 3) + 100 * q * 4" "400 * q + y + 399 = (y + 399) + q * 400" "400 * q + y + 99 = (y + 99) + 4 * q * 100"
    by simp_all
  have "(400 * q + y + 3) div 4 = 100 * q + a" unfolding sums a_def by (rule div_mult_self1) simp
  moreover have "(400 * q + y + 399) div 400 = q + b" unfolding sums b_def by (rule div_mult_self1) simp
  moreover have "(400 * q + y + 99) div 100 = 4 * q + c" unfolding sums c_def by (rule div_mult_self1) simp
  moreover have "c \<le> y" unfolding c_def by (cases y) auto
  ultimately show ?thesis by (simp add: days_before_year_def flip: a_def b_def c_def)
qed

lemma year_of_correct: "days_before_year (year_of n) \<le> n \<and> n < days_before_year (Suc (year_of n))"
proof -
  define y where "y = n * 400 div 146097"
  have y: "146097 * y \<le> n * 400" "n * 400 < 146097 * y + 146097" unfolding y_def by linarith+
  have up: "n < days_before_year (Suc (Suc y))" using year_bounds(1) [of "Suc (Suc y)"] y by (simp only: mult_Suc_right)
  have down: "days_before_year (y - 1) \<le> n"
  proof (cases y)
    case 0
    then show ?thesis by (simp add: days_before_year_def)
  next
    case (Suc x)
    then show ?thesis using year_bounds(2) [of x] y by simp
  qed
  have "y \<noteq> 0" if "n < days_before_year y" using that by (cases y) (simp_all add: days_before_year_def)
  then show ?thesis using up down by (auto simp: year_of_def y_def [symmetric] Let_def)
qed

lemma month_from_correct:
  assumes "month_from y r [m..<13] = (m', r')" "1 \<le> m" "m \<le> 12" "days_before_month y m + r < days_before_month y 13"
  shows "m \<le> m' \<and> m' \<le> 12 \<and> r' < daysInMonth y m' \<and> days_before_month y m' + r' = days_before_month y m + r"
  using assms
proof (induction "12 - m" arbitrary: m r)
  case 0
  then have m: "m = 12" by simp
  then have "[m..<13] = [12]" by (simp add: upt_rec)
  moreover have "r < daysInMonth y 12" using 0 m days_before_month_Suc [of 12 y] by simp
  ultimately show ?case using 0 m by simp
next
  case (Suc k)
  then have c: "[m..<13] = m # [Suc m..<13]" "m < 12" by (simp_all add: upt_rec)
  show ?case
  proof (cases "r < daysInMonth y m")
    case True
    then show ?thesis using Suc c by simp
  next
    case False
    have "Suc m \<le> m' \<and> m' \<le> 12 \<and> r' < daysInMonth y m' \<and>
        days_before_month y m' + r' = days_before_month y (Suc m) + (r - daysInMonth y m)"
      using Suc.prems Suc.hyps(2) False c days_before_month_Suc [of m y]
      by (intro Suc.hyps(1)) auto
    then show ?thesis using False days_before_month_Suc [of m y] Suc.prems by auto
  qed
qed

lemma date_of_correct:
  assumes "date_of n = (y, m, d)"
  shows "1 \<le> m \<and> m \<le> 12 \<and> 1 \<le> d \<and> d \<le> daysInMonth y m \<and> days_before_year y + days_before_month y m + d = n + 1 \<and>
    (\<forall>k. n < days_before_year k \<longrightarrow> y < k)"
proof -
  obtain r where y: "y = year_of n" and r: "month_from y (n - days_before_year y) [1..<13] = (m, r)" and d: "d = r + 1"
    using assms by (auto simp: date_of_def Let_def split: prod.splits)
  have n: "days_before_year y \<le> n" "n < days_before_year (Suc y)" using year_of_correct [of n] y by simp_all
  then have "days_before_month y 1 + (n - days_before_year y) < days_before_month y 13"
    using year_length [of y] days_before_month_13 [of y] days_before_month_1 [of y] by (auto split: if_splits)
  from month_from_correct [OF r _ _ this]
  have m: "1 \<le> m" "m \<le> 12" "r < daysInMonth y m" "days_before_month y m + r = n - days_before_year y"
    using days_before_month_1 by simp_all
  have mono: "days_before_year k \<le> days_before_year y" if "k \<le> y" for k
    using that by (induction rule: dec_induct) (auto simp: year_length)
  have "y < k" if "n < days_before_year k" for k using that n mono [of k] by (metis leI le_less_trans less_irrefl order_trans)
  then show ?thesis using m d n by auto
qed

lemma number_of_zeros: "number_of (replicate k CHR ''0'' @ s) = number_of s"
proof -
  have "foldl (\<lambda>n c. 10 * n + digit_value c) 0 (replicate k CHR ''0'') = 0"
    by (induction k) (simp_all add: digit_value_def)
  then show ?thesis by (simp add: number_of_def)
qed

lemma pad_zeros_facts:
  assumes "n < 10 ^ k" "0 < k"
  shows "length (pad_zeros k n) = k" "list_all is_digit (pad_zeros k n)" "number_of (pad_zeros k n) = n"
proof -
  have "length (show_nat n) \<le> k" using assms by (rule show_nat_length)
  then show "length (pad_zeros k n) = k" by (simp add: pad_zeros_def)
  show "list_all is_digit (pad_zeros k n)"
  proof -
    have "is_digit CHR ''0''" by code_simp
    then show ?thesis using show_nat_digits [of n] by (auto simp: pad_zeros_def list_all_iff)
  qed
  show "number_of (pad_zeros k n) = n" by (simp add: pad_zeros_def number_of_zeros)
qed

lemma digits_pad: "n < 10 ^ k \<Longrightarrow> 0 < k \<Longrightarrow> digits k (pad_zeros k n @ s) = Some (n, s)"
  using pad_zeros_facts [of n k] by (simp add: digits_def)

lemma match_iso:
  assumes "y < 10 ^ 4" "m < 10 ^ 2" "d < 10 ^ 2" "h < 10 ^ 2" "mi < 10 ^ 2" "s < 10 ^ 2" "ms < 10 ^ 3"
  shows "match_send_at (pad_zeros 4 y @ ''-'' @ pad_zeros 2 m @ ''-'' @ pad_zeros 2 d @ ''T'' @ pad_zeros 2 h @ '':'' @
      pad_zeros 2 mi @ '':'' @ pad_zeros 2 s @ ''.'' @ pad_zeros 3 ms @ ''Z'') =
    Some \<lparr>f_year = y, f_month = m, f_day = d, f_hour = h, f_minute = mi, f_second = s, f_milli = ms, f_offset = None\<rparr>"
proof -
  have three: "takeWhile is_digit (pad_zeros 3 ms) = pad_zeros 3 ms"
    using pad_zeros_facts [of ms 3] assms(7) by (simp add: takeWhile_eq_all_conv list_all_iff)
  have "match_fraction (CHR ''.'' # pad_zeros 3 ms @ ''Z'') = Some (ms, ''Z'')"
    using pad_zeros_facts [of ms 3] assms(7) by (auto simp: match_fraction_def three Let_def)
  then have "match_seconds (CHR '':'' # pad_zeros 2 s @ CHR ''.'' # pad_zeros 3 ms @ ''Z'') = Some (s, ms, ''Z'')"
    using assms by (simp add: match_seconds_def digits_pad)
  then show ?thesis using assms by (simp add: match_send_at_def digits_pad match_offset_def)
qed

lemma mixed_radix: "c * 60 + x = b \<Longrightarrow> b * 60 + y = a \<Longrightarrow> a * 1000 + z = ms \<Longrightarrow> c * 3600000 + x * 60000 + y * 1000 + z = (ms :: nat)"
  by (auto simp: algebra_simps)

lemma time_fields: "ms div 3600000 * 3600000 + ms div 60000 mod 60 * 60000 + ms div 1000 mod 60 * 1000 + ms mod 1000 = (ms :: nat)"
proof (rule mixed_radix)
  have "ms div 60000 = ms div 1000 div 60" "ms div 3600000 = ms div 60000 div 60" by (simp_all flip: div_mult2_eq)
  then show "ms div 3600000 * 60 + ms div 60000 mod 60 = ms div 60000" "ms div 60000 * 60 + ms div 1000 mod 60 = ms div 1000"
    by (simp_all only: div_mult_mod_eq)
qed (rule div_mult_mod_eq)

definition YEAR_10000 :: int where "YEAR_10000 = 253402300800000"
definition YEAR_0 :: int where "YEAR_0 = - 62167219200000"

text \<open>
  Every instant in the years 0 to 9999 that the program writes as a date text is read back as the
  same instant: the fields of the text are those of the Gregorian calendar, to the millisecond.
\<close>

theorem written_date_reads_back:
  assumes "YEAR_0 \<le> t" "t < YEAR_10000"
  shows "Option.bind (match_send_at (toISOString t)) date_value = Some t"
proof -
  define days ms where "days = t div 86400000 + 719528" and "ms = nat (t mod 86400000)"
  have t: "t = (days - 719528) * 86400000 + int ms" and ms: "ms < 86400000"
    by (simp_all add: days_def ms_def)
  have "- 719528 \<le> t div 86400000"
    using zdiv_mono1 [OF assms(1), of 86400000] by (simp add: YEAR_0_def)
  moreover have "t div 86400000 < 2932897"
    using assms(2) by (simp add: YEAR_10000_def)
  ultimately have days: "0 \<le> days" "days < 25 * 146097" by (simp_all add: days_def)
  obtain y m d where ymd: "date_of (nat (days mod CYCLE_DAYS)) = (y, m, d)" by (cases "date_of (nat (days mod CYCLE_DAYS))")
  define q where "q = nat (days div CYCLE_DAYS)"
  have q: "days div CYCLE_DAYS = int q" "q < 25" using days by (simp_all add: q_def CYCLE_DAYS_def)
  note c = date_of_correct [OF ymd]
  have y: "y < 400"
  proof -
    have "nat (days mod CYCLE_DAYS) < days_before_year 400" by (simp add: CYCLE_DAYS_def days_before_year_def)
    then show ?thesis using c by blast
  qed
  let ?Y = "400 * q + y"
  have year: "year_text (400 * (days div CYCLE_DAYS) + int y) = pad_zeros 4 ?Y"
  proof -
    have "?Y \<le> 9999" using q y by linarith
    moreover have "400 * (days div CYCLE_DAYS) + int y = int ?Y" using q by simp
    ultimately show ?thesis unfolding year_text_def by (simp only: nat_int) simp
  qed
  have fields: "?Y < 10 ^ 4" "m < 10 ^ 2" "d < 10 ^ 2"
    using q y c by (auto simp: daysInMonth_def split: if_splits)
  have time: "ms div 3600000 < 10 ^ 2" "ms div 60000 mod 60 < 10 ^ 2" "ms div 1000 mod 60 < 10 ^ 2" "ms mod 1000 < 10 ^ 3"
    using ms by simp_all
  have m31: "daysInMonth y m \<le> 31" by (simp add: daysInMonth_def)
  have leap: "is_leap ?Y = is_leap y"
  proof -
    have "(400 * q + y) mod 4 = y mod 4" "(400 * q + y) mod 100 = y mod 100" "(400 * q + y) mod 400 = y mod 400"
      using mod_mult_self3 [of "100 * q" 4 y] mod_mult_self3 [of "4 * q" 100 y] mod_mult_self3 [of q 400 y]
      by (simp_all add: mult.commute)
    then show ?thesis by (simp add: is_leap_def)
  qed
  then have month: "days_before_month ?Y m = days_before_month y m"
    by (simp add: days_before_month_def daysInMonth_def cong: map_cong)
  note century = days_of_cycles [of q y]
  have "int (days_before_year y + days_before_month y m + d) = days mod CYCLE_DAYS + 1"
    using c by (simp add: CYCLE_DAYS_def)
  then have "day_number ?Y m d = days - 719528"
  proof -
    have "146097 * int q + days mod 146097 = days" 
      using mult_div_mod_eq [of 146097 days] unfolding q(1) [unfolded CYCLE_DAYS_def] .
    then show ?thesis using \<open>int _ = _\<close> by (simp add: day_number_def century month CYCLE_DAYS_def)
  qed
  moreover note time_fields [of ms]
  then have "int (ms div 3600000) * 3600000 + int (ms div 60000 mod 60) * 60000 + int (ms div 1000 mod 60) * 1000 + int (ms mod 1000) = int ms"
    by (metis (mono_tags, lifting) of_nat_add of_nat_mult of_nat_numeral)
  ultimately have "(day_number ?Y m d * 86400 + int (ms div 3600000) * 3600 + (int (ms div 60000 mod 60) - 0) * 60 + int (ms div 1000 mod 60)) * 1000 + int (ms mod 1000) = t"
    using t by (simp add: algebra_simps)
  then show ?thesis
    using c m31 unfolding toISOString_def Let_def days_def [symmetric] ms_def [symmetric] ymd prod.case year
    by (simp only: match_iso [OF fields time]) (simp add: date_value_def offset_minutes_def)
qed

theorem written_date_reads_back_witness: "Option.bind (match_send_at (toISOString 1709251199999)) date_value = Some 1709251199999"
  by (rule written_date_reads_back) (simp_all add: YEAR_0_def YEAR_10000_def)

end
