(* ===== verification/BodyText.thy ===== *)
theory BodyText
  imports EmailText HeaderText "HOL-Library.Sublist"
begin

text \<open>
  The rest of src/utils/email-body.ts: the body a caller asked for, with its length caps, and the decoding
  of the first octets of a MIME part. An octet is a character (the code works on \<open>latin1\<close> text as well).
  The lemmas show the caps, and that decoding a part cut at any octet gives a beginning of what the whole
  part decodes to.
\<close>

section \<open>Body formats\<close>

datatype bodyFormat = Full | PlainText | Stripped

text \<open>
  \<open>strip\<close> and \<open>sanitize\<close> are the two readings of an HTML part. The ellipsis and the long dash of the notes
  are one character each, written here as 0x85 and 0x97.
\<close>

definition note_remaining :: "nat \<Rightarrow> string" where
  [model_defs]: "note_remaining n =
     [LF, LF, CHR 0x85] @ '' ('' @ show_nat n @ '' more characters '' @ [CHR 0x97] @ '' increase maxLength to read the full body)''"

definition body_of :: "(string \<Rightarrow> string) \<Rightarrow> (string \<Rightarrow> string) \<Rightarrow> string option \<Rightarrow> string option \<Rightarrow> bodyFormat \<Rightarrow> string" where
  "body_of strip sanitize bodyText bodyHtml fmt =
     (case fmt of
        Full \<Rightarrow>
          (let plain = (case bodyText of Some t \<Rightarrow> if t \<noteq> [] \<and> \<not> looksLikeRawMime t then Some t else None | None \<Rightarrow> None) in
           case plain of Some t \<Rightarrow> t
           | None \<Rightarrow> (case bodyHtml of Some h \<Rightarrow> sanitize h | None \<Rightarrow> ''(no content)''))
      | _ \<Rightarrow>
          (let base0 = preferRicherPlain bodyText (case bodyHtml of Some h \<Rightarrow> strip h | None \<Rightarrow> []);
               base = (if base0 = [] then ''(no content)'' else base0)
           in if fmt = Stripped then stripReplyChain base else base))"

definition cap_body :: "string \<Rightarrow> nat option \<Rightarrow> string" where
  "cap_body body maxLength =
     (case maxLength of
        Some n \<Rightarrow> if n > 0 \<and> length body > n then take n body @ note_remaining (length body - n) else body
      | None \<Rightarrow> body)"

definition applyBodyFormat ::
  "(string \<Rightarrow> string) \<Rightarrow> (string \<Rightarrow> string) \<Rightarrow> string option \<Rightarrow> string option \<Rightarrow> bodyFormat \<Rightarrow> nat option \<Rightarrow> string" where
  "applyBodyFormat strip sanitize bodyText bodyHtml fmt maxLength =
     cap_body (body_of strip sanitize bodyText bodyHtml fmt) maxLength"

definition TRUNCATED_NOTE :: string where
  "TRUNCATED_NOTE = [LF, LF] @ ''[Truncated at '' @ show_nat DEFAULT_BODY_MAX_LENGTH @
     '' characters '' @ [CHR 0x97] @ '' pass a larger maxLength for the complete body]''"

definition applyBodyFormatWithDefaultCap ::
  "(string \<Rightarrow> string) \<Rightarrow> (string \<Rightarrow> string) \<Rightarrow> string option \<Rightarrow> string option \<Rightarrow> bodyFormat \<Rightarrow> nat option \<Rightarrow> string" where
  "applyBodyFormatWithDefaultCap strip sanitize bodyText bodyHtml fmt maxLength =
     (case maxLength of
        Some n \<Rightarrow> applyBodyFormat strip sanitize bodyText bodyHtml fmt (Some n)
      | None \<Rightarrow>
          (let formatted = applyBodyFormat strip sanitize bodyText bodyHtml fmt None in
           if length formatted > DEFAULT_BODY_MAX_LENGTH then take DEFAULT_BODY_MAX_LENGTH formatted @ TRUNCATED_NOTE
           else formatted))"

text \<open>A cap of zero is no cap: the whole body is returned.\<close>

lemma zero_cap_is_no_cap: "applyBodyFormatWithDefaultCap strip sanitize t h fmt (Some 0) = body_of strip sanitize t h fmt"
  by (simp add: applyBodyFormatWithDefaultCap_def applyBodyFormat_def cap_body_def)

section \<open>Quoted-printable\<close>

text \<open>The unfinished escape at the end: \<open>=\<close> alone, with one hexadecimal digit, or with a carriage return.\<close>

definition drop_cut_escape :: "string \<Rightarrow> string" where
  "drop_cut_escape s =
     (case rev s of
        [] \<Rightarrow> s
      | c # r \<Rightarrow>
          if c = CHR ''='' then rev r
          else (case r of
              [] \<Rightarrow> s
            | d # r' \<Rightarrow> if d = CHR ''='' \<and> (is_hex c \<or> c = CR) then rev r' else s))"

fun decode_escapes :: "string \<Rightarrow> string" where
  "decode_escapes [] = []"
| "decode_escapes (c # s) =
     (if c \<noteq> CHR ''='' then c # decode_escapes s
      else (case s of
          [] \<Rightarrow> [c]
        | a # r \<Rightarrow>
            if a = LF then decode_escapes r
            else (case r of
                [] \<Rightarrow> c # decode_escapes s
              | b # r' \<Rightarrow>
                  if a = CR \<and> b = LF then decode_escapes r'
                  else if is_hex a \<and> is_hex b then char_of (16 * hex_value a + hex_value b) # decode_escapes r'
                  else c # decode_escapes s)))"

definition decodeQuotedPrintablePrefix :: "string \<Rightarrow> string" where
  "decodeQuotedPrintablePrefix bytes = decode_escapes (drop_cut_escape bytes)"

section \<open>Base64\<close>

definition is_base64_char :: "char \<Rightarrow> bool" where
  [model_defs]: "is_base64_char c \<longleftrightarrow> is_upper c \<or> is_lower c \<or> is_digit c \<or> c \<in> set ''+/=''"

definition base64_value :: "char \<Rightarrow> nat" where
  "base64_value c =
     (if is_upper c then of_char c - 65 else if is_lower c then of_char c - 71
      else if is_digit c then of_char c + 4 else if c = CHR ''+'' then 62 else 63)"

definition octet :: "nat \<Rightarrow> char" where
  [model_defs]: "octet n = char_of n"

text \<open>The runtime's decoder: it reads up to the padding; two or three characters at the end carry one or two octets.\<close>

fun base64_groups :: "nat list \<Rightarrow> string" where
  "base64_groups (a # b # c # d # r) =
     octet (a * 4 + b div 16) # octet (b mod 16 * 16 + c div 4) # octet (c mod 4 * 64 + d) # base64_groups r"
| "base64_groups [a, b, c] = [octet (a * 4 + b div 16), octet (b mod 16 * 16 + c div 4)]"
| "base64_groups [a, b] = [octet (a * 4 + b div 16)]"
| "base64_groups _ = []"

definition base64_decode :: "string \<Rightarrow> string" where
  "base64_decode s = base64_groups (map base64_value (takeWhile (\<lambda>c. c \<noteq> CHR ''='') s))"

definition decodeBase64Prefix :: "string \<Rightarrow> string" where
  "decodeBase64Prefix bytes =
     (let data = filter is_base64_char bytes in base64_decode (take (length data - length data mod 4) data))"

text \<open>\<open>decode\<close> is the runtime's streaming text decoder for a charset.\<close>

definition decodePartPrefix :: "(string option \<Rightarrow> string \<Rightarrow> string) \<Rightarrow> string \<Rightarrow> string option \<Rightarrow> string option \<Rightarrow> string" where
  "decodePartPrefix decode bytes encoding charset =
     decode charset
       (if encoding = Some ''quoted-printable'' then decodeQuotedPrintablePrefix bytes
        else if encoding = Some ''base64'' then decodeBase64Prefix bytes else bytes)"

section \<open>Encoded parts\<close>

text \<open>What a sender may write in quoted-printable for a text (RFC 2045 section 6.7).\<close>

inductive qp_encodes :: "string \<Rightarrow> string \<Rightarrow> bool" where
  qp_end: "qp_encodes [] []"
| qp_plain: "c \<noteq> CHR ''='' \<Longrightarrow> qp_encodes e d \<Longrightarrow> qp_encodes (c # e) (c # d)"
| qp_escape: "is_hex a \<Longrightarrow> is_hex b \<Longrightarrow> qp_encodes e d \<Longrightarrow>
    qp_encodes (CHR ''='' # a # b # e) (char_of (16 * hex_value a + hex_value b) # d)"
| qp_soft: "qp_encodes e d \<Longrightarrow> qp_encodes (CHR ''='' # CR # LF # e) d"
| qp_soft_lf: "qp_encodes e d \<Longrightarrow> qp_encodes (CHR ''='' # LF # e) d"

lemma hex_not_break: "is_hex a \<Longrightarrow> a \<noteq> CHR ''='' \<and> a \<noteq> CR \<and> a \<noteq> LF"
  by (auto simp: is_hex_def is_digit_def CR_def LF_def less_eq_char_def)

text \<open>Reading a cut text from its front: an escape that is complete is never taken for a cut one.\<close>

lemma drop_cut_Cons: "length s \<ge> 2 \<or> (c \<noteq> CHR ''='' \<and> s \<noteq> []) \<Longrightarrow> drop_cut_escape (c # s) = c # drop_cut_escape s"
proof (cases "rev s")
  case (Cons x r)
  assume "length s \<ge> 2 \<or> (c \<noteq> CHR ''='' \<and> s \<noteq> [])"
  moreover have "s = rev r @ [x]" using Cons by (metis rev.simps(2) rev_rev_ident)
  ultimately show ?thesis using Cons by (cases r) (auto simp: drop_cut_escape_def)
qed auto

lemma drop_cut_Nil [simp]: "drop_cut_escape [] = []"
  by (simp add: drop_cut_escape_def)

lemma drop_cut_plain: "c \<noteq> CHR ''='' \<Longrightarrow> drop_cut_escape (c # s) = c # drop_cut_escape s"
  by (cases s) (simp_all add: drop_cut_Cons, simp add: drop_cut_escape_def)

lemma drop_cut_started:
  "drop_cut_escape [CHR ''=''] = []" "is_hex a \<or> a = CR \<Longrightarrow> drop_cut_escape [CHR ''='', a] = []"
  using hex_not_break [of a] by (auto simp: drop_cut_escape_def CR_def)

lemma drop_cut_complete:
  "is_hex a \<Longrightarrow> is_hex b \<Longrightarrow> drop_cut_escape (CHR ''='' # a # b # s) = CHR ''='' # a # b # drop_cut_escape s"
  "drop_cut_escape (CHR ''='' # CR # LF # s) = CHR ''='' # CR # LF # drop_cut_escape s"
  using hex_not_break [of a] hex_not_break [of b] by (simp_all add: drop_cut_Cons drop_cut_plain CR_def LF_def)

lemma drop_cut_soft_lf: "drop_cut_escape (CHR ''='' # LF # s) = CHR ''='' # LF # drop_cut_escape s"
proof (cases s)
  case Nil
  have "\<not> is_hex LF" "LF \<noteq> CR" "LF \<noteq> CHR ''=''" using hex_not_break [of LF] by (auto simp: LF_def CR_def)
  then show ?thesis using Nil by (simp add: drop_cut_escape_def)
next
  case (Cons x r)
  then show ?thesis by (simp add: drop_cut_Cons drop_cut_plain LF_def)
qed

lemma decode_steps:
  "c \<noteq> CHR ''='' \<Longrightarrow> decode_escapes (c # s) = c # decode_escapes s"
  "is_hex a \<Longrightarrow> is_hex b \<Longrightarrow> decode_escapes (CHR ''='' # a # b # s) = char_of (16 * hex_value a + hex_value b) # decode_escapes s"
  "decode_escapes (CHR ''='' # CR # LF # s) = decode_escapes s" "decode_escapes (CHR ''='' # LF # s) = decode_escapes s"
  by (auto dest: hex_not_break simp: CR_def LF_def)

lemma qp_cut:
  assumes "qp_encodes e d"
  shows "prefix (decodeQuotedPrintablePrefix (take k e)) d"
  using assms
proof (induction arbitrary: k rule: qp_encodes.induct)
  case qp_end
  then show ?case by (simp add: decodeQuotedPrintablePrefix_def)
next
  case (qp_plain c e d)
  then show ?case
    by (cases k) (simp_all add: decodeQuotedPrintablePrefix_def drop_cut_plain decode_steps del: decode_escapes.simps(2))
next
  case (qp_escape a b e d)
  consider "k = 0" | "k = 1" | "k = 2" | j where "k = Suc (Suc (Suc j))" by (metis One_nat_def Suc_1 not0_implies_Suc)
  then show ?case using qp_escape
    by cases (simp_all add: decodeQuotedPrintablePrefix_def drop_cut_started drop_cut_complete decode_steps numeral_2_eq_2 del: decode_escapes.simps(2))
next
  case (qp_soft e d)
  consider "k = 0" | "k = 1" | "k = 2" | j where "k = Suc (Suc (Suc j))" by (metis One_nat_def Suc_1 not0_implies_Suc)
  then show ?case using qp_soft
    by cases (simp_all add: decodeQuotedPrintablePrefix_def drop_cut_started drop_cut_complete decode_steps numeral_2_eq_2 del: decode_escapes.simps(2))
next
  case (qp_soft_lf e d)
  consider "k = 0" | "k = 1" | j where "k = Suc (Suc j)" by (metis One_nat_def not0_implies_Suc)
  then show ?case using qp_soft_lf
    by cases (simp_all add: decodeQuotedPrintablePrefix_def drop_cut_started drop_cut_soft_lf decode_steps del: decode_escapes.simps(2))
qed

lemma qp_whole: "qp_encodes e d \<Longrightarrow> decodeQuotedPrintablePrefix e = d"
proof (induction rule: qp_encodes.induct)
  case (qp_escape a b e d)
  then show ?case by (simp add: decodeQuotedPrintablePrefix_def drop_cut_complete decode_steps del: decode_escapes.simps(2))
next
  case qp_end
  then show ?case by (simp add: decodeQuotedPrintablePrefix_def)
qed (simp_all add: decodeQuotedPrintablePrefix_def drop_cut_plain drop_cut_complete drop_cut_soft_lf decode_steps del: decode_escapes.simps(2))

section \<open>Base64 parts\<close>

definition base64_char :: "nat \<Rightarrow> char" where
  "base64_char v = ((''ABCDEFGHIJKLMNOPQRSTUVWXYZabcdefghijklmnopqrstuvwxyz0123456789+/'') ! v)"

definition byte_of :: "char \<Rightarrow> nat" where [model_defs]: "byte_of c = of_char c"

fun base64_encode :: "string \<Rightarrow> string" where
  "base64_encode (x # y # z # r) =
     base64_char (byte_of x div 4) # base64_char (byte_of x mod 4 * 16 + byte_of y div 16) #
     base64_char (byte_of y mod 16 * 4 + byte_of z div 64) # base64_char (byte_of z mod 64) # base64_encode r"
| "base64_encode [x, y] =
     [base64_char (byte_of x div 4), base64_char (byte_of x mod 4 * 16 + byte_of y div 16), base64_char (byte_of y mod 16 * 4), CHR ''='']"
| "base64_encode [x] = [base64_char (byte_of x div 4), base64_char (byte_of x mod 4 * 16), CHR ''='', CHR ''='']"
| "base64_encode [] = []"

text \<open>The text form of a part: base64 with line breaks (or any other sign outside the alphabet) put in anywhere.\<close>

definition base64_lines :: "string \<Rightarrow> string \<Rightarrow> bool" where
  "base64_lines e d \<longleftrightarrow> filter is_base64_char e = base64_encode d"

lemma base64_char_facts:
  assumes "v < 64"
  shows "base64_value (base64_char v) = v \<and> is_base64_char (base64_char v) \<and> base64_char v \<noteq> CHR ''=''"
proof -
  have "list_all (\<lambda>v. base64_value (base64_char v) = v \<and> is_base64_char (base64_char v) \<and> base64_char v \<noteq> CHR ''='') [0..<64]"
    by code_simp
  then show ?thesis using assms by (simp add: list_all_iff)
qed

lemma byte_less: "byte_of c < 256"
  by (simp add: byte_of_def)

lemma octet_byte: "octet (byte_of c) = c"
  by (simp add: octet_def byte_of_def)

lemma group_arith:
  fixes x y z :: nat
  assumes "x < 256" "y < 256" "z < 256"
  shows "x div 4 < 64" "x mod 4 * 16 + y div 16 < 64" "y mod 16 * 4 + z div 64 < 64" "z mod 64 < 64" "x mod 4 * 16 < 64" "y mod 16 * 4 < 64"
    "x div 4 * 4 + (x mod 4 * 16 + y div 16) div 16 = x" "x div 4 * 4 + (x mod 4 * 16) div 16 = x"
    "(x mod 4 * 16 + y div 16) mod 16 * 16 + (y mod 16 * 4 + z div 64) div 4 = y"
    "(x mod 4 * 16 + y div 16) mod 16 * 16 + (y mod 16 * 4) div 4 = y"
    "(y mod 16 * 4 + z div 64) mod 4 * 64 + z mod 64 = z"
proof -
  have d: "x div 4 < 64" "y div 16 < 16" "z div 64 < 4" using assms by auto
  have m: "x mod 4 < 4" "y mod 16 < 16" "z mod 64 < 64" by simp_all
  show "x div 4 < 64" "x mod 4 * 16 + y div 16 < 64" "y mod 16 * 4 + z div 64 < 64" "z mod 64 < 64" "x mod 4 * 16 < 64" "y mod 16 * 4 < 64"
    using d m by linarith+
  have "(x mod 4 * 16 + y div 16) div 16 = x mod 4" "(x mod 4 * 16 + y div 16) mod 16 = y div 16"
    "(y mod 16 * 4 + z div 64) div 4 = y mod 16" "(y mod 16 * 4 + z div 64) mod 4 = z div 64"
    using d by simp_all
  then show "x div 4 * 4 + (x mod 4 * 16 + y div 16) div 16 = x" "x div 4 * 4 + (x mod 4 * 16) div 16 = x"
    "(x mod 4 * 16 + y div 16) mod 16 * 16 + (y mod 16 * 4 + z div 64) div 4 = y"
    "(x mod 4 * 16 + y div 16) mod 16 * 16 + (y mod 16 * 4) div 4 = y"
    "(y mod 16 * 4 + z div 64) mod 4 * 64 + z mod 64 = z"
    by (simp_all only: div_mult_mod_eq nonzero_mult_div_cancel_right [OF numeral_neq_zero])
qed

lemma byte_parts:
  "byte_of c div 16 div 16 = 0" "byte_of c div 16 mod 16 = byte_of c div 16" "byte_of c div 64 div 4 = 0" "byte_of c div 64 mod 4 = byte_of c div 64"
  using byte_less [of c] by simp_all

lemmas base64_simps = base64_decode_def byte_parts base64_char_facts group_arith [OF byte_less byte_less byte_less] octet_byte

lemma decode_groups: "base64_decode (take (4 * i) (base64_encode d)) = take (3 * i) d"
proof (induction d arbitrary: i rule: base64_encode.induct)
  case (1 x y z r)
  then show ?case
  proof (cases i)
    case (Suc j)
    have e: "4 * i = Suc (Suc (Suc (Suc (4 * j))))" "3 * i = Suc (Suc (Suc (3 * j)))" using Suc by simp_all
    show ?thesis unfolding e using 1 [of j] by (simp add: base64_simps)
  qed (simp add: base64_decode_def)
next
  case (2 x y)
  then show ?case by (cases i) (simp_all add: base64_simps)
next
  case (3 x)
  then show ?case by (cases i) (simp_all add: base64_simps)
qed (simp add: base64_decode_def)

lemma encode_length: "length (base64_encode d) = 4 * ((length d + 2) div 3)"
proof (induction d rule: base64_encode.induct)
  case (1 x y z r)
  have "(5 + length r) div 3 = Suc (Suc (Suc (length r)) div 3)" by presburger
  then show ?case using 1 by simp
qed simp_all

lemma base64_cut:
  assumes "base64_lines e d"
  shows "prefix (decodeBase64Prefix (take k e)) d" "decodeBase64Prefix e = d"
proof -
  have "filter is_base64_char e = filter is_base64_char (take k e) @ filter is_base64_char (drop k e)"
    by (metis append_take_drop_id filter_append)
  then obtain j where j: "filter is_base64_char (take k e) = take j (base64_encode d)"
    using assms unfolding base64_lines_def by (metis append_eq_conv_conj)
  define m where "m = length (take j (base64_encode d))"
  have "m - m mod 4 = 4 * (m div 4)" by (simp add: minus_mod_eq_mult_div)
  moreover have "m - m mod 4 \<le> j" unfolding m_def by simp
  ultimately have "decodeBase64Prefix (take k e) = base64_decode (take (4 * (m div 4)) (base64_encode d))"
    unfolding decodeBase64Prefix_def j Let_def m_def [symmetric] by (simp add: min_def)
  then show "prefix (decodeBase64Prefix (take k e)) d" by (simp add: decode_groups take_is_prefix)
  have "decodeBase64Prefix e = base64_decode (take (4 * ((length d + 2) div 3)) (base64_encode d))"
    using assms by (simp add: decodeBase64Prefix_def base64_lines_def encode_length)
  also have "\<dots> = d" unfolding decode_groups by simp
  finally show "decodeBase64Prefix e = d" .
qed



end
