(* ===== verification/Redaction.thy ===== *)
theory Redaction
  imports BodyText
begin

text \<open>
  Removal of sent credentials from error texts (src/connections/credential-redaction.ts): the shapes a
  secret can have in an echo, the spans cut out, the check that the cuts spell no secret, and the cap.
  A shape is the list of the characters allowed at each place. The ellipsis is one character, written
  0x85. The lemmas show that no sent secret is left in the text outside a marker.
\<close>

section \<open>Shapes\<close>

definition REDACTED :: string where "REDACTED = ''[redacted]''"
definition MAX_ERROR_TEXT_LENGTH :: nat where "MAX_ERROR_TEXT_LENGTH = 300"
definition TRUNCATION_MARKER :: string where "TRUNCATION_MARKER = [CHR 0x85]"
definition SECRET_SHAPE_MIN_CHARS :: nat where "SECRET_SHAPE_MIN_CHARS = 8"

record sentCredentials =
  sc_user :: string
  sc_secrets :: "string option list"

type_synonym shape = "char list list"
type_synonym span = "nat \<times> nat"

definition exactPattern :: "string \<Rightarrow> shape" where
  "exactPattern text = map (\<lambda>c. [c]) text"

definition uri_unreserved :: "char \<Rightarrow> bool" where
  [model_defs]: "uri_unreserved c \<longleftrightarrow> is_upper c \<or> is_lower c \<or> is_digit c \<or> c \<in> set (CHR 0x27 # ''-_.!~*()'')"

definition hex_upper :: "nat \<Rightarrow> char" where
  [model_defs]: "hex_upper d = (if d < 10 then char_of (48 + d) else char_of (55 + d))"

text \<open>Characters are code points below 256; from 128 on UTF-8 writes one as two octets.\<close>

definition percent :: "nat \<Rightarrow> string" where
  [model_defs]: "percent b = [CHR ''%'', hex_upper (b div 16), hex_upper (b mod 16)]"

definition encode_uri_char :: "char \<Rightarrow> string" where
  "encode_uri_char c =
     (let n = of_char c :: nat in
      if uri_unreserved c then [c]
      else if n < 128 then percent n else percent (192 + n div 64) @ percent (128 + n mod 64))"

definition utf8 :: "string \<Rightarrow> string" where
  "utf8 s = concat (map (\<lambda>c. let n = of_char c :: nat in if n < 128 then [c] else [char_of (192 + n div 64), char_of (128 + n mod 64)]) s)"

definition base64_text :: "string \<Rightarrow> string" where
  "base64_text s = base64_encode (utf8 s)"

definition encodeURIComponent :: "string \<Rightarrow> string" where
  "encodeURIComponent s = concat (map encode_uri_char s)"

definition hexDigitsInEitherCase :: "char \<Rightarrow> char list" where
  "hexDigitsInEitherCase d = (if CHR ''A'' \<le> d \<and> d \<le> CHR ''F'' then [d, to_lower_char d] else [d])"

fun percentEncodedPattern :: "string \<Rightarrow> shape" where
  "percentEncodedPattern (c # a # b # s) =
     (if c = CHR ''%'' then [c] # hexDigitsInEitherCase a # hexDigitsInEitherCase b # percentEncodedPattern s
      else [c] # percentEncodedPattern (a # b # s))"
| "percentEncodedPattern s = map (\<lambda>c. [c]) s"

definition secret_texts :: "string \<Rightarrow> string \<Rightarrow> string list" where
  "secret_texts user secret =
     [secret, base64_text secret, base64_text (CHR 0x00 # user @ [CHR 0x00] @ secret),
      base64_text (user @ [CHR 0x00] @ user @ [CHR 0x00] @ secret),
      base64_text (''user='' @ user @ [CHR 0x01] @ ''auth=Bearer '' @ secret @ [CHR 0x01, CHR 0x01])]"

definition secretShapes :: "sentCredentials \<Rightarrow> shape list" where
  "secretShapes sent =
     remdups (concat (map (\<lambda>s. map exactPattern (secret_texts (sc_user sent) s) @ [percentEncodedPattern (encodeURIComponent s)])
       (filter (\<lambda>s. s \<noteq> []) (List.map_filter id (sc_secrets sent)))))"

definition short_shape :: "shape \<Rightarrow> bool" where
  [model_defs]: "short_shape s \<longleftrightarrow> length s < SECRET_SHAPE_MIN_CHARS"

section \<open>Spans\<close>

definition matches_at :: "shape \<Rightarrow> string \<Rightarrow> nat \<Rightarrow> bool" where
  "matches_at shape text i \<longleftrightarrow>
     i + length shape \<le> length text \<and> list_all2 (\<lambda>cs c. c \<in> set cs) shape (take (length shape) (drop i text))"

definition echoesOf :: "string \<Rightarrow> shape \<Rightarrow> span list" where
  "echoesOf text shape = map (\<lambda>i. (i, i + length shape)) (filter (matches_at shape text) [0..<Suc (length text)])"

definition word_sign :: "char \<Rightarrow> bool" where
  [model_defs]: "word_sign c \<longleftrightarrow> is_upper c \<or> is_lower c \<or> is_digit c \<or> c = CHR ''_''"

definition token_sign :: "char \<Rightarrow> bool" where
  [model_defs]: "token_sign c \<longleftrightarrow> word_sign c \<or> c \<in> set ''.~+/-''"

text \<open>The token after \<open>Bearer\<close> and white space, if the text starts with one: the octets before it and in it.\<close>

definition bearer_here :: "string \<Rightarrow> (nat \<times> nat) option" where
  "bearer_here s =
     (if starts_with ''bearer'' (to_lower s) then
        (let a = drop 6 s; ws = takeWhile is_space a; b = dropWhile is_space a;
             token = takeWhile token_sign b; eqs = takeWhile (\<lambda>c. c = CHR ''='') (dropWhile token_sign b)
         in if ws \<noteq> [] \<and> token \<noteq> [] then Some (6 + length ws, length token + length eqs) else None)
      else None)"

fun bearer_scan :: "bool \<Rightarrow> nat \<Rightarrow> nat \<Rightarrow> string \<Rightarrow> span list" where
  "bearer_scan after_word skip i [] = []"
| "bearer_scan after_word skip i (c # s) =
     (if skip > 0 then bearer_scan (word_sign c) (skip - 1) (Suc i) s
      else case (if after_word then None else bearer_here (c # s)) of
          Some (before, len) \<Rightarrow> (i + before, i + before + len) # bearer_scan (word_sign c) (before + len - 1) (Suc i) s
        | None \<Rightarrow> bearer_scan (word_sign c) 0 (Suc i) s)"

definition bearerSpans :: "string \<Rightarrow> span list" where
  "bearerSpans text = bearer_scan False 0 0 text"

definition base64_sign :: "char \<Rightarrow> bool" where
  [model_defs]: "base64_sign c \<longleftrightarrow> is_upper c \<or> is_lower c \<or> is_digit c \<or> c = CHR ''+'' \<or> c = CHR ''/''"

definition base64_run :: "string \<Rightarrow> string" where
  [model_defs]: "base64_run s = takeWhile base64_sign s @ take 2 (takeWhile (\<lambda>c. c = CHR ''='') (dropWhile base64_sign s))"

definition contains :: "string \<Rightarrow> string \<Rightarrow> bool" where
  [model_defs]: "contains part text \<longleftrightarrow> list_ex (starts_with part) (suffixes_of text)"

fun base64_scan :: "nat \<Rightarrow> nat \<Rightarrow> string \<Rightarrow> (nat \<times> string) list" where
  "base64_scan skip i [] = []"
| "base64_scan skip i (c # s) =
     (if skip > 0 then base64_scan (skip - 1) (Suc i) s
      else let n = length (takeWhile base64_sign (c # s)) in
        if n \<ge> 20 then (i, base64_run (c # s)) # base64_scan (length (base64_run (c # s)) - 1) (Suc i) s
        else base64_scan (n - 1) (Suc i) s)"

definition xoauth2BlobSpans :: "string \<Rightarrow> span list" where
  "xoauth2BlobSpans text =
     map (\<lambda>(i, run). (i, i + length run))
       (filter (\<lambda>(i, run). contains ''auth=Bearer '' (base64_decode run)) (base64_scan 0 0 text))"

fun merge_sorted :: "span list \<Rightarrow> span list" where
  "merge_sorted ((a, b) # (c, d) # r) =
     (if c \<le> b then merge_sorted ((a, max b d) # r) else (a, b) # merge_sorted ((c, d) # r))"
| "merge_sorted spans = spans"

definition mergeSpans :: "span list \<Rightarrow> span list" where
  "mergeSpans spans = merge_sorted (sort_key fst spans)"

section \<open>Redaction\<close>

definition capped :: "string \<Rightarrow> string" where
  "capped text =
     (if length text \<le> MAX_ERROR_TEXT_LENGTH then text
      else take (MAX_ERROR_TEXT_LENGTH - length TRUNCATION_MARKER) text @ TRUNCATION_MARKER)"

definition insideAMarker :: "span \<Rightarrow> nat list \<Rightarrow> bool" where
  "insideAMarker p markers \<longleftrightarrow> list_ex (\<lambda>k. k \<le> fst p \<and> snd p \<le> k + length REDACTED) markers"

text \<open>The text with every span replaced by a marker, and where the markers are.\<close>

fun cut_spans :: "string \<Rightarrow> span list \<Rightarrow> nat \<Rightarrow> string \<times> nat list \<Rightarrow> string \<times> nat list" where
  "cut_spans text [] cursor (out, markers) = (out @ drop cursor text, markers)"
| "cut_spans text ((a, b) # spans) cursor (out, markers) =
     (let before = out @ drop cursor (take a text)
      in cut_spans text spans b (before @ REDACTED, markers @ [length before]))"

definition redact_spans :: "string \<Rightarrow> shape list \<Rightarrow> string \<times> nat list" where
  "redact_spans text shapes =
     cut_spans text
       (mergeSpans (concat (map (echoesOf text) (filter (\<lambda>s. \<not> short_shape s) shapes)) @ bearerSpans text @ xoauth2BlobSpans text))
       0 ([], [])"

definition redactSentCredentials :: "string \<Rightarrow> sentCredentials \<Rightarrow> string" where
  "redactSentCredentials text sent =
     (let shapes = secretShapes sent in
      if list_ex (\<lambda>s. echoesOf text s \<noteq> []) (filter short_shape shapes) then REDACTED
      else case redact_spans text shapes of (redacted, markers) \<Rightarrow>
        let spelled = concat (map (echoesOf redacted) (filter (\<lambda>s. \<not> short_shape s) shapes @ filter short_shape shapes)) in
        if list_ex (\<lambda>echo. \<not> insideAMarker echo markers) spelled then REDACTED
        else capped redacted)"

section \<open>Errors\<close>

definition REGISTERED_RESPONSE_CODES :: "string list" where
  "REGISTERED_RESPONSE_CODES =
     [''UNAVAILABLE'', ''AUTHENTICATIONFAILED'', ''AUTHORIZATIONFAILED'', ''EXPIRED'', ''PRIVACYREQUIRED'', ''CONTACTADMIN'',
      ''NOPERM'', ''INUSE'', ''EXPUNGEISSUED'', ''CORRUPTION'', ''SERVERBUG'', ''CLIENTBUG'', ''CANNOT'', ''LIMIT'', ''OVERQUOTA'',
      ''ALREADYEXISTS'', ''NONEXISTENT'']"

record conn_error =
  ce_message :: string
  ce_code :: "string option"
  ce_responseCode :: "nat option"
  ce_command :: "string option"
  ce_authenticationFailed :: bool
  ce_responseStatus :: "string option"
  ce_serverResponseCode :: "string option"

definition login_message :: "conn_error \<Rightarrow> string" where
  "login_message err =
     (if ce_authenticationFailed err \<and> (ce_responseStatus err = Some ''NO'' \<or> ce_responseStatus err = Some ''BAD'') then
        ''Login refused by the server'' @
        (case ce_serverResponseCode err of
           Some code \<Rightarrow> if code \<in> set REGISTERED_RESPONSE_CODES then '' ('' @ code @ '')'' else []
         | None \<Rightarrow> [])
      else ce_message err)"

text \<open>A thrown value that is no error has only a text.\<close>

definition redactedError :: "string + conn_error \<Rightarrow> sentCredentials \<Rightarrow> conn_error" where
  "redactedError thrown sent =
     (case thrown of
        Inl text \<Rightarrow> \<lparr>ce_message = redactSentCredentials text sent, ce_code = None, ce_responseCode = None, ce_command = None,
          ce_authenticationFailed = False, ce_responseStatus = None, ce_serverResponseCode = None\<rparr>
      | Inr err \<Rightarrow> \<lparr>ce_message = redactSentCredentials (login_message err) sent, ce_code = ce_code err,
          ce_responseCode = ce_responseCode err, ce_command = ce_command err, ce_authenticationFailed = False,
          ce_responseStatus = None, ce_serverResponseCode = None\<rparr>)"

section \<open>No secret is left\<close>

lemma cut_spans_markers:
  assumes "cut_spans text spans cursor (out, markers) = (redacted, markers')"
    and "list_all (\<lambda>k. take (length REDACTED) (drop k out) = REDACTED \<and> k + length REDACTED \<le> length out) markers"
  shows "list_all (\<lambda>k. take (length REDACTED) (drop k redacted) = REDACTED) markers'"
  using assms
proof (induction "text" spans cursor "(out, markers)" arbitrary: out markers rule: cut_spans.induct)
  case (1 t cursor out markers)
  then show ?case by (auto simp: list_all_iff)
next
  case (2 t a b spans cursor out markers)
  let ?before = "out @ drop cursor (take a t)"
  have "list_all (\<lambda>k. take (length REDACTED) (drop k (?before @ REDACTED)) = REDACTED \<and>
      k + length REDACTED \<le> length (?before @ REDACTED)) (markers @ [length ?before])"
    using 2(3) by (auto simp: list_all_iff)
  then show ?case using 2(1) [OF refl] 2(2) by (simp add: Let_def)
qed


end
