(* ===== verification/AuthHeaders.thy ===== *)
theory AuthHeaders
  imports MailArrival HeaderText
begin

text \<open>
  Sender authentication as the headers state it (src/utils/auth-headers.ts): the values of a header, the
  domain of an address, the results for SPF, DKIM and DMARC. The regular expressions are scans from left
  to right; a boundary is the start of the text, white space or a semicolon. The lemmas show that only
  the known result words come out, with clean domains.
\<close>

definition AUTH_CODES :: "string list" where
  "AUTH_CODES = [''pass'', ''fail'', ''softfail'', ''neutral'', ''none'', ''temperror'', ''permerror'']"

definition trim_end :: "string \<Rightarrow> string" where
  [model_defs]: "trim_end s = rev (dropWhile is_space (rev s))"

definition headerValues :: "string \<Rightarrow> string \<Rightarrow> string list" where
  "headerValues unfolded name =
     map (\<lambda>line. trim (tl (dropWhile (\<lambda>c. c \<noteq> CHR '':'') line)))
       (filter (\<lambda>line. starts_with (to_lower name @ '':'') (to_lower line)) (map trim_end (split_lines unfolded)))"

text \<open>The first \<open><...>\<close> with something in it.\<close>

fun angle_part :: "string \<Rightarrow> string option" where
  "angle_part [] = None"
| "angle_part (c # s) =
     (let run = takeWhile (\<lambda>x. x \<noteq> CHR ''>'') s in
      if c = CHR ''<'' \<and> run \<noteq> [] \<and> length run < length s then Some run else angle_part s)"

definition domainFromAddress :: "string option \<Rightarrow> string option" where
  "domainFromAddress value =
     (case value of
        None \<Rightarrow> None
      | Some v \<Rightarrow>
          if v = [] then None
          else
            (let raw = trim (case angle_part v of Some a \<Rightarrow> a | None \<Rightarrow> v);
                 addr = (if starts_with ''mailto:'' (to_lower raw) then drop 7 raw else raw)
             in case break_last CHR ''@'' addr of
                  None \<Rightarrow> None
                | Some (_, domain) \<Rightarrow> Some (to_lower (takeWhile (\<lambda>c. c \<noteq> CHR ''>'' \<and> c \<noteq> CHR '';'') domain))))"

definition parseAuthCode :: "string option \<Rightarrow> string option" where
  "parseAuthCode raw =
     (case raw of
        None \<Rightarrow> None
      | Some r \<Rightarrow> if r = [] then None else if to_lower r \<in> set AUTH_CODES then Some (to_lower r) else Some ''unknown'')"

definition boundary :: "char \<Rightarrow> bool" where
  [model_defs]: "boundary c \<longleftrightarrow> is_space c \<or> c = CHR '';''"

text \<open>The result word after \<open>method=\<close> at the start of a text, with the rest after it.\<close>

definition code_here :: "string \<Rightarrow> string \<Rightarrow> (string \<times> string) option" where
  "code_here mech s =
     (if starts_with (mech @ ''='') (to_lower s) then
        (let r = drop (Suc (length mech)) s in
         map_option (\<lambda>w. (take (length w) r, drop (length w) r)) (find (\<lambda>w. starts_with w (to_lower r)) AUTH_CODES))
      else None)"

fun find_code :: "string \<Rightarrow> bool \<Rightarrow> string \<Rightarrow> (string \<times> string) option" where
  "find_code mech free [] = None"
| "find_code mech free (c # s) =
     (case (if free then code_here mech (c # s) else None) of
        Some m \<Rightarrow> Some m
      | None \<Rightarrow> find_code mech (boundary c) s)"

definition parseMethod :: "string \<Rightarrow> string \<Rightarrow> string option" where
  "parseMethod resultsBlock mech = parseAuthCode (map_option fst (find_code mech True resultsBlock))"

text \<open>The first \<open>key\<close> with a value of signs other than white space and semicolons.\<close>

fun value_after :: "string \<Rightarrow> bool \<Rightarrow> bool \<Rightarrow> string \<Rightarrow> string option" where
  "value_after key anywhere free [] = None"
| "value_after key anywhere free (c # s) =
     (let v = takeWhile (\<lambda>x. \<not> boundary x) (drop (length key) (c # s)) in
      if (free \<or> anywhere) \<and> starts_with key (to_lower (c # s)) \<and> v \<noteq> [] then Some v
      else value_after key anywhere (boundary c) s)"

definition dkim_domain :: "string \<Rightarrow> string option" where
  "dkim_domain block =
     map_option to_lower
       (case value_after ''header.d='' True True block of Some d \<Rightarrow> Some d | None \<Rightarrow> value_after ''d='' True True block)"

lemma find_code_shorter: "find_code mech free s = Some (w, r) \<Longrightarrow> length r < length s"
proof (induction mech free s rule: find_code.induct)
  case (2 mech free c s)
  then show ?case
    by (auto simp: code_here_def Let_def find_Some_iff split: option.splits if_splits)
qed simp

function dkim_from :: "bool \<Rightarrow> string \<Rightarrow> dkimResult list" where
  "dkim_from free s =
     (case find_code ''dkim'' free s of
        None \<Rightarrow> []
      | Some (w, r) \<Rightarrow>
          \<lparr>dk_result = (case parseAuthCode (Some w) of Some c \<Rightarrow> c | None \<Rightarrow> ''unknown''),
           dk_domain = dkim_domain (takeWhile (\<lambda>c. c \<noteq> CHR '';'') r)\<rparr> #
          dkim_from False (dropWhile (\<lambda>c. c \<noteq> CHR '';'') r))"
  by pat_completeness auto
termination
  by (relation "measure (\<lambda>(free, s). length s)") (auto dest!: find_code_shorter intro: le_less_trans [OF length_dropWhile_le])

declare dkim_from.simps [simp del]

definition parseDkim :: "string \<Rightarrow> dkimResult list" where
  "parseDkim resultsBlock = dkim_from True resultsBlock"

definition parseDkimSignatureDomains :: "string \<Rightarrow> string list" where
  "parseDkimSignatureDomains unfolded =
     List.map_filter (\<lambda>v. map_option to_lower (value_after ''d='' False True v)) (headerValues unfolded ''DKIM-Signature'')"

definition first_value :: "string list \<Rightarrow> string option" where
  [model_defs]: "first_value vs = (case vs of [] \<Rightarrow> None | v # _ \<Rightarrow> Some v)"

definition parseSenderAuth :: "string \<Rightarrow> authSignals" where
  "parseSenderAuth rawHeaders =
     (let unfolded = unfoldHeaders rawHeaders;
          authResults = join_with ''; '' (headerValues unfolded ''Authentication-Results'');
          dkimFromAuth = parseDkim authResults
      in \<lparr>au_fromDomain = domainFromAddress (first_value (headerValues unfolded ''From'')),
          au_replyToDomain = domainFromAddress (first_value (headerValues unfolded ''Reply-To'')),
          au_returnPathDomain = domainFromAddress (first_value (headerValues unfolded ''Return-Path'')),
          au_spf = parseMethod authResults ''spf'',
          au_dkim = (if dkimFromAuth \<noteq> [] then dkimFromAuth
                     else map (\<lambda>d. \<lparr>dk_result = ''unknown'', dk_domain = Some d\<rparr>) (parseDkimSignatureDomains unfolded)),
          au_dmarc = parseMethod authResults ''dmarc'',
          au_hasListUnsubscribe = (headerValues unfolded ''List-Unsubscribe'' \<noteq> []),
          au_hasListUnsubscribePost = (headerValues unfolded ''List-Unsubscribe-Post'' \<noteq> [])\<rparr>)"

section \<open>The results are of the declared types\<close>

lemma to_lower_idem: "to_lower (to_lower s) = to_lower s"
proof -
  have "to_lower_char (to_lower_char c) = to_lower_char c" for c
    by (cases c rule: char.exhaust) (auto simp: to_lower_char_def less_eq_char_def)
  then show ?thesis by (simp add: to_lower_def)
qed

lemma to_lower_set: "x \<in> set (to_lower s) \<Longrightarrow> x \<in> set s \<or> (CHR ''a'' \<le> x \<and> x \<le> CHR ''z'')"
proof -
  have "to_lower_char c = c \<or> (CHR ''a'' \<le> to_lower_char c \<and> to_lower_char c \<le> CHR ''z'')" for c
    by (cases c rule: char.exhaust) (auto simp: to_lower_char_def less_eq_char_def)
  then show "x \<in> set (to_lower s) \<Longrightarrow> ?thesis" by (auto simp: to_lower_def) (metis imageI)+
qed

lemma letters_plain: "CHR ''a'' \<le> x \<Longrightarrow> x \<le> CHR ''z'' \<Longrightarrow> \<not> boundary x \<and> x \<noteq> CHR ''>'' \<and> x \<noteq> CHR ''@''"
  by (auto simp: boundary_def is_space_def less_eq_char_def)

definition known_result :: "string \<Rightarrow> bool" where
  "known_result r \<longleftrightarrow> r \<in> set AUTH_CODES \<or> r = ''unknown''"

definition dkim_typed :: "dkimResult \<Rightarrow> bool" where
  "dkim_typed d \<longleftrightarrow> known_result (dk_result d) \<and>
     (case dk_domain d of None \<Rightarrow> True | Some n \<Rightarrow> n \<noteq> [] \<and> to_lower n = n \<and> list_all (\<lambda>c. \<not> boundary c) n)"

definition domain_typed :: "string option \<Rightarrow> bool" where
  "domain_typed d = (case d of None \<Rightarrow> True
     | Some n \<Rightarrow> to_lower n = n \<and> list_all (\<lambda>c. c \<noteq> CHR ''>'' \<and> c \<noteq> CHR '';'' \<and> c \<noteq> CHR ''@'') n)"

definition code_typed :: "string option \<Rightarrow> bool" where
  "code_typed r = (case r of None \<Rightarrow> True | Some c \<Rightarrow> c \<in> set AUTH_CODES)"

lemma break_last_no_sep: "break_last c s = Some (a, b) \<Longrightarrow> c \<notin> set b"
  by (auto simp: break_last_def Let_def dest: set_takeWhileD split: if_splits)

lemma domain_address_typed: "domain_typed (domainFromAddress v)"
  using letters_plain
  by (fastforce simp: domain_typed_def domainFromAddress_def Let_def to_lower_idem list_all_iff boundary_def
      dest!: to_lower_set set_takeWhileD break_last_no_sep split: option.split)

lemma value_after_clean: "value_after key anywhere free s = Some v \<Longrightarrow> v \<noteq> [] \<and> list_all (\<lambda>c. \<not> boundary c) v"
  by (induction key anywhere free s rule: value_after.induct)
    (auto simp: Let_def list_all_iff simp del: drop_Cons' dest: set_takeWhileD split: if_splits)

lemma lower_clean: "v \<noteq> [] \<Longrightarrow> list_all (\<lambda>c. \<not> boundary c) v \<Longrightarrow>
    to_lower v \<noteq> [] \<and> to_lower (to_lower v) = to_lower v \<and> list_all (\<lambda>c. \<not> boundary c) (to_lower v)"
  using letters_plain by (auto simp: list_all_iff to_lower_idem dest: to_lower_set) (simp add: to_lower_def)

lemma code_here_known: "code_here m s = Some (w, r) \<Longrightarrow> to_lower w \<in> set AUTH_CODES"
  by (auto simp: code_here_def Let_def find_Some_iff starts_with_def to_lower_def take_map split: if_splits)

lemma find_code_known: "find_code m free s = Some (w, r) \<Longrightarrow> to_lower w \<in> set AUTH_CODES"
  by (induction m free s rule: find_code.induct) (auto dest: code_here_known split: option.splits if_splits)

lemma method_typed: "code_typed (parseMethod b m)"
  by (auto simp: code_typed_def parseMethod_def parseAuthCode_def dest: find_code_known split: option.split)

lemma dkim_from_typed: "list_all dkim_typed (dkim_from free s)"
proof (induction free s rule: dkim_from.induct)
  case (1 free s)
  show ?case
  proof (cases "find_code ''dkim'' free s")
    case None
    then show ?thesis by (simp add: dkim_from.simps [of free s])
  next
    case (Some p)
    then obtain w r where p: "find_code ''dkim'' free s = Some (w, r)" by (cases p) simp
    have "dkim_typed \<lparr>dk_result = (case parseAuthCode (Some w) of Some c \<Rightarrow> c | None \<Rightarrow> ''unknown''), dk_domain = dkim_domain b\<rparr>" for b
      using lower_clean by (auto simp: dkim_typed_def known_result_def parseAuthCode_def dkim_domain_def dest!: value_after_clean split: option.split)
    then show ?thesis using 1 [OF p refl] p by (simp add: dkim_from.simps [of free s])
  qed
qed


text \<open>
  A header that the sender wrote counts like one of the receiving server: nothing compares the name of the
  server that \<open>Authentication-Results\<close> starts with.
\<close>

definition forged_headers :: string where
  "forged_headers = ''Authentication-Results:me;spf=pass''"

lemma after_break_plain: "LF \<notin> set s \<Longrightarrow> after_break s = None"
  by (cases s; cases "tl s") (auto simp: after_break_def)

lemma unfold_plain: "LF \<notin> set s \<Longrightarrow> unfoldHeaders s = s"
  by (induction s) (simp_all add: unfoldHeaders.simps after_fold_def after_break_plain)

lemma split_plain: "LF \<notin> set s \<Longrightarrow> split_lines s = [s]"
  by (induction s) (simp_all add: split_lines.simps after_break_plain)

lemma forged_results_believed: "au_spf (parseSenderAuth forged_headers) = Some ''pass''"
proof -
  have plain: "LF \<notin> set forged_headers" by code_simp
  have "filter (\<lambda>line. starts_with (to_lower ''Authentication-Results'' @ '':'') (to_lower line)) [trim_end forged_headers] = [forged_headers]"
    "trim (tl (dropWhile (\<lambda>c. c \<noteq> CHR '':'') forged_headers)) = ''me;spf=pass''" by code_simp+
  then have "headerValues forged_headers ''Authentication-Results'' = [''me;spf=pass'']"
    by (simp add: headerValues_def split_plain [OF plain])
  moreover have "parseMethod ''me;spf=pass'' ''spf'' = Some ''pass''" by code_simp
  ultimately show ?thesis by (simp add: parseSenderAuth_def Let_def unfold_plain [OF plain])
qed

end
