(* ===== verification/Outgoing.thy ===== *)
theory Outgoing
  imports LocalPaths BodyText
begin

text \<open>
  Attachments of outgoing mail (src/services/outgoing-attachments.ts): from a local file, from base64 or
  from a part of an existing message, with one cap for each and for all together. The file system is an
  environment: the real path of a path, the regular file behind a real path with the size it states, and
  what each read returns. The lemmas show the cap, the names, and which local files can be read.
\<close>

definition MAX_OUTGOING_ATTACHMENT_BYTES :: nat where "MAX_OUTGOING_ATTACHMENT_BYTES = 50 * 1024 * 1024"

record outgoingAttachment =
  og_filename :: "string option"
  og_path :: "string option"
  og_base64 :: "string option"
  og_contentType :: "string option"
  og_emailId :: "string option"
  og_mailbox :: "string option"

record resolvedAttachment =
  ra_filename :: string
  ra_content :: string
  ra_contentType :: "string option"

datatype attach_error =
    SizeOver nat | NotALocalFile | AttachPathNotAllowed | NotARegularFile | NoSource | FetchFailed string

text \<open>\<open>fe_open\<close>: \<open>None\<close> when the open fails, else whether it is a regular file and its size. \<open>fe_read\<close>: what a read at an offset returns.\<close>

record file_env =
  fe_cwd :: string
  fe_home :: string
  fe_realpath :: "string \<Rightarrow> string option"
  fe_open :: "string \<Rightarrow> (bool \<times> nat) option"
  fe_read :: "string \<Rightarrow> nat \<Rightarrow> string"
  fe_download :: "(string \<Rightarrow> string \<Rightarrow> string \<Rightarrow> nat \<Rightarrow> string + (string \<times> string \<times> string)) option"

definition assertSize :: "nat \<Rightarrow> nat \<Rightarrow> attach_error + unit" where
  [model_defs]: "assertSize n maxBytes = (if n > maxBytes then Inl (SizeOver maxBytes) else Inr ())"

definition odd_name :: "string \<Rightarrow> bool" where
  [model_defs]: "odd_name n \<longleftrightarrow> n = [] \<or> n = ''.'' \<or> n = ''..''"

definition safeFilename :: "string option \<Rightarrow> string \<Rightarrow> string" where
  "safeFilename name fallback =
     (let raw = trim (filter (\<lambda>c. c \<noteq> CR \<and> c \<noteq> LF \<and> c \<noteq> CHR 0x00) (case name of None \<Rightarrow> [] | Some n \<Rightarrow> n));
          base = posix_basename (slashes raw); fallbackBase = posix_basename (slashes fallback)
      in if \<not> odd_name base then base else if odd_name fallbackBase then ''attachment'' else fallbackBase)"

definition URL_SCHEMES :: "string list" where
  "URL_SCHEMES = [''http:'', ''https:'', ''file:'', ''data:'', ''ftp:'', ''ftps:'', ''mailto:'', ''sftp:'']"

definition isRemoteOrFileUrl :: "string \<Rightarrow> bool" where
  "isRemoteOrFileUrl v \<longleftrightarrow>
     starts_with ''//'' v \<or> starts_with [CHR 0x5C, CHR 0x5C] v \<or>
     list_ex (\<lambda>s. starts_with s (to_lower (slashes v))) URL_SCHEMES"

definition expandHome :: "string \<Rightarrow> string \<Rightarrow> attach_error + string" where
  "expandHome input homeDir =
     (if input = ''~'' then Inr homeDir
      else if starts_with ''~/'' input \<or> starts_with [CHR ''~'', CHR 0x5C] input
        then Inr (posix_normalize (homeDir @ ''/'' @ drop 2 input))
      else if starts_with ''~'' input then Inl NotALocalFile
      else Inr input)"

text \<open>Short reads are repeated until the size is reached or a read returns nothing.\<close>

function readExact :: "(nat \<Rightarrow> string) \<Rightarrow> nat \<Rightarrow> nat \<Rightarrow> string" where
  "readExact chunk_at offset len =
     (let chunk = take (len - offset) (chunk_at offset) in
      if offset < len \<and> chunk \<noteq> [] then chunk @ readExact chunk_at (offset + length chunk) len else [])"
  by pat_completeness auto
termination
  by (relation "measure (\<lambda>(chunk_at, offset, len). len - offset)") (auto simp: min_def intro!: diff_less_mono2)

declare readExact.simps [simp del]

definition readLocalFile :: "file_env \<Rightarrow> string \<Rightarrow> nat \<Rightarrow> attach_error + (string \<times> string)" where
  "readLocalFile F filePath maxBytes =
     (let trimmed = trim filePath; cwdRoot = resolve_path (fe_cwd F) (fe_cwd F); homeDir = resolve_path (fe_cwd F) (fe_home F) in
      if trimmed = [] \<or> CHR 0x00 \<in> set trimmed \<or> isRemoteOrFileUrl trimmed then Inl NotALocalFile
      else if hiddenSegment trimmed then Inl AttachPathNotAllowed
      else bindE (expandHome trimmed homeDir) (\<lambda>expanded.
        let resolved = resolve_path cwdRoot expanded in
        if isDisallowedLocalPath (fe_cwd F) resolved homeDir then Inl AttachPathNotAllowed
        else let roots = specificRoots (fe_realpath F) cwdRoot homeDir; homeReal = resolvedHome (fe_realpath F) homeDir in
          (case fe_realpath F resolved of
             None \<Rightarrow> Inl AttachPathNotAllowed
           | Some canon \<Rightarrow>
               (case assertAllowedLocalPath (fe_cwd F) canon roots homeReal of
                  Inl _ \<Rightarrow> Inl AttachPathNotAllowed
                | Inr _ \<Rightarrow>
                    (case fe_open F canon of
                       None \<Rightarrow> Inl AttachPathNotAllowed
                     | Some (isFile, len) \<Rightarrow>
                         if \<not> isFile then Inl NotARegularFile
                         else bindE (assertSize len maxBytes) (\<lambda>_.
                           let content = readExact (fe_read F canon) 0 len in
                           if length content \<noteq> len then Inl AttachPathNotAllowed
                           else Inr (safeFilename None (posix_basename resolved), content)))))))"

definition decode_limit :: "nat \<Rightarrow> nat" where
  [model_defs]: "decode_limit maxBytes = (maxBytes + 2) div 3 * 4 + 4"

definition decodeBase64 :: "string \<Rightarrow> nat \<Rightarrow> attach_error + string" where
  "decodeBase64 v maxBytes =
     (if length v > decode_limit maxBytes then Inl (SizeOver maxBytes)
      else let buf = base64_decode (filter is_base64_char v) in bindE (assertSize (length buf) maxBytes) (\<lambda>_. Inr buf))"

definition resolveOne :: "file_env \<Rightarrow> outgoingAttachment \<Rightarrow> nat \<Rightarrow> attach_error + resolvedAttachment option" where
  "resolveOne F att maxBytes =
     (let some = (\<lambda>field. case field att of Some s \<Rightarrow> if s \<noteq> [] then Some s else None | None \<Rightarrow> None) in
      case some og_path of
        Some p \<Rightarrow>
          bindE (readLocalFile F p maxBytes) (\<lambda>(name, content).
            Inr (Some \<lparr>ra_filename = safeFilename (og_filename att) name, ra_content = content, ra_contentType = og_contentType att\<rparr>))
      | None \<Rightarrow>
          (case some og_base64 of
             Some b \<Rightarrow>
               bindE (decodeBase64 b maxBytes) (\<lambda>content.
                 Inr (Some \<lparr>ra_filename = safeFilename (og_filename att) ''attachment'', ra_content = content, ra_contentType = og_contentType att\<rparr>))
           | None \<Rightarrow>
               (case (some og_emailId, some og_filename) of
                  (Some i, Some f) \<Rightarrow>
                    (case fe_download F of
                       None \<Rightarrow> Inr None
                     | Some download \<Rightarrow>
                         (case download i (case og_mailbox att of None \<Rightarrow> ''INBOX'' | Some m \<Rightarrow> m) f maxBytes of
                            Inl e \<Rightarrow> Inl (FetchFailed e)
                          | Inr (name, mime, b) \<Rightarrow>
                              bindE (decodeBase64 b maxBytes) (\<lambda>content.
                                Inr (Some \<lparr>ra_filename = safeFilename (Some name) f, ra_content = content, ra_contentType = Some mime\<rparr>))))
                | _ \<Rightarrow> Inl NoSource)))"

fun resolve_all :: "file_env \<Rightarrow> nat \<Rightarrow> nat \<Rightarrow> outgoingAttachment list \<Rightarrow> attach_error + resolvedAttachment list" where
  "resolve_all F maxBytes used [] = Inr []"
| "resolve_all F maxBytes used (att # atts) =
     bindE (resolveOne F att maxBytes) (\<lambda>part.
       case part of
         None \<Rightarrow> resolve_all F maxBytes used atts
       | Some p \<Rightarrow>
           (let used' = used + length (ra_content p) in
            bindE (assertSize used' maxBytes) (\<lambda>_.
            bindE (resolve_all F maxBytes used' atts) (\<lambda>parts. Inr (p # parts)))))"

definition resolveOutgoingAttachments ::
  "file_env \<Rightarrow> outgoingAttachment list option \<Rightarrow> nat option \<Rightarrow> attach_error + resolvedAttachment list" where
  "resolveOutgoingAttachments F attachments maxBytes =
     (case attachments of
        None \<Rightarrow> Inr []
      | Some atts \<Rightarrow> resolve_all F (case maxBytes of None \<Rightarrow> MAX_OUTGOING_ATTACHMENT_BYTES | Some n \<Rightarrow> n) 0 atts)"

section \<open>Facts\<close>

definition bare_name :: "string \<Rightarrow> bool" where
  "bare_name n \<longleftrightarrow> n \<notin> {[], ''.'', ''..''} \<and> CHR ''/'' \<notin> set n \<and> CHR 0x5C \<notin> set n"

lemma basename_set: "x \<in> set (posix_basename s) \<Longrightarrow> x \<in> set s \<and> x \<noteq> CHR ''/''"
  by (auto simp: posix_basename_def Let_def dest!: set_takeWhileD dest: set_dropWhileD)

lemma slashes_set: "CHR 0x5C \<notin> set (slashes s)"
  by (auto simp: slashes_def)

lemma basename_bare: "\<not> odd_name (posix_basename (slashes x)) \<Longrightarrow> bare_name (posix_basename (slashes x))"
proof -
  assume "\<not> odd_name (posix_basename (slashes x))"
  moreover have "CHR ''/'' \<notin> set (posix_basename (slashes x))" "CHR 0x5C \<notin> set (posix_basename (slashes x))"
    by (blast dest: basename_set, meson basename_set slashes_set)
  ultimately show ?thesis by (simp add: bare_name_def odd_name_def)
qed

lemma safeFilename_bare: "bare_name (safeFilename name fallback)"
proof -
  have "bare_name ''attachment''" by code_simp
  then show ?thesis using basename_bare by (simp add: safeFilename_def Let_def)
qed

lemma resolveOne_facts: "resolveOne F att m = Inr (Some p) \<Longrightarrow> bare_name (ra_filename p)"
  by (auto simp: resolveOne_def Let_def bindE_Inr_iff safeFilename_bare split: option.splits if_splits sum.splits prod.splits)

lemma resolve_all_facts:
  "resolve_all F m used atts = Inr parts \<Longrightarrow> used \<le> m \<Longrightarrow>
   used + sum_list (map (length \<circ> ra_content) parts) \<le> m \<and> list_all (\<lambda>p. bare_name (ra_filename p)) parts"
proof (induction atts arbitrary: used parts)
  case (Cons att atts)
  then obtain part where p: "resolveOne F att m = Inr part" by (auto simp: bindE_Inr_iff)
  show ?case
  proof (cases part)
    case None
    then show ?thesis using Cons p by simp
  next
    case (Some q)
    then obtain rest where r: "used + length (ra_content q) \<le> m" "resolve_all F m (used + length (ra_content q)) atts = Inr rest" "parts = q # rest"
      using Cons.prems p by (auto simp: bindE_Inr_iff assertSize_def Let_def split: if_splits)
    then show ?thesis using Cons.IH [OF r(2,1)] resolveOne_facts p Some by (auto simp: add.assoc)
  qed
qed simp

text \<open>
  The attachments of one message that are accepted have at most the cap in octets all together, and
  each has a bare file name: not empty, no directory part, not a dot name.
\<close>

theorem attachments_capped_and_bare:
  "case resolveOutgoingAttachments F atts (Some m) of
     Inl _ \<Rightarrow> True
   | Inr parts \<Rightarrow> sum_list (map (length \<circ> ra_content) parts) \<le> m \<and> list_all (\<lambda>p. bare_name (ra_filename p)) parts"
  using resolve_all_facts [of F m 0] by (auto simp: resolveOutgoingAttachments_def split: sum.split option.split)

text \<open>A name taken from the file itself keeps its line breaks, which are removed only from a given name.\<close>

lemma fallback_keeps_line_breaks: "safeFilename None [CHR ''a'', CR, LF, CHR ''b''] = [CHR ''a'', CR, LF, CHR ''b'']"
  by code_simp

section \<open>Which files are read\<close>

text \<open>The file read for a path: the real path that passed the rules for local paths.\<close>

definition readable_path :: "file_env \<Rightarrow> string \<Rightarrow> bool" where
  "readable_path F p \<longleftrightarrow>
     (let cwdRoot = resolve_path (fe_cwd F) (fe_cwd F); homeDir = resolve_path (fe_cwd F) (fe_home F) in
      assertAllowedLocalPath (fe_cwd F) p (specificRoots (fe_realpath F) cwdRoot homeDir) (resolvedHome (fe_realpath F) homeDir) = Inr ())"

definition same_where_readable :: "file_env \<Rightarrow> file_env \<Rightarrow> bool" where
  "same_where_readable F G \<longleftrightarrow>
     fe_cwd G = fe_cwd F \<and> fe_home G = fe_home F \<and> fe_realpath G = fe_realpath F \<and> fe_download G = fe_download F \<and>
     (\<forall>p. readable_path F p \<longrightarrow> fe_open G p = fe_open F p \<and> fe_read G p = fe_read F p)"

lemma readLocalFile_same:
  assumes "same_where_readable F G"
  shows "readLocalFile G p m = readLocalFile F p m"
proof -
  have e: "fe_cwd G = fe_cwd F" "fe_home G = fe_home F" "fe_realpath G = fe_realpath F"
    and c: "\<And>q. readable_path F q \<Longrightarrow> fe_open G q = fe_open F q \<and> fe_read G q = fe_read F q"
    using assms by (auto simp: same_where_readable_def)
  show ?thesis
    unfolding readLocalFile_def e Let_def
    using c unfolding readable_path_def Let_def
    by (intro if_cong refl arg_cong [where f = "bindE _"] ext) (auto split: option.split sum.split)
qed

lemma resolve_all_same: "same_where_readable F G \<Longrightarrow> resolve_all G m t atts = resolve_all F m t atts"
proof (induction atts arbitrary: t)
  case (Cons att atts)
  have "fe_download G = fe_download F" using Cons.prems by (simp add: same_where_readable_def)
  then have "resolveOne G att m = resolveOne F att m"
    unfolding resolveOne_def by (simp add: readLocalFile_same [OF Cons.prems] cong: option.case_cong)
  then show ?case using Cons by (simp add: fun_eq_iff cong: option.case_cong)
qed simp

text \<open>
  C15: nothing but the files the path rules allow can reach an outgoing message: two file systems that agree
  on the real paths and on the contents of the allowed files give the same attachments, whatever the other
  files hold.
\<close>

theorem only_allowed_files_attached:
  assumes "same_where_readable F G"
  shows "resolveOutgoingAttachments G atts m = resolveOutgoingAttachments F atts m"
  using assms by (simp add: resolveOutgoingAttachments_def resolve_all_same split: option.split)

definition sample_files :: file_env where
  "sample_files = \<lparr>fe_cwd = ''/work/mail'', fe_home = ''/home/me'', fe_realpath = Some,
     fe_open = (\<lambda>p. Some (True, 2)), fe_read = (\<lambda>p n. drop n ''hi''), fe_download = None\<rparr>"

definition sample_attachment :: outgoingAttachment where
  "sample_attachment = \<lparr>og_filename = None, og_path = Some ''a.txt'', og_base64 = None, og_contentType = None,
     og_emailId = None, og_mailbox = None\<rparr>"

lemma passwd_not_readable: "\<not> readable_path sample_files ''/etc/passwd''"
  by code_simp

theorem only_allowed_files_attached_witness:
  "resolveOutgoingAttachments (sample_files\<lparr>fe_read := (fe_read sample_files)(''/etc/passwd'' := (\<lambda>n. ''root''))\<rparr>) (Some [sample_attachment]) None =
   resolveOutgoingAttachments sample_files (Some [sample_attachment]) None"
proof (rule only_allowed_files_attached)
  show "same_where_readable sample_files (sample_files\<lparr>fe_read := (fe_read sample_files)(''/etc/passwd'' := (\<lambda>n. ''root''))\<rparr>)"
    using passwd_not_readable by (auto simp: same_where_readable_def)
qed

end
