(* ===== verification/Templates.thy ===== *)
theory Templates
  imports Validation
begin

text \<open>
  E-mail templates (src/services/template.service.ts): reading template files, finding one by name and
  filling in its variables. The TOML parser is an argument that gives a table, \<open>None\<close> for a file that
  does not parse; the directory is a list of files with their contents (\<open>None\<close> for a file that cannot
  be read). The lemmas show that filling in is one pass over the template.
\<close>

section \<open>Templates\<close>

datatype toml = TStr string | TArr "toml list" | TOther

type_synonym toml_table = "string \<Rightarrow> toml option"

record emailTemplate =
  te_name :: string
  te_description :: "string option"
  te_subject :: string
  te_body :: string
  te_variables :: "string list"

datatype template_error = MissingName | MissingSubject | MissingBody | BadVariables | TemplateNotFound string "string list"

definition toml_text :: "toml \<Rightarrow> string option" where
  [model_defs]: "toml_text v = (case v of TStr s \<Rightarrow> Some s | _ \<Rightarrow> None)"

definition toml_texts :: "toml \<Rightarrow> string list option" where
  "toml_texts v =
     (case v of TArr vs \<Rightarrow> if list_all (\<lambda>x. toml_text x \<noteq> None) vs then Some (List.map_filter toml_text vs) else None | _ \<Rightarrow> None)"

definition validateTemplate :: "toml_table \<Rightarrow> template_error + emailTemplate" where
  "validateTemplate raw =
     (let field = (\<lambda>k. Option.bind (raw k) toml_text) in
      case field ''name'' of
        None \<Rightarrow> Inl MissingName
      | Some name \<Rightarrow>
          if name = [] then Inl MissingName
          else case field ''subject'' of
            None \<Rightarrow> Inl MissingSubject
          | Some subject \<Rightarrow>
              (case field ''body'' of
                 None \<Rightarrow> Inl MissingBody
               | Some body \<Rightarrow>
                   (case Option.bind (raw ''variables'') toml_texts of
                      None \<Rightarrow> Inl BadVariables
                    | Some variables \<Rightarrow>
                        Inr \<lparr>te_name = name, te_description = field ''description'', te_subject = subject, te_body = body,
                          te_variables = variables\<rparr>)))"

section \<open>Filling in\<close>

definition word_char :: "char \<Rightarrow> bool" where
  [model_defs]: "word_char c \<longleftrightarrow> is_upper c \<or> is_lower c \<or> is_digit c \<or> c = CHR ''_''"

text \<open>A placeholder at the start of a text: its variable and the rest after it.\<close>

definition placeholder :: "string \<Rightarrow> (string \<times> string) option" where
  "placeholder s =
     (if starts_with ''{{'' s then
        (let v = takeWhile word_char (drop 2 s); r = dropWhile word_char (drop 2 s) in
         if v \<noteq> [] \<and> starts_with ''}}'' r then Some (v, drop 2 r) else None)
      else None)"

lemma placeholder_Some: "placeholder s = Some (v, r) \<Longrightarrow> s = ''{{'' @ v @ ''}}'' @ r"
proof -
  assume "placeholder s = Some (v, r)"
  then have s: "starts_with ''{{'' s" "v = takeWhile word_char (drop 2 s)" "starts_with ''}}'' (dropWhile word_char (drop 2 s))"
    "r = drop 2 (dropWhile word_char (drop 2 s))"
    by (auto simp: placeholder_def Let_def split: if_splits)
  obtain a where a: "s = ''{{'' @ a" using s(1) by (auto simp: starts_with_iff)
  obtain b where b: "dropWhile word_char a = ''}}'' @ b" using s(3) a by (auto simp: starts_with_iff)
  have "a = takeWhile word_char a @ dropWhile word_char a" by simp
  then show ?thesis using s(2,4) a b by simp
qed

function substituteVariables :: "string \<Rightarrow> (string \<Rightarrow> string option) \<Rightarrow> string" where
  "substituteVariables s vars =
     (case s of
        [] \<Rightarrow> []
      | c # s' \<Rightarrow>
          (case placeholder s of
             Some (v, r) \<Rightarrow> (case vars v of Some x \<Rightarrow> x | None \<Rightarrow> ''{{'' @ v @ ''}}'') @ substituteVariables r vars
           | None \<Rightarrow> c # substituteVariables s' vars))"
  by pat_completeness auto
termination by (relation "measure (\<lambda>(s, vars). length s)") (auto dest: placeholder_Some)

declare substituteVariables.simps [simp del]

section \<open>The service\<close>

definition loadTemplate :: "(string \<Rightarrow> toml_table option) \<Rightarrow> string option \<Rightarrow> emailTemplate option" where
  "loadTemplate parseTOML content =
     (case Option.bind content parseTOML of
        None \<Rightarrow> None
      | Some raw \<Rightarrow> (case validateTemplate raw of Inl _ \<Rightarrow> None | Inr t \<Rightarrow> Some t))"

text \<open>\<open>files\<close> is \<open>None\<close> when the directory does not exist.\<close>

definition listTemplates :: "(string \<Rightarrow> toml_table option) \<Rightarrow> (string \<times> string option) list option \<Rightarrow> emailTemplate list" where
  "listTemplates parseTOML files =
     (case files of
        None \<Rightarrow> []
      | Some entries \<Rightarrow> List.map_filter (\<lambda>(name, content). loadTemplate parseTOML content) (filter (\<lambda>(name, _). ends_with ''.toml'' name) entries))"

definition getTemplate ::
  "(string \<Rightarrow> toml_table option) \<Rightarrow> (string \<times> string option) list option \<Rightarrow> string \<Rightarrow> template_error + emailTemplate" where
  "getTemplate parseTOML files name =
     (let templates = listTemplates parseTOML files in
      case find (\<lambda>t. te_name t = name) templates of
        None \<Rightarrow> Inl (TemplateNotFound name (map te_name templates))
      | Some t \<Rightarrow> Inr t)"

definition applyTemplate ::
  "(string \<Rightarrow> toml_table option) \<Rightarrow> (string \<times> string option) list option \<Rightarrow> string \<Rightarrow> (string \<Rightarrow> string option) \<Rightarrow> bool \<Rightarrow>
   template_error + (string \<times> string)" where
  "applyTemplate parseTOML files name variables html =
     bindE (getTemplate parseTOML files name) (\<lambda>t.
       let sanitized = (\<lambda>v. map_option (\<lambda>x. sanitizeTemplateVariable x html) (variables v)) in
       Inr (substituteVariables (te_subject t) sanitized, substituteVariables (te_body t) sanitized))"

section \<open>One pass\<close>

text \<open>A template as the sequence of its own signs and placeholders.\<close>

datatype piece = Sign char | Slot string

fun piece_text :: "piece \<Rightarrow> string" where
  "piece_text (Sign c) = [c]"
| "piece_text (Slot v) = ''{{'' @ v @ ''}}''"

fun fill_piece :: "(string \<Rightarrow> string option) \<Rightarrow> piece \<Rightarrow> string" where
  "fill_piece vars (Sign c) = [c]"
| "fill_piece vars (Slot v) = (case vars v of Some x \<Rightarrow> x | None \<Rightarrow> piece_text (Slot v))"

definition slot_word :: "piece \<Rightarrow> bool" where
  "slot_word p = (case p of Sign _ \<Rightarrow> True | Slot v \<Rightarrow> v \<noteq> [] \<and> list_all word_char v)"

lemma placeholder_word: "placeholder s = Some (v, r) \<Longrightarrow> v \<noteq> [] \<and> list_all word_char v"
  by (auto simp: placeholder_def Let_def list_all_iff dest: set_takeWhileD split: if_splits)

lemma substitute_pieces:
  "\<exists>ps. s = concat (map piece_text ps) \<and> list_all slot_word ps \<and> (\<forall>vars. substituteVariables s vars = concat (map (fill_piece vars) ps))"
proof (induction s rule: length_induct)
  case (1 s)
  show ?case
  proof (cases s)
    case Nil
    then show ?thesis by (intro exI [of _ "[]"]) (simp add: substituteVariables.simps)
  next
    case (Cons c s')
    show ?thesis
    proof (cases "placeholder s")
      case None
      obtain ps where ps: "s' = concat (map piece_text ps)" "list_all slot_word ps"
        "\<forall>vars. substituteVariables s' vars = concat (map (fill_piece vars) ps)"
        using 1 Cons by (metis impossible_Cons linorder_le_less_linear)
      have "list_all slot_word (Sign c # ps)" using ps(2) by (simp add: slot_word_def)
      moreover have "s = concat (map piece_text (Sign c # ps))" using Cons ps(1) by simp
      moreover have "substituteVariables s vars = concat (map (fill_piece vars) (Sign c # ps))" for vars
        using ps(3) Cons None by (simp add: substituteVariables.simps [of "c # s'"])
      ultimately show ?thesis by blast
    next
      case (Some p)
      then obtain v r where p: "placeholder s = Some (v, r)" by (cases p) simp
      note s = placeholder_Some [OF p]
      then have "length r < length s" by simp
      then obtain ps where ps: "r = concat (map piece_text ps)" "list_all slot_word ps"
        "\<forall>vars. substituteVariables r vars = concat (map (fill_piece vars) ps)"
        using 1 by blast
      have "list_all slot_word (Slot v # ps)" using placeholder_word [OF p] ps(2) by (simp add: slot_word_def)
      moreover have "s = concat (map piece_text (Slot v # ps))" using s ps(1) by simp
      moreover have "substituteVariables s vars = concat (map (fill_piece vars) (Slot v # ps))" for vars
        using ps(3) p Cons by (simp add: substituteVariables.simps [of "c # s'"] split: option.split)
      ultimately show ?thesis by blast
    qed
  qed
qed


text \<open>With an HTML body the subject, which is plain text, gets the HTML escapes too.\<close>

definition sample_template :: toml_table where
  "sample_template k =
     (if k = ''name'' then Some (TStr ''hello'') else if k = ''subject'' then Some (TStr ''{{who}}'')
      else if k = ''body'' then Some (TStr ''{{who}}'') else if k = ''variables'' then Some (TArr [TStr ''who'']) else None)"

lemma subject_is_html_escaped:
  "applyTemplate (\<lambda>_. Some sample_template) (Some [(''a.toml'', Some [])]) ''hello'' (\<lambda>v. Some ''T & J'') True =
     Inr (''T &amp; J'', ''T &amp; J'')"
proof -
  have "placeholder ''{{who}}'' = Some (''who'', [])" by code_simp
  then have "substituteVariables ''{{who}}'' f = (case f ''who'' of Some x \<Rightarrow> x | None \<Rightarrow> ''{{who}}'')" for f
    by (simp add: substituteVariables.simps split: option.split)
  moreover have "sanitizeTemplateVariable ''T & J'' True = ''T &amp; J''" by code_simp
  moreover have "ends_with ''.toml'' ''a.toml''" by code_simp
  ultimately show ?thesis
    by (simp add: applyTemplate_def getTemplate_def listTemplates_def loadTemplate_def validateTemplate_def sample_template_def
        toml_text_def toml_texts_def List.map_filter_def Let_def)
qed

end
