(* ===== verification/CalendarState.thy ===== *)
theory CalendarState
  imports Hooks IsoDates
begin

text \<open>
  The record of mail already put into the calendar (src/utils/calendar-state.ts): reading and rewriting one
  file under a lock that is asked for at most 21 times. The file is the environment's: it may be missing,
  unreadable or not JSON. The step relation interleaves any number of processes; the lemmas show that no
  process ever drops the entry of another.
\<close>

section \<open>Operations\<close>

datatype calendarAction = EventAction | ReminderAction | BothActions | SkippedAction

record processedEntry =
  pe_processedAt :: string
  pe_action :: calendarAction
  pe_title :: "string option"

type_synonym state_file = "(string, processedEntry) jsmap"

datatype cal_error = StateReadFailed string | NotJson | StateBusy | StateWriteFailed string

text \<open>What reading the file gives: missing, an error, or its text as the JSON reader sees it (\<open>None\<close> when it does not parse).\<close>

datatype file_read = MissingFile | ReadFails string | FileText "state_file option"

definition CALENDAR_LOCK_STALE_MS :: nat where "CALENDAR_LOCK_STALE_MS = 10000"
definition CALENDAR_LOCK_RENEW_MS :: nat where "CALENDAR_LOCK_RENEW_MS = CALENDAR_LOCK_STALE_MS div 5"
definition LOCK_RETRY_MS :: nat where "LOCK_RETRY_MS = 50"
definition LOCK_RETRIES :: nat where "LOCK_RETRIES = 20"

definition readState :: "file_read \<Rightarrow> cal_error + state_file" where
  "readState f =
     (case f of
        MissingFile \<Rightarrow> Inr []
      | ReadFails e \<Rightarrow> Inl (StateReadFailed e)
      | FileText None \<Rightarrow> Inl NotJson
      | FileText (Some m) \<Rightarrow> Inr m)"

text \<open>
  \<open>claim n\<close> is the token the \<open>n\<close>-th try gets, if any. The result has the token, the tries made and the
  time waited in between.
\<close>

fun acquireStateLock :: "(nat \<Rightarrow> string option) \<Rightarrow> nat \<Rightarrow> nat \<Rightarrow> (cal_error + string) \<times> nat \<times> nat" where
  "acquireStateLock claim n 0 = (case claim n of Some t \<Rightarrow> Inr t | None \<Rightarrow> Inl StateBusy, 1, 0)"
| "acquireStateLock claim n (Suc retries) =
     (case claim n of
        Some t \<Rightarrow> (Inr t, 1, 0)
      | None \<Rightarrow>
          (case acquireStateLock claim (Suc n) retries of (r, tries, waited) \<Rightarrow> (r, Suc tries, LOCK_RETRY_MS + waited)))"

lemma lock_tries: "acquireStateLock claim n retries = (r, tries, waited) \<Longrightarrow>
    tries \<le> Suc retries \<and> waited + LOCK_RETRY_MS = tries * LOCK_RETRY_MS"
  by (induction retries arbitrary: n r tries waited) (fastforce split: option.splits prod.splits)+

definition isCalendarProcessed :: "file_read \<Rightarrow> string \<Rightarrow> string \<Rightarrow> cal_error + bool" where
  "isCalendarProcessed f accountName emailId =
     bindE (readState f) (\<lambda>m. Inr (js_get m (calendarKey accountName emailId) \<noteq> None))"

definition mark_entry :: "string \<Rightarrow> string \<Rightarrow> processedEntry \<Rightarrow> state_file \<Rightarrow> state_file" where
  "mark_entry accountName emailId e m = js_set (calendarKey accountName emailId) e m"

definition listCalendarProcessed :: "file_read \<Rightarrow> cal_error + (string \<times> processedEntry) list" where
  "listCalendarProcessed f = bindE (readState f) Inr"

section \<open>Interleaved processes\<close>

text \<open>
  Where a process is in \<open>markCalendarProcessed\<close>: it holds the lock with the entries it read, or has written.
  A process that fails at reading or writing frees the lock without an entry. The lock is renewed while it
  is held, so nobody takes it over.
\<close>

datatype mark_phase = Waiting | LockHeld | HasRead state_file | HasWritten | Marked | GaveUp

record cal_world =
  cw_file :: file_read
  cw_lock :: "nat option"
  cw_phase :: "nat \<Rightarrow> mark_phase"

definition entry_of :: "(nat \<Rightarrow> string \<times> string \<times> processedEntry) \<Rightarrow> nat \<Rightarrow> state_file \<Rightarrow> state_file" where
  "entry_of jobs p m = (case jobs p of (a, i, e) \<Rightarrow> mark_entry a i e m)"

inductive mark_step :: "(nat \<Rightarrow> string \<times> string \<times> processedEntry) \<Rightarrow> cal_world \<Rightarrow> cal_world \<Rightarrow> bool"
  for jobs :: "nat \<Rightarrow> string \<times> string \<times> processedEntry" where
  take_lock: "cw_phase w p = Waiting \<Longrightarrow> cw_lock w = None \<Longrightarrow>
    mark_step jobs w (w\<lparr>cw_lock := Some p, cw_phase := (cw_phase w)(p := LockHeld)\<rparr>)"
| lock_refused: "cw_phase w p = Waiting \<Longrightarrow> cw_lock w \<noteq> None \<Longrightarrow>
    mark_step jobs w (w\<lparr>cw_phase := (cw_phase w)(p := GaveUp)\<rparr>)"
| read_file: "cw_phase w p = LockHeld \<Longrightarrow> readState (cw_file w) = Inr m \<Longrightarrow>
    mark_step jobs w (w\<lparr>cw_phase := (cw_phase w)(p := HasRead m)\<rparr>)"
| write_file: "cw_phase w p = HasRead m \<Longrightarrow>
    mark_step jobs w (w\<lparr>cw_file := FileText (Some (entry_of jobs p m)), cw_phase := (cw_phase w)(p := HasWritten)\<rparr>)"
| mark_fails: "cw_phase w p = LockHeld \<or> (\<exists>m. cw_phase w p = HasRead m) \<Longrightarrow> cw_lock w = Some p \<Longrightarrow>
    mark_step jobs w (w\<lparr>cw_lock := None, cw_phase := (cw_phase w)(p := GaveUp)\<rparr>)"
| free_lock: "cw_phase w p = HasWritten \<Longrightarrow> cw_lock w = Some p \<Longrightarrow>
    mark_step jobs w (w\<lparr>cw_lock := None, cw_phase := (cw_phase w)(p := Marked)\<rparr>)"

inductive_cases mark_stepE: "mark_step jobs w w'"

definition cal_init :: "state_file \<Rightarrow> cal_world \<Rightarrow> bool" where
  "cal_init m0 w \<longleftrightarrow> cw_file w = FileText (Some m0) \<and> cw_lock w = None \<and> cw_phase w = (\<lambda>_. Waiting)"

definition in_lock :: "mark_phase \<Rightarrow> bool" where
  "in_lock ph = (case ph of LockHeld \<Rightarrow> True | HasRead _ \<Rightarrow> True | HasWritten \<Rightarrow> True | _ \<Rightarrow> False)"

definition wrote :: "mark_phase \<Rightarrow> bool" where
  "wrote ph \<longleftrightarrow> ph = HasWritten \<or> ph = Marked"

definition job_key :: "(nat \<Rightarrow> string \<times> string \<times> processedEntry) \<Rightarrow> nat \<Rightarrow> string" where
  "job_key jobs p = (case jobs p of (a, i, e) \<Rightarrow> calendarKey a i)"

definition cal_inv :: "(nat \<Rightarrow> string \<times> string \<times> processedEntry) \<Rightarrow> state_file \<Rightarrow> cal_world \<Rightarrow> bool" where
  "cal_inv jobs m0 w \<longleftrightarrow>
     (\<forall>p. in_lock (cw_phase w p) \<longrightarrow> cw_lock w = Some p) \<and>
     (\<exists>m. cw_file w = FileText (Some m) \<and>
        (\<forall>p n. cw_phase w p = HasRead n \<longrightarrow> n = m) \<and>
        (\<forall>k. js_get m0 k \<noteq> None \<longrightarrow> js_get m k \<noteq> None) \<and>
        (\<forall>p. wrote (cw_phase w p) \<longrightarrow> js_get m (job_key jobs p) \<noteq> None))"

lemma phase_simps [simp]:
  "\<not> in_lock Waiting" "in_lock LockHeld" "in_lock (HasRead m)" "in_lock HasWritten" "\<not> in_lock Marked" "\<not> in_lock GaveUp"
  "\<not> wrote Waiting" "\<not> wrote LockHeld" "\<not> wrote (HasRead m)" "wrote HasWritten" "wrote Marked" "\<not> wrote GaveUp"
  by (simp_all add: in_lock_def wrote_def)

lemma entry_written: "js_get (entry_of jobs p m) k = (if k = job_key jobs p then Some (snd (snd (jobs p))) else js_get m k)"
  by (cases "jobs p") (simp add: entry_of_def mark_entry_def job_key_def)

lemma cal_inv_init: "cal_init m0 w \<Longrightarrow> cal_inv jobs m0 w"
  by (simp add: cal_inv_def cal_init_def)

lemma cal_inv_step: "cal_inv jobs m0 w \<Longrightarrow> mark_step jobs w w' \<Longrightarrow> cal_inv jobs m0 w'"
proof (erule mark_stepE, goal_cases)
  case (4 p n)
  then have l: "\<And>q. in_lock (cw_phase w q) \<Longrightarrow> q = p" and f: "cw_file w = FileText (Some n)"
    and o: "\<And>k. js_get m0 k \<noteq> None \<Longrightarrow> js_get n k \<noteq> None" and wr: "\<And>q. wrote (cw_phase w q) \<Longrightarrow> js_get n (job_key jobs q) \<noteq> None"
    unfolding cal_inv_def by (metis option.inject phase_simps(3))+
  show ?case
    unfolding cal_inv_def using 4 l o wr
    by (auto simp: cal_inv_def entry_written)
next
  case (5 p)
  then have l: "\<And>q n. cw_phase w q = HasRead n \<Longrightarrow> q = p"
    unfolding cal_inv_def by (metis option.inject phase_simps(3))
  have l2: "\<And>q. in_lock (cw_phase w q) \<Longrightarrow> q = p"
    using 5 unfolding cal_inv_def by (metis option.inject)
  show ?case
    using 5(1) unfolding cal_inv_def 5(2)
    by (elim conjE exE) (intro conjI exI allI impI; auto dest: l l2 split: if_splits)
qed (auto simp: cal_inv_def readState_def split: if_splits)

interpretation calendar_marks: invariant_system "cal_init m0" "mark_step jobs" "cal_inv jobs m0" for jobs m0
  by unfold_locales (auto intro: cal_inv_init cal_inv_step)


definition sample_entry :: processedEntry where
  "sample_entry = \<lparr>pe_processedAt = ''2026-01-01T00:00:00.000Z'', pe_action = EventAction, pe_title = None\<rparr>"

definition sample_jobs :: "nat \<Rightarrow> string \<times> string \<times> processedEntry" where
  "sample_jobs p = (''work'', ''7'', sample_entry)"


end
