(* ===== verification/ImapRead.thy ===== *)
theory ImapRead
  imports ImapOps ImapThread AuthHeaders IsoDates BodyText
begin

text \<open>
  The operations of src/services/imap.service.ts that read messages: listing rows with previews, full
  messages, flags, sender authentication, attachments, raw exports, threads and calendar parts. Octets
  become text by \<open>tx_utf8\<close> (a whole part) or \<open>tx_decode\<close> (a cut part with its charset); \<open>tx_strip\<close> is
  \<open>stripHtml\<close> on these texts; \<open>tx_parse\<close> reads a date of any format as \<open>Date\<close> does. The lemmas show that reading keeps the lock discipline and changes nothing,
  and what a download or an export can return.
\<close>

record text_env =
  tx_utf8 :: "octets \<Rightarrow> string"
  tx_decode :: "string option \<Rightarrow> string \<Rightarrow> string"
  tx_inherited :: "string \<Rightarrow> string option"
  tx_strip :: "string \<Rightarrow> string"
  tx_now :: int
  tx_parse :: "string \<Rightarrow> int option"

section \<open>Parts\<close>

definition downloadPart :: "svc_env \<Rightarrow> string \<Rightarrow> string \<Rightarrow> octets option svc" where
  "downloadPart E uid part = askS (sv_part E) (Download uid part)"

definition downloadMimePart :: "svc_env \<Rightarrow> text_env \<Rightarrow> nat \<Rightarrow> string \<Rightarrow> string option svc" where
  "downloadMimePart E T uid part =
     bindS (attemptS (downloadPart E (show_nat uid) part)) (\<lambda>r.
       okS (case r of
              Inr (Some content) \<Rightarrow> if looksLikeRawMime (tx_utf8 T content) then None else Some (tx_utf8 T content)
            | _ \<Rightarrow> None))"

definition optional_part :: "svc_env \<Rightarrow> text_env \<Rightarrow> nat \<Rightarrow> string option \<Rightarrow> string option svc" where
  "optional_part E T uid part = (case part of None \<Rightarrow> okS None | Some p \<Rightarrow> if p = [] then okS None else downloadMimePart E T uid p)"

definition text_parts :: "mime_node option \<Rightarrow> string option \<times> string option" where
  [model_defs]: "text_parts s = (case s of None \<Rightarrow> (None, None) | Some bs \<Rightarrow> findTextMimeParts bs)"

section \<open>Rows\<close>

definition parseAddress :: "imapAddress option \<Rightarrow> emailAddress" where
  "parseAddress addr =
     \<lparr>ea_name = Option.bind addr ia_name,
      ea_address = (case Option.bind addr ia_address of None \<Rightarrow> ''unknown'' | Some a \<Rightarrow> a)\<rparr>"

definition parseAddresses :: "imapAddress list option \<Rightarrow> emailAddress list" where
  "parseAddresses addrs = (case addrs of None \<Rightarrow> [] | Some as \<Rightarrow> map (\<lambda>a. parseAddress (Some a)) as)"

definition first_address :: "imapAddress list option \<Rightarrow> imapAddress option" where
  [model_defs]: "first_address addrs = (case addrs of Some (a # _) \<Rightarrow> Some a | _ \<Rightarrow> None)"

definition flag_set :: "string list \<Rightarrow> string list" where
  [model_defs]: "flag_set flags = fold set_add flags []"

definition user_labels :: "string list \<Rightarrow> string list" where
  [model_defs]: "user_labels flags = filter (\<lambda>f. \<not> starts_with (backslashed []) f) (flag_set flags)"

definition has_attachments :: "mime_node option \<Rightarrow> bool" where
  [model_defs]: "has_attachments s = (case s of None \<Rightarrow> False | Some bs \<Rightarrow> hasAttachments bs)"

definition envelope_field :: "fetchedMessage \<Rightarrow> (imapEnvelope \<Rightarrow> 'a option) \<Rightarrow> 'a option" where
  [model_defs]: "envelope_field msg field = Option.bind (fx_envelope msg) field"

definition messageToEmailMeta :: "text_env \<Rightarrow> fetchedMessage \<Rightarrow> string option \<Rightarrow> emailMeta" where
  "messageToEmailMeta T msg preview =
     (let flags = fx_flags msg in
      \<lparr>em_id = show_nat (fx_uid msg),
       em_subject = (case envelope_field msg ev_subject of None \<Rightarrow> ''(no subject)'' | Some s \<Rightarrow> s),
       em_from = parseAddress (first_address (envelope_field msg ev_from)), em_to = parseAddresses (envelope_field msg ev_to),
       em_date = isoDate (tx_now T) (envelope_field msg ev_date),
       em_seen = (backslashed ''Seen'' \<in> set flags), em_flagged = (backslashed ''Flagged'' \<in> set flags),
       em_answered = (backslashed ''Answered'' \<in> set flags), em_hasAttachments = has_attachments (fx_structure msg),
       em_labels = user_labels flags, em_preview = preview, em_messageId = envelope_field msg ev_messageId\<rparr>)"

section \<open>Previews\<close>

definition PREVIEW_MAX_CHARS :: nat where "PREVIEW_MAX_CHARS = 200"
definition PREVIEW_PART_MAX_BYTES :: nat where "PREVIEW_PART_MAX_BYTES = 4096"

text \<open>The text after the first occurrence of a pattern.\<close>

fun after_first :: "string \<Rightarrow> string \<Rightarrow> string option" where
  "after_first pat [] = (if pat = [] then Some [] else None)"
| "after_first pat (c # s) = (if starts_with pat (c # s) then Some (drop (length pat) (c # s)) else after_first pat s)"

fun skip_part_headers :: "nat \<Rightarrow> string \<Rightarrow> string" where
  "skip_part_headers 0 s = s"
| "skip_part_headers (Suc n) s =
     (let trimmed = dropWhile is_space s in
      if starts_with ''--'' trimmed then
        (case after_first [CR, LF, CR, LF] trimmed of
           Some r \<Rightarrow> skip_part_headers n r
         | None \<Rightarrow> (case after_first [LF, LF] trimmed of Some r \<Rightarrow> skip_part_headers n r | None \<Rightarrow> s))
      else s)"

definition boundary_line :: "string \<Rightarrow> bool" where
  [model_defs]: "boundary_line s =
     (case after_break s of
        Some (a # b # c # _) \<Rightarrow> a = CHR ''-'' \<and> b = CHR ''-'' \<and> \<not> is_space c
      | _ \<Rightarrow> False)"

fun before_boundary :: "string \<Rightarrow> string" where
  "before_boundary [] = []"
| "before_boundary (c # s) = (if boundary_line (c # s) then [] else c # before_boundary s)"

definition cleanPreviewCandidate :: "text_env \<Rightarrow> string \<Rightarrow> string option" where
  "cleanPreviewCandidate T raw =
     (let s = before_boundary (skip_part_headers 3 raw) in
      if looksLikeRawMime s then None
      else let stripped = join_with '' '' (words_of (tx_strip T s)) in
        if stripped = [] then None else Some (take PREVIEW_MAX_CHARS stripped))"

definition preview_leaf :: "fetchedMessage \<Rightarrow> (string \<times> mime_node) option" where
  [model_defs]: "preview_leaf row =
     (case fx_structure row of
        None \<Rightarrow> None
      | Some bs \<Rightarrow>
          (case or_else (tl_plain (findTextMimeLeaves bs [])) (tl_html (findTextMimeLeaves bs [])) of
             None \<Rightarrow> None
           | Some (part, node) \<Rightarrow> Some (if mn_childNodes bs \<noteq> [] then part else ''TEXT'', node)))"

type_synonym preview_sections = "(string, (nat, mime_node) jsmap) jsmap"

definition add_leaf :: "fetchedMessage \<Rightarrow> preview_sections \<Rightarrow> preview_sections" where
  "add_leaf row sections =
     (case preview_leaf row of
        None \<Rightarrow> sections
      | Some (section, node) \<Rightarrow>
          js_set section (js_set (fx_uid row) node (case js_get sections section of None \<Rightarrow> [] | Some m \<Rightarrow> m)) sections)"

definition latin1 :: "octets \<Rightarrow> string" where
  [model_defs]: "latin1 os = map char_of os"

definition add_preview :: "text_env \<Rightarrow> (nat, mime_node) jsmap \<Rightarrow> nat \<times> octets option \<Rightarrow> (nat, string) jsmap \<Rightarrow> (nat, string) jsmap" where
  "add_preview T leaves answer previews =
     (case answer of
        (uid, Some os) \<Rightarrow>
          (case js_get leaves uid of
             None \<Rightarrow> previews
           | Some node \<Rightarrow>
               (case cleanPreviewCandidate T (decodePartPrefix (tx_decode T) (latin1 os) (mn_encoding node) (js_get (mn_parameters node) ''charset'')) of
                  None \<Rightarrow> previews
                | Some p \<Rightarrow> js_set uid p previews))
      | (_, None) \<Rightarrow> previews)"

definition fetchPreviews :: "svc_env \<Rightarrow> text_env \<Rightarrow> fetchedMessage list \<Rightarrow> (nat, string) jsmap svc" where
  "fetchPreviews E T rows =
     bindS (eachS (\<lambda>(section, leaves).
         bindS (attemptS (askS (sv_partial E) (FetchPartial section (js_keys leaves)))) (\<lambda>r.
           okS (leaves, case r of Inr answered \<Rightarrow> answered | Inl _ \<Rightarrow> []))) (fold add_leaf rows []))
       (\<lambda>answers. okS (fold (\<lambda>(leaves, answered). fold (add_preview T leaves) answered) answers []))"

definition fetchPage :: "svc_env \<Rightarrow> text_env \<Rightarrow> nat list \<Rightarrow> emailMeta list svc" where
  "fetchPage E T pageUids =
     bindS (askS (sv_rows E) (FetchRows pageUids)) (\<lambda>rows.
     bindS (fetchPreviews E T rows) (\<lambda>previews.
       okS (map (\<lambda>row. messageToEmailMeta T row (js_get previews (fx_uid row))) rows)))"

section \<open>Full messages\<close>

record email = emailMeta +
  el_cc :: "emailAddress list"
  el_bcc :: "emailAddress list"
  el_bodyText :: "string option"
  el_bodyHtml :: "string option"
  el_messageId :: string
  el_inReplyTo :: "string option"
  el_references :: "string list option"
  el_attachments :: "attachmentMeta list"
  el_headers :: "(string, string) jsmap"

definition references_of :: "(string, string) jsmap \<Rightarrow> string list option" where
  [model_defs]: "references_of headers =
     (case js_get headers ''references'' of
        None \<Rightarrow> None
      | Some r \<Rightarrow> if words_of r = [] then None else Some (words_of r))"

text \<open>The header part of a source: up to the first empty line.\<close>

fun before_first :: "string \<Rightarrow> string \<Rightarrow> string" where
  "before_first pat [] = []"
| "before_first pat (c # s) = (if starts_with pat (c # s) then [] else c # before_first pat s)"

definition EMPTY_LINE :: string where [model_defs]: "EMPTY_LINE = [CR, LF, CR, LF]"

definition extractReferences :: "text_env \<Rightarrow> fetchedMessage \<Rightarrow> (string, string) jsmap \<Rightarrow> string list option" where
  "extractReferences T msg parsedHeaders =
     or_else (references_of parsedHeaders)
       (or_else (case fx_headers msg of None \<Rightarrow> None | Some raw \<Rightarrow> references_of (parseHeaderBlock (tx_inherited T) raw))
         (case fx_source msg of None \<Rightarrow> None | Some src \<Rightarrow> references_of (parseHeaderBlock (tx_inherited T) (before_first EMPTY_LINE src))))"

definition merge_headers :: "(string, string) jsmap \<Rightarrow> (string, string) jsmap \<Rightarrow> (string, string) jsmap" where
  [model_defs]: "merge_headers base second = fold (\<lambda>(k, v). js_set k v) second base"

definition FALLBACK_SOURCE_MAX_BYTES :: nat where "FALLBACK_SOURCE_MAX_BYTES = 65536"

text \<open>The source, or its first octets when the message has no text part and came without source.\<close>

definition fallback_source :: "svc_env \<Rightarrow> text_env \<Rightarrow> fetchedMessage \<Rightarrow> nat \<Rightarrow> string option svc" where
  "fallback_source E T msg uid =
     (if text_parts (fx_structure msg) = (None, None) \<and> fx_source msg = None then
        bindS (attemptS (askS (sv_source E) (FetchStart (show_nat uid)))) (\<lambda>r.
          okS (case r of Inr (Some os) \<Rightarrow> Some (tx_utf8 T os) | _ \<Rightarrow> None))
      else okS (fx_source msg))"

definition body_from_source :: "(string, string) jsmap \<Rightarrow> string \<Rightarrow> string option \<times> string option" where
  "body_from_source headers body =
     (let contentType = to_lower (case js_get headers ''content-type'' of None \<Rightarrow> [] | Some c \<Rightarrow> c);
          includes = (\<lambda>p. list_ex (starts_with p) (suffixes_of contentType)) in
      if includes ''multipart/'' then (None, None)
      else if includes ''text/html'' then (None, Some body)
      else (Some body, None))"

definition messageToEmail :: "svc_env \<Rightarrow> text_env \<Rightarrow> fetchedMessage \<Rightarrow> nat \<Rightarrow> email svc" where
  "messageToEmail E T msg uid =
     (let headers0 = (case fx_headers msg of None \<Rightarrow> [] | Some raw \<Rightarrow> if raw = [] then [] else parseHeaderBlock (tx_inherited T) raw) in
      case text_parts (fx_structure msg) of (plain, html) \<Rightarrow>
        bindS (optional_part E T uid plain) (\<lambda>bodyText0.
        bindS (optional_part E T uid html) (\<lambda>bodyHtml0.
        bindS (fallback_source E T msg uid) (\<lambda>source.
          let after = Option.bind source (after_first EMPTY_LINE);
              headers = (case (source, after) of
                  (Some raw, Some _) \<Rightarrow> merge_headers (parseHeaderBlock (tx_inherited T) (before_first EMPTY_LINE raw)) headers0
                | _ \<Rightarrow> headers0);
              bodies = (case after of
                  Some body \<Rightarrow> if bodyText0 = None \<and> bodyHtml0 = None then body_from_source headers body else (bodyText0, bodyHtml0)
                | None \<Rightarrow> (bodyText0, bodyHtml0));
              meta = messageToEmailMeta T msg (case fst bodies of Some t \<Rightarrow> if t = [] then None else cleanPreviewCandidate T t | None \<Rightarrow> None)
          in okS (emailMeta.extend meta
               \<lparr>el_cc = parseAddresses (envelope_field msg ev_cc), el_bcc = parseAddresses (envelope_field msg ev_bcc), el_bodyText = fst bodies, el_bodyHtml = snd bodies,
                el_messageId = (case envelope_field msg ev_messageId of None \<Rightarrow> [] | Some m \<Rightarrow> m),
                el_inReplyTo = or_else (envelope_field msg ev_inReplyTo) (js_get headers ''in-reply-to''),
                el_references = extractReferences T msg headers,
                el_attachments = (case fx_structure msg of None \<Rightarrow> [] | Some bs \<Rightarrow> extractAttachments bs),
                el_headers = headers\<rparr>)))))"

section \<open>Operations\<close>

definition found :: "string \<Rightarrow> 'a option \<Rightarrow> 'a svc" where
  [svc_defs]: "found emailId m = (case m of None \<Rightarrow> failS (MessageNotFound emailId) | Some x \<Rightarrow> okS x)"

text \<open>The common frame: checked id and folder, connection, lock.\<close>

definition with_message :: "svc_env \<Rightarrow> string \<Rightarrow> string \<Rightarrow> bool \<Rightarrow> (string \<Rightarrow> string \<Rightarrow> 'a svc) \<Rightarrow> 'a svc" where
  [svc_defs]: "with_message E emailId mailbox readOnly body =
     bindS (checkS (parseMessageUid emailId)) (\<lambda>uid.
     bindS (checkS (sanitizeMailboxName mailbox)) (\<lambda>path.
     bindS (connectS E) (\<lambda>_. withMailbox E path readOnly (body uid path))))"

definition getEmail :: "svc_env \<Rightarrow> text_env \<Rightarrow> string \<Rightarrow> string \<Rightarrow> email svc" where
  "getEmail E T emailId mailbox =
     with_message E emailId mailbox False (\<lambda>uid path.
       bindS (askS (sv_message E) (FetchMessage uid)) (\<lambda>msg.
       bindS (found emailId msg) (\<lambda>m. messageToEmail E T m (number_of uid))))"

fun parse_uids :: "string list \<Rightarrow> validation_error + string list" where
  "parse_uids [] = Inr []"
| "parse_uids (i # is) = bindE (parseMessageUid i) (\<lambda>u. bindE (parse_uids is) (\<lambda>us. Inr (u # us)))"

definition full_messages :: "svc_env \<Rightarrow> text_env \<Rightarrow> nat list \<Rightarrow> email list svc" where
  "full_messages E T uids =
     bindS (askS (sv_rows E) (FetchRows uids)) (\<lambda>rows. eachS (\<lambda>m. messageToEmail E T m (fx_uid m)) rows)"

definition getEmails :: "svc_env \<Rightarrow> text_env \<Rightarrow> string list \<Rightarrow> string \<Rightarrow> email list svc" where
  "getEmails E T emailIds mailbox =
     bindS (checkS (parse_uids emailIds)) (\<lambda>uids.
       if uids = [] then okS []
       else bindS (checkS (sanitizeMailboxName mailbox)) (\<lambda>path.
         bindS (connectS E) (\<lambda>_. withMailbox E path False (full_messages E T (map number_of uids)))))"

record emailFlags =
  ef_seen :: bool
  ef_flagged :: bool
  ef_answered :: bool
  ef_labels :: "string list"
  ef_subject :: string
  ef_from :: string
  ef_date :: string

definition sender_line :: "imapAddress option \<Rightarrow> string" where
  "sender_line entry =
     (case entry of
        None \<Rightarrow> []
      | Some a \<Rightarrow>
          (let address = (case ia_address a of None \<Rightarrow> None | Some x \<Rightarrow> Some x) in
           case ia_name a of
             Some n \<Rightarrow> if n \<noteq> [] then n @ '' <'' @ (case address of None \<Rightarrow> ''undefined'' | Some x \<Rightarrow> x) @ ''>''
                      else (case address of None \<Rightarrow> [] | Some x \<Rightarrow> x)
           | None \<Rightarrow> (case address of None \<Rightarrow> [] | Some x \<Rightarrow> x)))"

definition email_flags :: "fetchedMessage \<Rightarrow> emailFlags" where
  "email_flags msg =
     \<lparr>ef_seen = (backslashed ''Seen'' \<in> set (fx_flags msg)), ef_flagged = (backslashed ''Flagged'' \<in> set (fx_flags msg)),
      ef_answered = (backslashed ''Answered'' \<in> set (fx_flags msg)), ef_labels = user_labels (fx_flags msg),
      ef_subject = (case envelope_field msg ev_subject of None \<Rightarrow> ''(no subject)'' | Some s \<Rightarrow> s),
      ef_from = sender_line (first_address (envelope_field msg ev_from)),
      ef_date = (case envelope_field msg ev_date of None \<Rightarrow> [] | Some t \<Rightarrow> toISOString t)\<rparr>"

definition getEmailFlags :: "svc_env \<Rightarrow> string \<Rightarrow> string \<Rightarrow> emailFlags svc" where
  "getEmailFlags E emailId mailbox =
     with_message E emailId mailbox False (\<lambda>uid path.
       bindS (askS (sv_message E) (FetchMessage uid)) (\<lambda>msg. bindS (found emailId msg) (\<lambda>m. okS (email_flags m))))"

definition getEmailSecurity :: "svc_env \<Rightarrow> string \<Rightarrow> string \<Rightarrow> (authSignals \<times> string \<times> string) svc" where
  "getEmailSecurity E emailId mailbox =
     with_message E emailId mailbox True (\<lambda>uid path.
       bindS (askS (sv_message E) (FetchMessage uid)) (\<lambda>msg.
       bindS (found emailId msg) (\<lambda>m.
         okS (parseSenderAuth (case fx_headers m of None \<Rightarrow> [] | Some h \<Rightarrow> h), uid, path))))"

definition peekText :: "svc_env \<Rightarrow> text_env \<Rightarrow> string \<Rightarrow> string \<Rightarrow> string svc" where
  "peekText E T emailId mailbox =
     with_message E emailId mailbox True (\<lambda>uid path.
       bindS (askS (sv_structure E) (FetchStructure uid)) (\<lambda>s.
         case s of
           None \<Rightarrow> okS []
         | Some bs \<Rightarrow>
             (case findTextMimeParts bs of (plain, html) \<Rightarrow>
                bindS (optional_part E T (number_of uid) plain) (\<lambda>t.
                bindS (optional_part E T (number_of uid) html) (\<lambda>h.
                  okS (preferRicherPlain t (case h of None \<Rightarrow> [] | Some x \<Rightarrow> tx_strip T x)))))))"

definition peekAttachments :: "svc_env \<Rightarrow> string \<Rightarrow> string \<Rightarrow> (string \<times> string) list svc" where
  "peekAttachments E emailId mailbox =
     with_message E emailId mailbox True (\<lambda>uid path.
       bindS (askS (sv_structure E) (FetchStructure uid)) (\<lambda>s.
         okS (case s of None \<Rightarrow> [] | Some bs \<Rightarrow> map (\<lambda>a. (am_filename a, am_mimeType a)) (extractAttachments bs))))"

definition fetchDraft :: "svc_env \<Rightarrow> text_env \<Rightarrow> int \<Rightarrow> string option \<Rightarrow> (email \<times> string) svc" where
  "fetchDraft E T emailId mailbox =
     bindS (checkS (parseMessageUid (js_int emailId))) (\<lambda>uid.
     bindS (case mailbox of None \<Rightarrow> okS None | Some m \<Rightarrow> bindS (checkS (sanitizeMailboxName m)) (\<lambda>p. okS (Some p))) (\<lambda>requested.
     bindS (connectS E) (\<lambda>_.
     bindS (case requested of
              Some p \<Rightarrow> okS p
            | None \<Rightarrow> bindS (listS E) (\<lambda>mailboxes. okS (special_path ''Drafts'' mailboxes))) (\<lambda>path.
     bindS (getEmail E T uid path) (\<lambda>e. okS (e, path))))))"

record downloaded =
  dn_filename :: string
  dn_mimeType :: string
  dn_size :: nat
  dn_contentBase64 :: string

definition MAX_INLINE_BYTES :: nat where "MAX_INLINE_BYTES = 5 * 1024 * 1024"

definition downloadAttachment :: "svc_env \<Rightarrow> string \<Rightarrow> string \<Rightarrow> string \<Rightarrow> nat \<Rightarrow> downloaded svc" where
  "downloadAttachment E emailId mailbox filename maxSizeBytes =
     with_message E emailId mailbox False (\<lambda>uid path.
       bindS (askS (sv_structure E) (FetchStructure uid)) (\<lambda>s.
       bindS (found emailId s) (\<lambda>bs.
         case filter (\<lambda>a. ap_filename a = filename) (listAttachmentParts bs []) of
           [] \<Rightarrow> failS (AttachmentNotFound filename)
         | [a] \<Rightarrow>
             if ap_encodedSize a > maxSizeBytes then failS (AttachmentTooLarge filename (ap_encodedSize a))
             else if ap_part a = [] then failS (NoMimePart filename)
             else bindS (downloadPart E uid (ap_part a)) (\<lambda>content.
               case content of
                 None \<Rightarrow> failS (AttachmentDownloadFailed filename)
               | Some os \<Rightarrow>
                   okS \<lparr>dn_filename = ap_filename a, dn_mimeType = ap_mimeType a, dn_size = length os,
                     dn_contentBase64 = base64_encode (latin1 os)\<rparr>)
         | matches \<Rightarrow> failS (AttachmentAmbiguous filename (length matches)))))"

record exported =
  ex_filename :: string
  ex_mimeType :: string
  ex_size :: nat
  ex_source :: octets

text \<open>The date is the ISO text of the internal date, if it is valid.\<close>

definition emlFilename :: "string option \<Rightarrow> string \<Rightarrow> string" where
  "emlFilename date uid =
     sanitizeAttachmentFilename ((case date of None \<Rightarrow> ''undated'' | Some d \<Rightarrow> take 10 d) @ ''_'' @ uid @ ''.eml'')"

definition exportEmail :: "svc_env \<Rightarrow> string \<Rightarrow> string \<Rightarrow> nat \<Rightarrow> exported svc" where
  "exportEmail E emailId mailbox maxSizeBytes =
     with_message E emailId mailbox True (\<lambda>uid path.
       bindS (askS (sv_size E) (FetchSize uid)) (\<lambda>meta.
       bindS (found emailId meta) (\<lambda>(claimed, date).
         case (case claimed of Some n \<Rightarrow> if n > maxSizeBytes then Some n else None | None \<Rightarrow> None) of
           Some n \<Rightarrow> failS (MessageTooLarge n)
         | None \<Rightarrow>
             bindS (askS (sv_source E) (FetchSource uid)) (\<lambda>source.
               case source of
                 None \<Rightarrow> failS (SourceNotFetched emailId)
               | Some os \<Rightarrow>
                   if length os > maxSizeBytes then failS (MessageTooLarge (length os))
                   else okS \<lparr>ex_filename = emlFilename date uid, ex_mimeType = ''message/rfc822'', ex_size = length os, ex_source = os\<rparr>))))"

text \<open>The parts are downloaded one after the other; \<open>writeAttachmentParts\<close> then sees what each download gave.\<close>

definition download_answers :: "svc_env \<Rightarrow> string \<Rightarrow> attachmentPart list \<Rightarrow> (string \<times> octets option) list svc" where
  "download_answers E uid parts =
     eachS (\<lambda>p. bindS (attemptS (downloadPart E uid (ap_part p))) (\<lambda>r. okS (ap_part p, case r of Inr c \<Rightarrow> c | Inl _ \<Rightarrow> None)))
       (filter (\<lambda>p. ap_part p \<noteq> []) parts)"

definition saveEmailAttachments ::
  "svc_env \<Rightarrow> (string \<Rightarrow> bool) \<Rightarrow> string \<Rightarrow> string \<Rightarrow> string \<Rightarrow> nat \<Rightarrow> (savedAttachment \<times> string \<times> octets) list svc" where
  "saveEmailAttachments E writable emailId mailbox destDir maxSizeBytes =
     with_message E emailId mailbox False (\<lambda>uid path.
       bindS (askS (sv_structure E) (FetchStructure uid)) (\<lambda>s.
         case s of
           None \<Rightarrow> okS []
         | Some bs \<Rightarrow>
             (let parts = saved_parts maxSizeBytes bs in
              if parts = [] then okS []
              else bindS (download_answers E uid parts) (\<lambda>answers.
                okS (writeAttachmentParts \<lparr>sa_download = (\<lambda>p. Option.bind (map_of answers p) id), sa_writable = writable\<rparr> destDir parts [])))))"

definition getCalendarParts :: "svc_env \<Rightarrow> text_env \<Rightarrow> string \<Rightarrow> string \<Rightarrow> string list svc" where
  "getCalendarParts E T mailbox emailId =
     with_message E emailId mailbox False (\<lambda>uid path.
       bindS (askS (sv_structure E) (FetchStructure uid)) (\<lambda>s.
         case s of
           None \<Rightarrow> okS []
         | Some bs \<Rightarrow>
             bindS (eachS (downloadPart E uid) (findCalendarParts bs [])) (\<lambda>contents.
               okS (map (tx_utf8 T) (List.map_filter id contents)))))"

section \<open>Threads\<close>

definition iso_time :: "string \<Rightarrow> int" where
  "iso_time s = (case Option.bind (match_send_at s) date_value of None \<Rightarrow> 0 | Some t \<Rightarrow> t)"

definition add_participant :: "emailAddress \<Rightarrow> (string, emailAddress) jsmap \<Rightarrow> (string, emailAddress) jsmap" where
  "add_participant addr m =
     (let key = to_lower (ea_address addr) in if js_get m key = None then js_set key addr m else m)"

definition participants :: "email list \<Rightarrow> emailAddress list" where
  "participants messages =
     js_values (fold add_participant (concat (map (\<lambda>e. em_from e # em_to e @ el_cc e) messages)) [])"

record thread =
  tr_threadId :: string
  tr_messages :: "email list"
  tr_participants :: "emailAddress list"
  tr_messageCount :: nat

text \<open>\<open>search\<close> and \<open>headers_of\<close> answer the searches of the thread (see the thread search).\<close>

definition getThread :: "svc_env \<Rightarrow> text_env \<Rightarrow> header_search \<Rightarrow> header_fetch \<Rightarrow> string \<Rightarrow> string \<Rightarrow> thread svc" where
  "getThread E T search headers_of messageId mailbox =
     bindS (checkS (sanitizeMailboxName mailbox)) (\<lambda>path.
     bindS (connectS E) (\<lambda>_.
       withMailbox E path False
         (let uids = findThreadUids search headers_of MAX_THREAD_MESSAGES messageId in
          if uids = [] then okS \<lparr>tr_threadId = messageId, tr_messages = [], tr_participants = [], tr_messageCount = 0\<rparr>
          else bindS (full_messages E T uids) (\<lambda>messages.
            let sorted = sort_key (\<lambda>e. iso_time (em_date e)) messages in
            okS \<lparr>tr_threadId = messageId, tr_messages = sorted, tr_participants = participants sorted, tr_messageCount = length sorted\<rparr>))))"

section \<open>Reading changes nothing\<close>

datatype read_call =
    ReadEmail string string
  | ReadEmails "string list" string
  | ReadFlags string string
  | ReadSecurity string string
  | PeekText string string
  | PeekAttachments string string
  | ReadDraft int "string option"
  | DownloadOne string string string nat
  | ExportOne string string nat
  | SaveParts string string string nat
  | CalendarParts string string
  | ReadThread string string

record read_env =
  rd_text :: text_env
  rd_writable :: "string \<Rightarrow> bool"
  rd_search :: header_search
  rd_headers :: header_fetch

definition run_read :: "svc_env \<Rightarrow> read_env \<Rightarrow> read_call \<Rightarrow> unit svc" where
  "run_read E R c =
     (case c of
        ReadEmail i m \<Rightarrow> doneS (getEmail E (rd_text R) i m)
      | ReadEmails is m \<Rightarrow> doneS (getEmails E (rd_text R) is m)
      | ReadFlags i m \<Rightarrow> doneS (getEmailFlags E i m)
      | ReadSecurity i m \<Rightarrow> doneS (getEmailSecurity E i m)
      | PeekText i m \<Rightarrow> doneS (peekText E (rd_text R) i m)
      | PeekAttachments i m \<Rightarrow> doneS (peekAttachments E i m)
      | ReadDraft i m \<Rightarrow> doneS (fetchDraft E (rd_text R) i m)
      | DownloadOne i m f n \<Rightarrow> doneS (downloadAttachment E i m f n)
      | ExportOne i m n \<Rightarrow> doneS (exportEmail E i m n)
      | SaveParts i m d n \<Rightarrow> doneS (saveEmailAttachments E (rd_writable R) i m d n)
      | CalendarParts m i \<Rightarrow> doneS (getCalendarParts E (rd_text R) m i)
      | ReadThread i m \<Rightarrow> doneS (getThread E (rd_text R) (rd_search R) (rd_headers R) i m))"

definition run_reads :: "svc_env \<Rightarrow> read_env \<Rightarrow> read_call list \<Rightarrow> svc_log" where
  "run_reads E R cs = foldl (\<lambda>h c. snd (run_read E R c h)) [] cs"

definition observes :: "svc_event \<Rightarrow> bool" where
  "observes e = (case e of Connect \<Rightarrow> True | LockTaken _ _ \<Rightarrow> True | LockRefused _ \<Rightarrow> True | LockFreed _ \<Rightarrow> True
     | Listed _ \<Rightarrow> True | ListRefused \<Rightarrow> True | _ \<Rightarrow> reads_message e)"

lemma observes_simps [simp]:
  "observes Connect" "observes (LockTaken p ro)" "observes (LockRefused p)" "observes (LockFreed p)" "observes (Listed mbs)" "observes ListRefused"
  "observes (FetchStructure i)" "observes (FetchHeaderBlock i)" "observes (FetchSize i)" "observes (FetchMessage i)" "observes (FetchRows us)"
  "observes (FetchPartial s us)" "observes (FetchStart i)" "observes (SearchUids cr)" "observes (FetchSource i)" "observes (Download i p)"
  by (simp_all add: observes_def)

text \<open>Both facts of an operation at once: it keeps the lock discipline and only observes.\<close>

definition quiet :: "(string \<times> bool) option \<Rightarrow> 'a svc \<Rightarrow> bool" where
  "quiet held m \<longleftrightarrow> keeps held m \<and> sends observes m"

lemma quiet_basics [simp, intro!]:
  "quiet held (okS a)" "quiet held (failS e)" "quiet held (checkS r)" "quiet None (connectS E)" "quiet None (listS E)" "quiet held (found i m)"
  by (auto simp: quiet_def found_def intro: sends_connectS sends_listS split: option.split)

lemma quiet_asks [simp, intro!]:
  "quiet (Some l) (askS a1 (FetchStructure i))" "quiet (Some l) (askS a3 (FetchSize i))" "quiet (Some l) (askS a4 (FetchSource i))"
  "quiet (Some l) (askS a5 (Download i p))" "quiet (Some l) (askS c1 (FetchMessage i))" "quiet (Some l) (askS c2 (FetchRows us))"
  "quiet (Some l) (askS c3 (FetchPartial s us))" "quiet (Some l) (askS c4 (FetchStart i))" "quiet (Some l) (askS c5 (SearchUids cr))"
  by (auto simp: quiet_def intro!: sends_askS)

lemma quiet_bindS: "quiet held m \<Longrightarrow> (\<And>a. quiet held (f a)) \<Longrightarrow> quiet held (bindS m f)"
  by (auto simp: quiet_def intro: sends_bindS)

lemma quiet_more: "quiet held m \<Longrightarrow> quiet held (attemptS m)" "(\<And>x. quiet held (g x)) \<Longrightarrow> quiet held (eachS g xs)"
  "quiet held m \<Longrightarrow> quiet held (doneS m)" "quiet (Some (p, ro)) m \<Longrightarrow> quiet None (withMailbox E p ro m)"
  by (auto simp: quiet_def doneS_def intro: sends_bindS sends_attemptS sends_eachS sends_withMailbox)

lemmas quiet_rules = quiet_bindS quiet_more

lemma quiet_with_message: "(\<And>uid path. quiet (Some (path, ro)) (body uid path)) \<Longrightarrow> quiet None (with_message E i m ro body)"
  unfolding with_message_def by (auto intro!: quiet_rules)

lemma quiet_parts [simp, intro!]:
  "quiet (Some l) (downloadPart E u p)" "quiet (Some l) (downloadMimePart E T n p)" "quiet (Some l) (optional_part E T n po)"
  "quiet (Some l) (fallback_source E T msg n)" "quiet (Some l) (download_answers E u parts)"
  by (auto simp: downloadPart_def downloadMimePart_def optional_part_def fallback_source_def download_answers_def
      intro!: quiet_rules split: option.split)

lemma quiet_message [simp, intro!]: "quiet (Some l) (messageToEmail E T msg n)" "quiet (Some l) (full_messages E T us)"
proof -
  show m: "quiet (Some l) (messageToEmail E T msg n)" for msg n
    unfolding messageToEmail_def Let_def by (cases "text_parts (fx_structure msg)") (auto intro!: quiet_rules)
  show "quiet (Some l) (full_messages E T us)"
    unfolding full_messages_def by (auto intro!: quiet_rules m)
qed

lemma quiet_preview [simp, intro!]: "quiet (Some l) (fetchPreviews E T rows)" "quiet (Some l) (fetchPage E T us)"
  by (auto simp: fetchPage_def fetchPreviews_def split_beta intro!: quiet_rules)

lemma quiet_getEmail: "quiet None (getEmail E T i m)"
  unfolding getEmail_def by (auto intro!: quiet_with_message quiet_rules)

lemma quiet_operations:
  "quiet None (getEmails E T is m)" "quiet None (getEmailFlags E i m)" "quiet None (getEmailSecurity E i m)"
  "quiet None (peekText E T i m)" "quiet None (peekAttachments E i m)" "quiet None (fetchDraft E T n mo)"
  "quiet None (saveEmailAttachments E w i m d mx)" "quiet None (getCalendarParts E T m i)" "quiet None (getThread E T sr hf i m)"
  unfolding getEmails_def getEmailFlags_def getEmailSecurity_def peekText_def peekAttachments_def fetchDraft_def
    saveEmailAttachments_def getCalendarParts_def getThread_def Let_def
  by (auto intro!: quiet_with_message quiet_rules quiet_getEmail split: option.split prod.split)

lemma quiet_download: "quiet None (downloadAttachment E i m f mx)"
  unfolding downloadAttachment_def by (auto intro!: quiet_with_message quiet_rules split: list.split option.split)

lemma quiet_export: "quiet None (exportEmail E i m mx)"
  unfolding exportEmail_def by (auto intro!: quiet_with_message quiet_rules split: prod.split option.split)

lemma quiet_run_read: "quiet None (run_read E R c)"
  by (cases c) (auto simp: run_read_def intro!: quiet_more quiet_getEmail quiet_operations quiet_download quiet_export)

lemma run_reads_snoc: "run_reads E R (cs @ [c]) = snd (run_read E R c (run_reads E R cs))"
  by (simp add: run_reads_def)


section \<open>Limits\<close>

text \<open>What an operation returns, whenever it returns.\<close>

definition returns :: "('a \<Rightarrow> bool) \<Rightarrow> 'a svc \<Rightarrow> bool" where
  "returns Q m \<longleftrightarrow> (\<forall>h a h'. m h = (Inr a, h') \<longrightarrow> Q a)"

lemma returns_basics [simp]: "returns Q (okS a) \<longleftrightarrow> Q a" "returns Q (failS e)"
  by (auto simp: returns_def svc_defs)

lemma returns_bindS: "(\<And>a. returns Q (f a)) \<Longrightarrow> returns Q (bindS m f)"
  unfolding returns_def bindS_def by (auto split: prod.splits sum.splits)

lemma returns_withMailbox: "returns Q body \<Longrightarrow> returns Q (withMailbox E p ro body)"
  unfolding returns_def withMailbox_def by (auto split: prod.splits option.splits lock_failure.splits)

lemma returns_with_message: "(\<And>uid path. returns Q (body uid path)) \<Longrightarrow> returns Q (with_message E i m ro body)"
  unfolding with_message_def by (intro returns_bindS returns_withMailbox)

lemma export_returns: "returns (\<lambda>x. ex_size x = length (ex_source x) \<and> ex_size x \<le> mx) (exportEmail E i m mx)"
  unfolding exportEmail_def
  by (auto intro!: returns_with_message returns_bindS split: prod.split option.split)

text \<open>
  A raw export never exceeds its limit, whatever size the server claims for the message: what is
  returned is the whole source, its size is the one reported, and that size is within the limit; a message
  whose claimed size is over the limit is refused.
\<close>

theorem export_within_limit:
  "case fst (exportEmail E emailId mailbox maxSizeBytes h) of
     Inl _ \<Rightarrow> True
   | Inr x \<Rightarrow> ex_size x = length (ex_source x) \<and> ex_size x \<le> maxSizeBytes"
  using export_returns [of maxSizeBytes E emailId mailbox]
  by (cases "exportEmail E emailId mailbox maxSizeBytes h") (auto simp: returns_def split: sum.split)

text \<open>The limit of an inline download is checked against the encoded size, the answer is written in base64.\<close>

lemma download_returns:
  "returns (\<lambda>x. dn_filename x = f \<and> length (dn_contentBase64 x) = 4 * ((dn_size x + 2) div 3)) (downloadAttachment E i m f mx)"
  unfolding downloadAttachment_def
proof (intro returns_with_message returns_bindS)
  fix uid s bs
  let ?as = "filter (\<lambda>a. ap_filename a = f) (listAttachmentParts bs [])"
  have all: "ap_filename a = f" if "?as = a # as" for a as
    using arg_cong [OF that, of set] by auto
  show "returns (\<lambda>x. dn_filename x = f \<and> length (dn_contentBase64 x) = 4 * ((dn_size x + 2) div 3))
    (case ?as of [] \<Rightarrow> failS (AttachmentNotFound f)
     | [a] \<Rightarrow> if ap_encodedSize a > mx then failS (AttachmentTooLarge f (ap_encodedSize a))
              else if ap_part a = [] then failS (NoMimePart f)
              else bindS (downloadPart E uid (ap_part a)) (\<lambda>content. case content of None \<Rightarrow> failS (AttachmentDownloadFailed f)
                | Some os \<Rightarrow> okS \<lparr>dn_filename = ap_filename a, dn_mimeType = ap_mimeType a, dn_size = length os, dn_contentBase64 = base64_encode (latin1 os)\<rparr>)
     | matches \<Rightarrow> failS (AttachmentAmbiguous f (length matches)))"
  proof (cases ?as)
    case (Cons a as)
    show ?thesis
      by (cases as) (auto simp: Cons all [OF Cons] encode_length latin1_def intro!: returns_bindS split: option.split)
  qed simp
qed

section \<open>Participants\<close>

definition address_key :: "emailAddress \<Rightarrow> string" where
  [model_defs]: "address_key a = to_lower (ea_address a)"

definition keyed :: "(string, emailAddress) jsmap \<Rightarrow> bool" where
  "keyed m \<longleftrightarrow> map fst m = map address_key (map snd m) \<and> distinct (map fst m)"

lemma keyed_add: "keyed m \<Longrightarrow> keyed (add_participant a m)" "fst ` set (add_participant a m) = insert (address_key a) (fst ` set m)"
proof -
  show "fst ` set (add_participant a m) = insert (address_key a) (fst ` set m)"
    by (cases "js_get m (address_key a)")
      (auto simp: add_participant_def address_key_def Let_def js_set_new dest: map_of_SomeD intro: rev_image_eqI)
  show "keyed m \<Longrightarrow> keyed (add_participant a m)"
    by (cases "js_get m (address_key a)")
      (auto simp: keyed_def add_participant_def address_key_def Let_def js_set_new js_get_None_iff [THEN iffD1])
qed

lemma keyed_fold: "keyed m \<Longrightarrow> keyed (fold add_participant as m)"
  by (induction as arbitrary: m) (simp_all add: keyed_add)

lemma fold_keys: "fst ` set (fold add_participant as m) = fst ` set m \<union> address_key ` set as"
  by (induction as arbitrary: m) (simp_all add: keyed_add)

text \<open>Everyone who wrote or received a message of the thread is named once, letter case aside.\<close>

lemma participants_once:
  "distinct (map address_key (participants ms)) \<and>
   address_key ` set (participants ms) = address_key ` (\<Union>e\<in>set ms. insert (em_from e) (set (em_to e) \<union> set (el_cc e)))"
proof -
  let ?as = "concat (map (\<lambda>e. em_from e # em_to e @ el_cc e) ms)"
  let ?r = "fold add_participant ?as []"
  have r: "map address_key (map snd ?r) = map fst ?r" "distinct (map fst ?r)"
    using keyed_fold [of "[]" ?as] unfolding keyed_def by simp_all
  have "address_key ` set (map snd ?r) = set (map address_key (map snd ?r))" by (simp only: set_map)
  also have "\<dots> = set (map fst ?r)" by (simp only: r(1))
  also have "\<dots> = address_key ` set ?as" using fold_keys [of ?as "[]"] by simp
  also have "set ?as = (\<Union>e\<in>set ms. insert (em_from e) (set (em_to e) \<union> set (el_cc e)))" by auto
  finally show ?thesis using r unfolding participants_def js_values_def by metis
qed

section \<open>The inline limit\<close>

definition inline_sample :: mime_node where
  "inline_sample = MimeNode ''multipart/mixed'' [] None [] [] None None None
     [MimeNode ''text/plain'' [] (Some ''attachment'') [] [(''filename'', ''a.txt'')] (Some ''7bit'') (Some 3) None []]"

definition inline_env :: svc_env where
  "inline_env = quiet_env\<lparr>sv_structure := (\<lambda>_. Inr (Some inline_sample)), sv_part := (\<lambda>_. Inr (Some [65, 66, 67]))\<rparr>"

text \<open>
  A limit of three octets lets a part of three octets through, whose base64 text has four characters: for a
  part that is not transferred in base64 the limit does not bound the base64 answer.
\<close>

lemma inline_limit_lets_longer_base64_through:
  "case fst (downloadAttachment inline_env ''7'' ''INBOX'' ''a.txt'' 3 []) of
     Inl _ \<Rightarrow> False | Inr x \<Rightarrow> dn_size x = 3 \<and> length (dn_contentBase64 x) = 4"
proof -
  have parts: "filter (\<lambda>a. ap_filename a = ''a.txt'') (listAttachmentParts inline_sample []) =
      [\<lparr>ap_filename = ''a.txt'', ap_mimeType = ''text/plain'', ap_part = ''1'', ap_encodedSize = 3, ap_encoding = ''7bit''\<rparr>]"
    by code_simp
  show ?thesis
    by (simp add: downloadAttachment_def with_message_def parse_seven sample_names checkS_def)
      (simp add: svc_defs inline_env_def quiet_env_def parts downloadPart_def encode_length latin1_def)
qed

end
