(* ===== verification/ImapList.thy ===== *)
theory ImapList
  imports ImapRead "HOL-Library.Product_Lexorder" "HOL-Library.List_Lexorder" "HOL-Library.Char_ord"
begin

text \<open>
  The operations of src/services/imap.service.ts that list messages: pages of a folder or of a search
  (\<open>listEmails\<close>, \<open>searchEmails\<close>, \<open>orderUidsByDate\<close>), contacts (\<open>extractContacts\<close>) and statistics
  (\<open>getEmailStats\<close>). Pages and page sizes are positive, as the tools demand. The lemmas show that the
  order loses no message, that the pages of a small folder show each message once, and that the counts of
  contacts and statistics add up.
\<close>

section \<open>Order\<close>

definition DEFAULT_DATE_SORT_WINDOW :: nat where "DEFAULT_DATE_SORT_WINDOW = 250"

text \<open>The instant a row is ordered by: its date, or its number when it has none.\<close>

definition row_time :: "fetchedMessage \<Rightarrow> int" where
  "row_time row = (case envelope_field row ev_date of None \<Rightarrow> int (fx_uid row) | Some t \<Rightarrow> t)"

definition newest_first :: "fetchedMessage list \<Rightarrow> fetchedMessage list" where
  "newest_first rows = sort_key (\<lambda>r. (- row_time r, - int (fx_uid r))) rows"

definition window_of :: "nat \<Rightarrow> nat \<Rightarrow> nat" where
  [model_defs]: "window_of maxWindow n = min n (max maxWindow DEFAULT_DATE_SORT_WINDOW)"

definition tail_uids :: "nat list \<Rightarrow> nat \<Rightarrow> nat list" where
  "tail_uids uids maxWindow = drop (length uids - window_of maxWindow (length uids)) (sort uids)"

definition older_uids :: "nat list \<Rightarrow> nat \<Rightarrow> nat list" where
  "older_uids uids maxWindow = rev (take (length uids - window_of maxWindow (length uids)) (sort uids))"

definition ordered_uids :: "nat list \<Rightarrow> nat \<Rightarrow> fetchedMessage list \<Rightarrow> nat list" where
  "ordered_uids uids maxWindow rows =
     map fx_uid (newest_first rows) @
     rev (filter (\<lambda>u. u \<notin> set (map fx_uid rows)) (tail_uids uids maxWindow)) @
     older_uids uids maxWindow"

definition orderUidsByDate :: "svc_env \<Rightarrow> nat list \<Rightarrow> nat \<Rightarrow> nat list svc" where
  "orderUidsByDate E uids maxWindow =
     (if uids = [] then okS []
      else bindS (askS (sv_rows E) (FetchRows (tail_uids uids maxWindow))) (\<lambda>rows. okS (ordered_uids uids maxWindow rows)))"

section \<open>Pages\<close>

record 'a paginatedResult =
  pg_items :: "'a list"
  pg_total :: nat
  pg_page :: nat
  pg_pageSize :: nat
  pg_hasMore :: bool

definition no_page :: "nat \<Rightarrow> nat \<Rightarrow> nat \<Rightarrow> 'a paginatedResult" where
  [model_defs]: "no_page total_found page pageSize =
     \<lparr>pg_items = [], pg_total = total_found, pg_page = page, pg_pageSize = pageSize, pg_hasMore = False\<rparr>"

definition page_slice :: "nat list \<Rightarrow> nat \<Rightarrow> nat \<Rightarrow> nat list" where
  "page_slice uids page pageSize = take pageSize (drop ((page - 1) * pageSize) uids)"

text \<open>What both listings do with the answer of their search.\<close>

definition attachment_filter :: "svc_env \<Rightarrow> bool option \<Rightarrow> nat list \<Rightarrow> nat list svc" where
  "attachment_filter E wanted uids =
     (case wanted of
        None \<Rightarrow> okS uids
      | Some w \<Rightarrow>
          if uids = [] then okS uids
          else bindS (askS (sv_rows E) (FetchRows uids)) (\<lambda>rows.
            okS (map fx_uid (filter (\<lambda>r. has_attachments (fx_structure r) = w) rows))))"

definition by_date :: "emailMeta list \<Rightarrow> emailMeta list" where
  "by_date items = sort_key (\<lambda>e. - iso_time (em_date e)) items"

definition page_of_search ::
  "svc_env \<Rightarrow> text_env \<Rightarrow> criterion list \<Rightarrow> bool option \<Rightarrow> nat \<Rightarrow> nat \<Rightarrow> emailMeta paginatedResult svc" where
  "page_of_search E T criteria wanted page pageSize =
     bindS (askS (sv_search E) (SearchUids criteria)) (\<lambda>answer.
     bindS (attachment_filter E wanted (case answer of None \<Rightarrow> [] | Some us \<Rightarrow> us)) (\<lambda>uids.
       if uids = [] then okS (no_page 0 page pageSize)
       else bindS (orderUidsByDate E uids (page * pageSize * 3)) (\<lambda>ordered.
         let pageUids = page_slice ordered page pageSize in
         if pageUids = [] then okS (no_page (length ordered) page pageSize)
         else bindS (fetchPage E T pageUids) (\<lambda>items.
           okS \<lparr>pg_items = by_date items, pg_total = length ordered, pg_page = page, pg_pageSize = pageSize,
             pg_hasMore = ((page - 1) * pageSize + pageSize < length ordered)\<rparr>))))"

definition text_given :: "string option \<Rightarrow> string option" where
  [model_defs]: "text_given s = (case s of Some (c # cs) \<Rightarrow> s | _ \<Rightarrow> None)"

definition or_default :: "'a \<Rightarrow> 'a option \<Rightarrow> 'a" where
  [model_defs]: "or_default d x = (case x of None \<Rightarrow> d | Some y \<Rightarrow> y)"

definition given :: "('a \<Rightarrow> criterion) \<Rightarrow> 'a option \<Rightarrow> criterion list" where
  [model_defs]: "given c x = (case x of None \<Rightarrow> [] | Some y \<Rightarrow> [c y])"

record list_options =
  lo_mailbox :: "string option"
  lo_page :: "nat option"
  lo_pageSize :: "nat option"
  lo_since :: "string option"
  lo_before :: "string option"
  lo_from :: "string option"
  lo_subject :: "string option"
  lo_seen :: "bool option"
  lo_flagged :: "bool option"
  lo_hasAttachment :: "bool option"
  lo_answered :: "bool option"

definition list_criteria :: "text_env \<Rightarrow> list_options \<Rightarrow> criterion list" where
  "list_criteria T o1 =
     given (\<lambda>s. SinceDate (tx_parse T s)) (text_given (lo_since o1)) @
     given (\<lambda>s. BeforeDate (tx_parse T s)) (text_given (lo_before o1)) @
     given FromText (text_given (lo_from o1)) @ given SubjectText (text_given (lo_subject o1)) @
     given SeenIs (lo_seen o1) @ given FlaggedIs (lo_flagged o1) @ given AnsweredIs (lo_answered o1)"

definition listEmails :: "svc_env \<Rightarrow> text_env \<Rightarrow> list_options \<Rightarrow> emailMeta paginatedResult svc" where
  "listEmails E T options =
     bindS (connectS E) (\<lambda>_.
     bindS (checkS (sanitizeMailboxName (or_default ''INBOX'' (lo_mailbox options)))) (\<lambda>path.
       withMailbox E path False
         (page_of_search E T (list_criteria T options) (lo_hasAttachment options)
           (or_default 1 (lo_page options)) (or_default 20 (lo_pageSize options)))))"

record search_options =
  so_mailbox :: "string option"
  so_page :: "nat option"
  so_pageSize :: "nat option"
  so_to :: "string option"
  so_hasAttachment :: "bool option"
  so_largerThan :: "int option"
  so_smallerThan :: "int option"
  so_answered :: "bool option"
  so_since :: "string option"
  so_before :: "string option"

text \<open>The keys of the merged conditions differ, so merging them keeps each.\<close>

definition search_criteria :: "text_env \<Rightarrow> string \<Rightarrow> search_options \<Rightarrow> criterion list" where
  "search_criteria T query o1 =
     (if query = [] then [] else [AnyText query]) @
     given ToText (text_given (so_to o1)) @
     given (\<lambda>n. LargerThan (n * 1024)) (so_largerThan o1) @ given (\<lambda>n. SmallerThan (n * 1024)) (so_smallerThan o1) @
     given AnsweredIs (so_answered o1) @
     given (\<lambda>s. SinceDate (tx_parse T s)) (text_given (so_since o1)) @
     given (\<lambda>s. BeforeDate (tx_parse T s)) (text_given (so_before o1))"

definition searchEmails :: "svc_env \<Rightarrow> text_env \<Rightarrow> string \<Rightarrow> search_options \<Rightarrow> emailMeta paginatedResult svc" where
  "searchEmails E T query options =
     bindS (connectS E) (\<lambda>_.
     bindS (checkS (sanitizeMailboxName (or_default ''INBOX'' (so_mailbox options)))) (\<lambda>path.
     bindS (checkS (if query = [] then Inr [] else sanitizeSearchQuery query)) (\<lambda>sanitizedQuery.
       withMailbox E path False
         (page_of_search E T (search_criteria T sanitizedQuery options) (so_hasAttachment options)
           (or_default 1 (so_page options)) (or_default 20 (so_pageSize options))))))"

section \<open>Contacts\<close>

record contact =
  ct_name :: "string option"
  ct_email :: string
  ct_frequency :: nat
  ct_lastSeen :: int

type_synonym contact_map = "(string, contact) jsmap"

text \<open>The instant a row is seen at: its date, or the present.\<close>

definition seen_at :: "text_env \<Rightarrow> fetchedMessage \<Rightarrow> int" where
  [model_defs]: "seen_at T row = (case envelope_field row ev_date of None \<Rightarrow> tx_now T | Some t \<Rightarrow> t)"

definition seen_again :: "imapAddress \<Rightarrow> int \<Rightarrow> contact \<Rightarrow> contact" where
  "seen_again addr date c =
     (let c' = c\<lparr>ct_frequency := ct_frequency c + 1\<rparr> in
      if date > ct_lastSeen c then
        (let c'' = c'\<lparr>ct_lastSeen := date\<rparr> in
         case text_given (ia_name addr) of None \<Rightarrow> c'' | Some n \<Rightarrow> c''\<lparr>ct_name := Some n\<rparr>)
      else c')"

definition add_contact :: "int \<Rightarrow> imapAddress \<Rightarrow> contact_map \<Rightarrow> contact_map" where
  "add_contact date addr m =
     (case text_given (ia_address addr) of
        None \<Rightarrow> m
      | Some a \<Rightarrow>
          (case js_get m (to_lower a) of
             Some c \<Rightarrow> js_set (to_lower a) (seen_again addr date c) m
           | None \<Rightarrow> js_set (to_lower a) \<lparr>ct_name = ia_name addr, ct_email = a, ct_frequency = 1, ct_lastSeen = date\<rparr> m))"

definition row_addresses :: "fetchedMessage \<Rightarrow> imapAddress list" where
  [model_defs]: "row_addresses row =
     concat (map (\<lambda>l. case l of None \<Rightarrow> [] | Some as \<Rightarrow> as)
       [envelope_field row ev_from, envelope_field row ev_to, envelope_field row ev_cc])"

definition contact_map_of :: "text_env \<Rightarrow> fetchedMessage list \<Rightarrow> contact_map" where
  "contact_map_of T rows = fold (\<lambda>row. fold (add_contact (seen_at T row)) (row_addresses row)) rows []"

definition contacts_of :: "text_env \<Rightarrow> fetchedMessage list \<Rightarrow> contact list" where
  "contacts_of T rows = sort_key (\<lambda>c. - int (ct_frequency c)) (js_values (contact_map_of T rows))"

record shown_contact =
  sc_name :: "string option"
  sc_email :: string
  sc_frequency :: nat
  sc_lastSeen :: string

definition show_contact :: "contact \<Rightarrow> shown_contact" where
  [model_defs]: "show_contact c =
     \<lparr>sc_name = ct_name c, sc_email = ct_email c, sc_frequency = ct_frequency c, sc_lastSeen = toISOString (ct_lastSeen c)\<rparr>"

definition extractContacts :: "svc_env \<Rightarrow> text_env \<Rightarrow> string option \<Rightarrow> nat option \<Rightarrow> shown_contact list svc" where
  "extractContacts E T mailbox limit =
     bindS (checkS (sanitizeMailboxName (or_default ''INBOX'' mailbox))) (\<lambda>path.
     bindS (connectS E) (\<lambda>_.
       withMailbox E path False
         (bindS (askS (sv_search E) (SearchUids [EveryMessage])) (\<lambda>answer.
            case answer of
              Some (u # us) \<Rightarrow>
                bindS (askS (sv_rows E) (FetchRows (take (min (or_default 100 limit) 500) (rev (sort (u # us)))))) (\<lambda>rows.
                  okS (map show_contact (contacts_of T rows)))
            | _ \<Rightarrow> okS []))))"

section \<open>Statistics\<close>

datatype period = Day | Week | Month

record senderStat =
  ss_email :: string
  ss_name :: "string option"
  ss_count :: nat

text \<open>The average is in tenths.\<close>

record emailStats =
  st_period :: period
  st_from :: string
  st_to :: string
  st_totalReceived :: nat
  st_unreadCount :: nat
  st_flaggedCount :: nat
  st_topSenders :: "senderStat list"
  st_dailyVolume :: "(string \<times> nat) list"
  st_hasAttachmentsCount :: nat
  st_avgPerDay10 :: nat

definition add_sender :: "fetchedMessage \<Rightarrow> (string, senderStat) jsmap \<Rightarrow> (string, senderStat) jsmap" where
  "add_sender row m =
     (case first_address (envelope_field row ev_from) of
        None \<Rightarrow> m
      | Some a \<Rightarrow>
          (case text_given (ia_address a) of
             None \<Rightarrow> m
           | Some mail \<Rightarrow>
               (case js_get m (to_lower mail) of
                  Some s \<Rightarrow> js_set (to_lower mail) (s\<lparr>ss_count := ss_count s + 1\<rparr>) m
                | None \<Rightarrow> js_set (to_lower mail) \<lparr>ss_email = mail, ss_name = ia_name a, ss_count = 1\<rparr> m)))"

definition day_of :: "string \<Rightarrow> string" where
  [model_defs]: "day_of written = takeWhile (\<lambda>c. c \<noteq> CHR ''T'') written"

definition add_day :: "text_env \<Rightarrow> fetchedMessage \<Rightarrow> (string, nat) jsmap \<Rightarrow> (string, nat) jsmap" where
  "add_day T row m =
     (let day = day_of (isoDate (tx_now T) (envelope_field row ev_date)) in
      js_set day ((case js_get m day of None \<Rightarrow> 0 | Some n \<Rightarrow> n) + 1) m)"

definition count_rows :: "(fetchedMessage \<Rightarrow> bool) \<Rightarrow> fetchedMessage list \<Rightarrow> nat" where
  [model_defs]: "count_rows P rows = length (filter P rows)"

text \<open>\<open>localeCompare\<close> of day texts is the order of their characters.\<close>

definition stats_of :: "text_env \<Rightarrow> period \<Rightarrow> int \<Rightarrow> nat list \<Rightarrow> fetchedMessage list \<Rightarrow> emailStats" where
  "stats_of T period since uids rows =
     (let senders = js_values (fold add_sender rows []);
          volume = sort_key fst (fold (add_day T) rows [])
      in \<lparr>st_period = period, st_from = day_of (toISOString since), st_to = day_of (toISOString (tx_now T)),
          st_totalReceived = length uids,
          st_unreadCount = count_rows (\<lambda>r. backslashed ''Seen'' \<notin> set (fx_flags r)) rows,
          st_flaggedCount = count_rows (\<lambda>r. backslashed ''Flagged'' \<in> set (fx_flags r)) rows,
          st_topSenders = take 10 (sort_key (\<lambda>s. - int (ss_count s)) senders),
          st_dailyVolume = volume,
          st_hasAttachmentsCount = count_rows (\<lambda>r. has_attachments (fx_structure r)) rows,
          st_avgPerDay10 = round_div (length uids * 10) (max 1 (length volume))\<rparr>)"

definition no_stats :: "text_env \<Rightarrow> period \<Rightarrow> int \<Rightarrow> emailStats" where
  [model_defs]: "no_stats T period since =
     \<lparr>st_period = period, st_from = day_of (toISOString since), st_to = day_of (toISOString (tx_now T)), st_totalReceived = 0,
      st_unreadCount = 0, st_flaggedCount = 0, st_topSenders = [], st_dailyVolume = [], st_hasAttachmentsCount = 0, st_avgPerDay10 = 0\<rparr>"

text \<open>\<open>since\<close> is the start of the period by the calendar of the host (\<open>setDate\<close>, \<open>setMonth\<close> in local time).\<close>

definition getEmailStats :: "svc_env \<Rightarrow> text_env \<Rightarrow> (period \<Rightarrow> int) \<Rightarrow> string \<Rightarrow> period \<Rightarrow> emailStats svc" where
  "getEmailStats E T since mailbox period =
     bindS (checkS (sanitizeMailboxName mailbox)) (\<lambda>path.
     bindS (connectS E) (\<lambda>_.
       withMailbox E path False
         (bindS (askS (sv_search E) (SearchUids [SinceDate (Some (since period))])) (\<lambda>answer.
            case answer of
              Some (u # us) \<Rightarrow>
                bindS (askS (sv_rows E) (FetchRows (u # us))) (\<lambda>rows. okS (stats_of T period (since period) (u # us) rows))
            | _ \<Rightarrow> okS (no_stats T period (since period))))))"

section \<open>The order loses nothing\<close>

lemma newest_first_set [simp]: "set (newest_first rows) = set rows" by (simp add: newest_first_def)

lemma parts_of_sorted: "set uids = set (tail_uids uids w) \<union> set (older_uids uids w)"
proof -
  let ?k = "length uids - window_of w (length uids)"
  have "set uids = set (take ?k (sort uids) @ drop ?k (sort uids))" by simp
  also have "\<dots> = set (tail_uids uids w) \<union> set (older_uids uids w)"
    unfolding set_append tail_uids_def older_uids_def by auto
  finally show ?thesis .
qed

text \<open>Every message found is listed on some page, whatever rows the server gives.\<close>

lemma order_loses_nothing: "set uids \<subseteq> set (ordered_uids uids w rows)"
  unfolding parts_of_sorted [of uids w] by (auto simp: ordered_uids_def image_iff)

lemma small_folder: "length uids \<le> DEFAULT_DATE_SORT_WINDOW \<Longrightarrow> tail_uids uids w = sort uids \<and> older_uids uids w = []"
  by (simp add: tail_uids_def older_uids_def window_of_def)

lemma order_permutes:
  assumes uids: "distinct uids" "length uids \<le> DEFAULT_DATE_SORT_WINDOW"
    and rows: "distinct (map fx_uid rows)" "set (map fx_uid rows) \<subseteq> set uids"
  shows "mset (ordered_uids uids w rows) = mset uids"
proof (rule iffD1 [OF set_eq_iff_mset_eq_distinct])
  have "mset (map fx_uid (newest_first rows)) = mset (map fx_uid rows)" by (simp add: newest_first_def)
  then have "distinct (map fx_uid (newest_first rows))" using rows(1) mset_eq_imp_distinct_iff by blast
  then show "distinct (ordered_uids uids w rows)" using uids by (auto simp: ordered_uids_def small_folder)
  show "set (ordered_uids uids w rows) = set uids" using uids rows by (auto simp: ordered_uids_def small_folder)
qed (use uids in simp)

section \<open>Pages of a folder that does not change\<close>

definition shown_page :: "(nat list \<Rightarrow> fetchedMessage list) \<Rightarrow> nat list \<Rightarrow> nat \<Rightarrow> nat \<Rightarrow> nat list" where
  "shown_page fetch uids pageSize page =
     page_slice (ordered_uids uids (page * pageSize * 3) (fetch (tail_uids uids (page * pageSize * 3)))) page pageSize"

definition answers_as_asked :: "(nat list \<Rightarrow> fetchedMessage list) \<Rightarrow> bool" where
  "answers_as_asked fetch \<longleftrightarrow> (\<forall>us. distinct us \<longrightarrow> distinct (map fx_uid (fetch us)) \<and> set (map fx_uid (fetch us)) \<subseteq> set us)"

lemma slices_concat: "concat (map (\<lambda>i. page_slice xs (Suc i) n) [0..<k]) = take (k * n) xs"
proof (induction k)
  case (Suc k)
  have "take (Suc k * n) xs = take (k * n) xs @ take n (drop (k * n) xs)" by (simp add: take_add add.commute [of n])
  then show ?case using Suc by (simp add: page_slice_def)
qed simp

text \<open>
  C40: the pages of a folder that does not change show each message exactly once, whatever the dates are
  and whichever rows the server leaves out, as long as the search found no more messages than the default
  window of the date order (250): the pages up to the last one are a permutation of what was found.
\<close>

theorem pages_show_each_message_once:
  assumes small: "distinct uids" "length uids \<le> DEFAULT_DATE_SORT_WINDOW"
    and fetch: "answers_as_asked fetch" and pages: "length uids \<le> k * pageSize"
  shows "mset (concat (map (\<lambda>i. shown_page fetch uids pageSize (Suc i)) [0..<k])) = mset uids"
proof -
  let ?order = "ordered_uids uids 0 (fetch (sort uids))"
  have same: "ordered_uids uids w rows = ordered_uids uids 0 rows" for w rows
    using small by (simp add: ordered_uids_def small_folder)
  have "shown_page fetch uids pageSize p = page_slice ?order p pageSize" for p
    unfolding shown_page_def using small_folder [OF small(2)] by (simp only: same [of "p * pageSize * 3"])
  then have "concat (map (\<lambda>i. shown_page fetch uids pageSize (Suc i)) [0..<k]) = take (k * pageSize) ?order"
    by (simp add: slices_concat)
  moreover have "distinct (map fx_uid (fetch (sort uids))) \<and> set (map fx_uid (fetch (sort uids))) \<subseteq> set (sort uids)"
    using fetch small(1) distinct_sort unfolding answers_as_asked_def by blast
  then have perm: "mset ?order = mset uids" by (intro order_permutes [OF small]) simp_all
  moreover have "length ?order = length uids" using perm by (metis size_mset)
  ultimately show ?thesis using pages by simp
qed

definition plain_row :: "nat \<Rightarrow> int \<Rightarrow> fetchedMessage" where
  "plain_row u t =
     \<lparr>fx_uid = u, fx_envelope = Some \<lparr>ev_date = Some t, ev_subject = None, ev_from = None, ev_to = None, ev_cc = None,
        ev_bcc = None, ev_messageId = None, ev_inReplyTo = None\<rparr>,
      fx_flags = [], fx_structure = None, fx_headers = None, fx_source = None\<rparr>"

lemma plain_row_simps [simp]: "fx_uid (plain_row u t) = u" "row_time (plain_row u t) = t"
  by (simp_all add: plain_row_def row_time_def envelope_field_def)

lemma plain_rows_asked: "answers_as_asked (map (\<lambda>u. plain_row u (f u)))"
  by (simp add: answers_as_asked_def comp_def)

theorem pages_show_each_message_once_witness:
  "mset (concat (map (\<lambda>i. shown_page (map (\<lambda>u. plain_row u (10 - int u))) [4, 7, 5] 2 (Suc i)) [0..<2])) = mset [4, 7, 5]"
  by (rule pages_show_each_message_once [OF _ _ plain_rows_asked]) (simp_all add: DEFAULT_DATE_SORT_WINDOW_def)

section \<open>Beyond the window\<close>

text \<open>
  The window grows with the page, so two pages of one folder may be cut from two different orders. Here are
  300 messages whose 48 first ones carry the newest dates (as after an import of mail). With 84 rows a page
  no page ever shows these 48, and the pages one and two both show the messages 217 to 264.
\<close>

definition imported :: "nat list \<Rightarrow> fetchedMessage list" where
  "imported = map (\<lambda>u. plain_row u (if u < 49 then 1000 + int u else int u))"

lemma sorted_rev_upt: "(\<And>x y. a \<le> x \<Longrightarrow> x < y \<Longrightarrow> y < b \<Longrightarrow> f y \<le> f x) \<Longrightarrow> sorted (map f (rev [a..<b]))"
  for f :: "nat \<Rightarrow> 'b :: linorder"
  unfolding sorted_map sorted_wrt_rev by (rule sorted_wrt_mono_rel [OF _ sorted_wrt_upt]) auto

lemma imported_order:
  assumes perm: "mset us = mset vs" and sorted: "sorted (map (\<lambda>u. (- (if u < 49 then 1000 + int u else int u), - int u)) vs)"
  shows "map fx_uid (newest_first (imported us)) = vs"
proof -
  let ?row = "\<lambda>u. plain_row u (if u < 49 then 1000 + int u else int u)"
  have "newest_first (imported us) = map ?row vs"
    unfolding newest_first_def
  proof (rule sort_key_inj_key_eq)
    show "mset (imported us) = mset (map ?row vs)" using perm by (simp add: imported_def)
    show "inj_on (\<lambda>r. (- row_time r, - int (fx_uid r))) (set (imported us))" by (auto simp: imported_def inj_on_def)
    show "sorted (map (\<lambda>r. (- row_time r, - int (fx_uid r))) (map ?row vs))" using sorted by (simp add: comp_def)
  qed
  then show ?thesis by (simp add: comp_def)
qed

abbreviation "all_imported \<equiv> [1..<301]"

lemma imported_key_antimono:
  "1 \<le> x \<Longrightarrow> x < y \<Longrightarrow> y < 49 \<or> 49 \<le> x \<Longrightarrow>
   (- (if y < 49 then 1000 + int y else int y), - int y) \<le> (- (if x < 49 then 1000 + int x else int x), - int x)"
  by auto

lemma imported_narrow: "map fx_uid (newest_first (imported [49..<301])) = rev [49..<301]"
proof (rule imported_order)
  show "sorted (map (\<lambda>u. (- (if u < 49 then 1000 + int u else int u), - int u)) (rev [49..<301]))"
    by (rule sorted_rev_upt, rule imported_key_antimono) linarith+
qed (simp del: upt_rec_numeral)

lemma imported_wide: "map fx_uid (newest_first (imported all_imported)) = rev [1..<49] @ rev [49..<301]"
proof (rule imported_order)
  let ?k = "\<lambda>u. (- (if u < 49 then 1000 + int u else int u), - int u)"
  have low: "sorted (map ?k (rev [1..<49]))" by (rule sorted_rev_upt, rule imported_key_antimono) linarith+
  have high: "sorted (map ?k (rev [49..<301]))" by (rule sorted_rev_upt, rule imported_key_antimono) linarith+
  show "sorted (map ?k (rev [1..<49] @ rev [49..<301]))"
    unfolding map_append sorted_append using low high by (auto simp del: upt_rec_numeral)
  show "mset all_imported = mset (rev [1..<49] @ rev [49..<301])"
    using upt_add_eq_append [of 1 49 252] by (simp del: upt_rec_numeral)
qed

lemma imported_parts:
  "tail_uids all_imported 252 = [49..<301]" "older_uids all_imported 252 = rev [1..<49]"
  "w \<ge> 300 \<Longrightarrow> tail_uids all_imported w = all_imported" "w \<ge> 300 \<Longrightarrow> older_uids all_imported w = []"
  by (simp_all add: tail_uids_def older_uids_def window_of_def DEFAULT_DATE_SORT_WINDOW_def min_def sorted_sort_id take_upt drop_upt del: upt_rec_numeral)

lemma nothing_missing: "filter (\<lambda>u. u \<notin> set (map fx_uid (imported us))) us = []"
  by (auto simp: imported_def filter_empty_conv)

lemma imported_pages:
  "shown_page imported all_imported 84 1 = rev [217..<301]"
  "p \<ge> 2 \<Longrightarrow> shown_page imported all_imported 84 p = take 84 (drop ((p - 1) * 84) (rev [1..<49] @ rev [49..<301]))"
  by (simp_all add: shown_page_def page_slice_def ordered_uids_def imported_parts imported_narrow imported_wide nothing_missing take_rev drop_upt
      del: upt_rec_numeral One_nat_def set_map)

lemma newest_never_listed:
  "p \<ge> 1 \<Longrightarrow> u < 49 \<Longrightarrow> u \<notin> set (shown_page imported all_imported 84 p)"
  "shown_page imported all_imported 84 1 = rev [217..<301]" "shown_page imported all_imported 84 2 = rev [181..<265]"
proof -
  show one: "shown_page imported all_imported 84 1 = rev [217..<301]" by (rule imported_pages)
  have "shown_page imported all_imported 84 2 = take 84 (drop 84 (rev [1..<49] @ rev [49..<301]))"
    using imported_pages(2) [of 2] by (simp del: upt_rec_numeral)
  also have "\<dots> = rev [181..<265]" by (simp add: take_rev drop_rev take_upt drop_upt del: upt_rec_numeral)
  finally show "shown_page imported all_imported 84 2 = rev [181..<265]" .
  assume p: "p \<ge> 1" "u < 49"
  show "u \<notin> set (shown_page imported all_imported 84 p)"
  proof (cases "p = 1")
    case True
    then show ?thesis using one p by (simp del: upt_rec_numeral)
  next
    case False
    then have "(p - 1) * 84 \<ge> 84" using p by simp
    then have "drop ((p - 1) * 84) (rev [1..<49] @ rev [49..<301]) = drop ((p - 1) * 84 - 48) (rev [49..<301])"
      unfolding drop_append length_rev length_upt by simp
    then have "set (drop ((p - 1) * 84) (rev [1..<49] @ rev [49..<301])) \<subseteq> set (rev [49..<301])"
      by (metis set_drop_subset)
    then have sub: "set (take 84 (drop ((p - 1) * 84) (rev [1..<49] @ rev [49..<301]))) \<subseteq> set (rev [49..<301])"
      using set_take_subset by (rule order_trans [rotated])
    have old: "u \<notin> set (rev [49..<301])" using p by (simp del: upt_rec_numeral)
    have eq: "shown_page imported all_imported 84 p = take 84 (drop ((p - 1) * 84) (rev [1..<49] @ rev [49..<301]))"
      by (rule imported_pages) (use False p in linarith)
    show ?thesis unfolding eq by (rule contra_subsetD [OF sub old])
  qed
qed

section \<open>Contacts and statistics\<close>

definition named_addresses :: "fetchedMessage list \<Rightarrow> imapAddress list" where
  "named_addresses rows = filter (\<lambda>a. text_given (ia_address a) \<noteq> None) (concat (map row_addresses rows))"

definition frequencies :: "contact_map \<Rightarrow> nat" where
  "frequencies m = sum_list (map ct_frequency (js_values m))"

lemma sum_values_set:
  "distinct (map fst m) \<Longrightarrow> sum_list (map f (map snd (js_set k v m))) + (case js_get m k of None \<Rightarrow> 0 | Some o1 \<Rightarrow> f o1) =
     sum_list (map f (map snd m)) + f v" for f :: "'b \<Rightarrow> nat"
  by (induction m) (auto split: option.split)

lemma contact_step:
  assumes "distinct (map fst m)"
  shows "distinct (map fst (add_contact d a m)) \<and>
    frequencies (add_contact d a m) = frequencies m + (if text_given (ia_address a) = None then 0 else 1)"
proof (cases "text_given (ia_address a)")
  case (Some x)
  show ?thesis
  proof (cases "js_get m (to_lower x)")
    case None
    show ?thesis
      using assms None sum_values_set [OF assms, of ct_frequency "to_lower x" "\<lparr>ct_name = ia_name a, ct_email = x, ct_frequency = 1, ct_lastSeen = d\<rparr>"]
      by (simp add: add_contact_def Some frequencies_def js_values_def distinct_update)
  next
    case (Some c)
    have again: "ct_frequency (seen_again a d c) = ct_frequency c + 1" by (simp add: seen_again_def Let_def split: option.split)
    show ?thesis
      using assms sum_values_set [OF assms, of ct_frequency "to_lower x" "seen_again a d c"] again
      by (simp add: add_contact_def Some \<open>text_given (ia_address a) = Some x\<close> frequencies_def js_values_def distinct_update)
  qed
qed (simp add: add_contact_def assms)

lemma contact_fold:
  "distinct (map fst m) \<Longrightarrow> distinct (map fst (fold (add_contact d) as m)) \<and>
     frequencies (fold (add_contact d) as m) = frequencies m + length (filter (\<lambda>a. text_given (ia_address a) \<noteq> None) as)"
proof (induction as arbitrary: m)
  case (Cons a as)
  show ?case using contact_step [OF Cons.prems, of d a] Cons.IH [of "add_contact d a m"] by auto
qed simp

lemma contact_rows:
  "distinct (map fst m) \<Longrightarrow>
   (let r = fold (\<lambda>row. fold (add_contact (seen_at T row)) (row_addresses row)) rows m
    in distinct (map fst r) \<and> frequencies r = frequencies m + length (named_addresses rows))"
proof (induction rows arbitrary: m)
  case (Cons row rows)
  show ?case
    using contact_fold [OF Cons.prems, of "seen_at T row" "row_addresses row"]
      Cons.IH [of "fold (add_contact (seen_at T row)) (row_addresses row) m"]
    by (auto simp: Let_def named_addresses_def)
qed (simp add: Let_def named_addresses_def)

text \<open>Every address of the scanned rows counts once, for one contact.\<close>

lemma frequencies_add_up: "sum_list (map ct_frequency (contacts_of T rows)) = length (named_addresses rows)"
proof -
  have "mset (contacts_of T rows) = mset (js_values (contact_map_of T rows))" by (simp add: contacts_of_def)
  then have "sum_list (map ct_frequency (contacts_of T rows)) = frequencies (contact_map_of T rows)"
    unfolding frequencies_def by (metis mset_map sum_mset_sum_list)
  also have "\<dots> = length (named_addresses rows)"
    using contact_rows [of "[]" T rows] by (simp add: contact_map_of_def Let_def frequencies_def js_values_def)
  finally show ?thesis .
qed

lemma day_step:
  "distinct (map fst m) \<Longrightarrow> distinct (map fst (add_day T row m)) \<and> sum_list (map snd (add_day T row m)) = Suc (sum_list (map snd m))"
proof -
  let ?k = "day_of (isoDate (tx_now T) (envelope_field row ev_date))"
  assume d: "distinct (map fst m)"
  show "distinct (map fst (add_day T row m)) \<and> sum_list (map snd (add_day T row m)) = Suc (sum_list (map snd m))"
    using d sum_values_set [OF d, of id ?k "1"] sum_values_set [OF d, of id ?k "the (js_get m ?k) + 1"]
    by (cases "js_get m ?k") (simp_all add: add_day_def Let_def distinct_update)
qed

lemma day_fold:
  "distinct (map fst m) \<Longrightarrow> sum_list (map snd (fold (add_day T) rows m)) = sum_list (map snd m) + length rows"
proof (induction rows arbitrary: m)
  case (Cons row rows)
  show ?case using day_step [OF Cons.prems, of T row] Cons.IH [of "add_day T row m"] by simp
qed simp

text \<open>
  The numbers of the statistics fit together: the daily volumes add up to the messages read, the days
  are listed once and in order, no count exceeds the messages read, and at most ten senders are named.
\<close>

theorem statistics_add_up:
  "sum_list (map snd (st_dailyVolume (stats_of T period since uids rows))) = length rows \<and>
   sorted (map fst (st_dailyVolume (stats_of T period since uids rows))) \<and>
   st_unreadCount (stats_of T period since uids rows) \<le> length rows \<and>
   st_flaggedCount (stats_of T period since uids rows) \<le> length rows \<and>
   st_hasAttachmentsCount (stats_of T period since uids rows) \<le> length rows \<and>
   length (st_topSenders (stats_of T period since uids rows)) \<le> 10"
proof -
  let ?days = "fold (add_day T) rows []"
  have "mset (sort_key fst ?days) = mset ?days" by simp
  then have "sum_list (map snd (sort_key fst ?days)) = sum_list (map snd ?days)" by (metis mset_map sum_mset_sum_list)
  then show ?thesis using day_fold [of "[]" T rows] by (simp add: stats_of_def Let_def count_rows_def)
qed

section \<open>Listing changes nothing\<close>

lemma quiet_lists:
  "quiet None (listEmails E T o1)" "quiet None (searchEmails E T q o2)" "quiet None (extractContacts E T m n)" "quiet None (getEmailStats E T since mb p)"
proof -
  have page: "quiet (Some l) (page_of_search E T cs wanted a b)" for l cs wanted a b
    unfolding page_of_search_def attachment_filter_def orderUidsByDate_def Let_def
    by (auto intro!: quiet_rules split: option.split)
  then show "quiet None (listEmails E T o1)" "quiet None (searchEmails E T q o2)"
    unfolding listEmails_def searchEmails_def by (auto intro!: quiet_rules)
  show "quiet None (extractContacts E T m n)" "quiet None (getEmailStats E T since mb p)"
    unfolding extractContacts_def getEmailStats_def by (auto intro!: quiet_rules split: option.split list.split)
qed

end
