(* ===== verification/Connections.thy ===== *)
theory Connections
  imports Types Texts Backoff Redaction
begin

text \<open>
  The connection manager (src/connections/manager.ts, src/connections/auth.ts): account lookup, the
  options handed to imapflow and nodemailer, and the shared connections of each account. The
  connecting functions are cut where they await: \<open>getImapClient\<close> gives a client, joins the attempt
  in flight or starts one, and \<open>imap_connected\<close> or \<open>imap_failed\<close> ends the attempt. Clients and
  transports are numbers; \<open>opened\<close> lists the sockets that are open, whoever holds them. The text
  of a failure arrives redacted.
\<close>

section \<open>Credentials\<close>

definition ISSUED_TOKENS_KEPT :: nat where "ISSUED_TOKENS_KEPT = 4"

definition recordIssuedToken :: "string \<Rightarrow> string \<Rightarrow> (string, string list) jsmap \<Rightarrow> (string, string list) jsmap" where
  "recordIssuedToken account token issued =
     (let older = filter (\<lambda>t. t \<noteq> token) (case js_get issued account of None \<Rightarrow> [] | Some ts \<Rightarrow> ts)
      in js_set account (take ISSUED_TOKENS_KEPT (token # older)) issued)"

definition sentCredentials_of :: "accountConfig \<Rightarrow> (string, string list) jsmap \<Rightarrow> sentCredentials" where
  "sentCredentials_of account issued =
     (let tokens = (if acc_oauth2 account \<noteq> None
                    then (case js_get issued (acc_name account) of None \<Rightarrow> [] | Some ts \<Rightarrow> ts) else [])
      in \<lparr>sc_user = acc_username account, sc_secrets = acc_password account # map Some tokens\<rparr>)"

datatype imapAuth = PasswordAuth string "string option" | TokenAuth string string

text \<open>\<open>token\<close> is what the token source gave, \<open>None\<close> when there is no source or it is not asked.\<close>

definition buildImapAuth :: "accountConfig \<Rightarrow> string option \<Rightarrow> (string, string list) jsmap \<Rightarrow>
    imapAuth \<times> (string, string list) jsmap" where
  "buildImapAuth account token issued =
     (case (acc_oauth2 account, token) of
        (Some oauth2, Some t) \<Rightarrow>
          (TokenAuth (acc_username account) t, recordIssuedToken (acc_name account) t issued)
      | _ \<Rightarrow> (PasswordAuth (acc_username account) (acc_password account), issued))"

datatype smtpAuth = SmtpPassword string "string option" | SmtpOAuth2 string

definition buildSmtpAuth :: "accountConfig \<Rightarrow> bool \<Rightarrow> smtpAuth" where
  "buildSmtpAuth account hasTokens =
     (if acc_oauth2 account \<noteq> None \<and> hasTokens then SmtpOAuth2 (acc_username account)
      else SmtpPassword (acc_username account) (acc_password account))"

text \<open>The provision callback: the answer of the token source, with the expiry nodemailer gets.\<close>

definition provisionCallback ::
  "accountConfig \<Rightarrow> oauth2Config \<Rightarrow> number \<Rightarrow> string + string \<Rightarrow> (string, string list) jsmap \<Rightarrow>
    (string + string \<times> number) \<times> (string, string list) jsmap" where
  "provisionCallback account oauth2 now answer issued =
     (case answer of
        Inl err \<Rightarrow> (Inl err, issued)
      | Inr token \<Rightarrow>
          (Inr (token, case oa_tokenExpiry oauth2 of None \<Rightarrow> now | Some e \<Rightarrow> e),
           recordIssuedToken (acc_name account) token issued))"

section \<open>Options\<close>

record imapFlowOptions =
  io_host :: string
  io_port :: nat
  io_secure :: bool
  io_doSTARTTLS :: "bool option"
  io_disableIMAP4rev2 :: "bool option"
  io_maxIdleTime :: "number option"
  io_autoIdleDelay :: "number option"
  io_rejectUnauthorized :: bool

definition certificatesRequired :: "bool \<Rightarrow> bool" where
  "certificatesRequired verifySsl = verifySsl"

definition buildImapFlowOptions :: "accountConfig \<Rightarrow> number option \<Rightarrow> number option \<Rightarrow> imapFlowOptions" where
  "buildImapFlowOptions account maxIdle autoIdle =
     (let c = acc_imap account in
      \<lparr>io_host = imap_host c, io_port = imap_port c, io_secure = imap_tls c,
       io_doSTARTTLS = (if \<not> imap_tls c \<and> imap_starttls c then Some True else None),
       io_disableIMAP4rev2 = (if imap_disableImap4rev2 c = Some True then Some True else None),
       io_maxIdleTime = maxIdle, io_autoIdleDelay = autoIdle,
       io_rejectUnauthorized = certificatesRequired (imap_verifySsl c)\<rparr>)"

record smtpOptions =
  so_host :: string
  so_port :: nat
  so_secure :: bool
  so_requireTLS :: bool
  so_ignoreTLS :: bool
  so_rejectUnauthorized :: bool
  so_auth :: smtpAuth
  so_pool :: bool
  so_maxConnections :: "nat option"
  so_maxMessages :: "nat option"

definition buildSmtpTransportOptions :: "accountConfig \<Rightarrow> smtpAuth \<Rightarrow> smtpOptions" where
  "buildSmtpTransportOptions account auth =
     (let c = acc_smtp account;
          pool = (case smtp_pool c of None \<Rightarrow> \<lparr>pool_enabled = True, pool_maxConnections = 1, pool_maxMessages = 100\<rparr> | Some p \<Rightarrow> p)
      in \<lparr>so_host = smtp_host c, so_port = smtp_port c, so_secure = smtp_tls c, so_requireTLS = smtp_starttls c,
          so_ignoreTLS = (\<not> smtp_tls c \<and> \<not> smtp_starttls c), so_rejectUnauthorized = smtp_verifySsl c, so_auth = auth,
          so_pool = pool_enabled pool,
          so_maxConnections = (if pool_enabled pool then Some (pool_maxConnections pool) else None),
          so_maxMessages = (if pool_enabled pool then Some (pool_maxMessages pool) else None)\<rparr>)"

section \<open>Account lookup\<close>

datatype account_error = Ambiguous string "accountConfig list" | UnknownAccount string | DefaultNotFound

definition same_text :: "string \<Rightarrow> string \<Rightarrow> bool" where
  [model_defs]: "same_text a b \<longleftrightarrow> to_lower a = to_lower b"

definition findAccountByKey :: "(string, accountConfig) jsmap \<Rightarrow> string \<Rightarrow> account_error + accountConfig option" where
  "findAccountByKey accounts key =
     (case js_get accounts key of
        Some exact \<Rightarrow> Inr (Some exact)
      | None \<Rightarrow>
          (let values = js_values accounts;
               byName = filter (\<lambda>a. same_text (acc_name a) key) values;
               matches = (if byName \<noteq> [] then byName else filter (\<lambda>a. same_text (acc_email a) key) values)
           in if length matches > 1 then Inl (Ambiguous key matches)
              else Inr (case matches of [] \<Rightarrow> None | a # _ \<Rightarrow> Some a)))"

definition getAccount :: "(string, accountConfig) jsmap \<Rightarrow> string option \<Rightarrow> string option \<Rightarrow> account_error + accountConfig" where
  "getAccount accounts defaultAccount name =
     (let trimmed = (case name of None \<Rightarrow> [] | Some n \<Rightarrow> trim n);
          fallback =
            (let configuredDefault = (case defaultAccount of None \<Rightarrow> [] | Some d \<Rightarrow> trim d) in
             if configuredDefault \<noteq> [] then
               bindE (findAccountByKey accounts configuredDefault)
                 (\<lambda>found. case found of Some a \<Rightarrow> Inr a | None \<Rightarrow> Inl DefaultNotFound)
             else if length accounts = 1 then Inr (hd (js_values accounts))
             else Inl (UnknownAccount trimmed))
      in if trimmed = [] then fallback
         else bindE (findAccountByKey accounts trimmed)
           (\<lambda>direct. case direct of
              Some a \<Rightarrow> Inr a
            | None \<Rightarrow> if to_lower trimmed \<noteq> ''default'' then Inl (UnknownAccount trimmed) else fallback))"

definition make_accounts :: "accountConfig list \<Rightarrow> (string, accountConfig) jsmap" where
  "make_accounts accounts = fold (\<lambda>a. js_set (acc_name a) a) accounts []"

lemma make_accounts_get: "js_get (make_accounts accs) key = Some a \<Longrightarrow> acc_name a = key \<and> a \<in> set accs"
  unfolding make_accounts_def by (induction accs rule: rev_induct) (auto split: if_splits)

lemma make_accounts_wf: "js_wf (make_accounts accs)"
  unfolding make_accounts_def by (induction accs rule: rev_induct) auto

lemma make_accounts_values: "set (js_values (make_accounts accs)) \<subseteq> set accs"
proof
  fix a assume "a \<in> set (js_values (make_accounts accs))"
  then obtain k where "(k, a) \<in> set (make_accounts accs)" by (auto simp: js_values_def)
  then have "js_get (make_accounts accs) k = Some a" using make_accounts_wf by (simp add: js_get_in_set)
  then show "a \<in> set accs" using make_accounts_get by blast
qed

lemma filter_single: "length (filter P xs) \<le> 1 \<Longrightarrow> filter P xs = a # ys \<Longrightarrow> b \<in> set xs \<Longrightarrow> P b \<Longrightarrow> b = a"
proof -
  assume "length (filter P xs) \<le> 1" and e: "filter P xs = a # ys" and b: "b \<in> set xs" "P b"
  then have "ys = []" by simp
  moreover have "b \<in> set (filter P xs)" using b by simp
  ultimately show "b = a" using e by simp
qed

lemma findAccountByKey_sound:
  assumes "findAccountByKey (make_accounts accs) key = Inr (Some a)"
  shows "a \<in> set accs \<and>
    (acc_name a = key \<or>
     same_text (acc_name a) key \<and> list_all (\<lambda>b. same_text (acc_name b) key \<longrightarrow> b = a) (js_values (make_accounts accs)) \<or>
     same_text (acc_email a) key \<and> list_all (\<lambda>b. \<not> same_text (acc_name b) key \<and> (same_text (acc_email b) key \<longrightarrow> b = a))
       (js_values (make_accounts accs)))"
proof (cases "js_get (make_accounts accs) key")
  case None
  let ?vs = "js_values (make_accounts accs)"
  let ?byName = "filter (\<lambda>a. same_text (acc_name a) key) ?vs"
  let ?byEmail = "filter (\<lambda>a. same_text (acc_email a) key) ?vs"
  show ?thesis
  proof (cases "?byName = []")
    case True
    then have "length ?byEmail \<le> 1" and "\<exists>ys. ?byEmail = a # ys"
      using assms None by (auto simp: findAccountByKey_def Let_def split: if_splits list.splits)
    then obtain ys where len: "length ?byEmail \<le> 1" and e: "?byEmail = a # ys" by blast
    have a: "a \<in> set ?byEmail" by (simp add: e)
    have "\<forall>b\<in>set ?vs. same_text (acc_email b) key \<longrightarrow> b = a" using filter_single [OF len e] by blast
    moreover have "\<forall>b\<in>set ?vs. \<not> same_text (acc_name b) key" using True by (simp add: filter_empty_conv)
    ultimately show ?thesis using a make_accounts_values by (auto simp: list_all_iff)
  next
    case False
    then have "length ?byName \<le> 1" and "\<exists>ys. ?byName = a # ys"
      using assms None by (auto simp: findAccountByKey_def Let_def split: if_splits list.splits)
    then obtain ys where len: "length ?byName \<le> 1" and e: "?byName = a # ys" by blast
    have a: "a \<in> set ?byName" by (simp add: e)
    have "\<forall>b\<in>set ?vs. same_text (acc_name b) key \<longrightarrow> b = a" using filter_single [OF len e] by blast
    then show ?thesis using a make_accounts_values by (auto simp: list_all_iff)
  qed
next
  case (Some x)
  then show ?thesis using assms make_accounts_get by (auto simp: findAccountByKey_def)
qed

definition resolveAccountName :: "(string, accountConfig) jsmap \<Rightarrow> string option \<Rightarrow> string option \<Rightarrow> account_error + string" where
  "resolveAccountName accounts defaultAccount name =
     bindE (getAccount accounts defaultAccount name) (\<lambda>a. Inr (acc_name a))"

definition getAccountNames :: "(string, accountConfig) jsmap \<Rightarrow> string list" where
  "getAccountNames accounts = js_keys accounts"

text \<open>
  An account named by the caller resolves to that account only: by its exact name, by the one name
  that differs in case, or, when no name fits, by the one address that fits. A name that is neither
  blank nor \<open>default\<close> never falls back to another account.
\<close>

theorem named_account_resolution:
  assumes "getAccount (make_accounts accs) configured (Some name) = Inr a"
    and "trim name \<noteq> []" and "to_lower (trim name) \<noteq> ''default''"
  shows "a \<in> set accs \<and>
    (acc_name a = trim name \<or>
     same_text (acc_name a) (trim name) \<and>
       list_all (\<lambda>b. same_text (acc_name b) (trim name) \<longrightarrow> b = a) (js_values (make_accounts accs)) \<or>
     same_text (acc_email a) (trim name) \<and>
       list_all (\<lambda>b. \<not> same_text (acc_name b) (trim name) \<and> (same_text (acc_email b) (trim name) \<longrightarrow> b = a))
         (js_values (make_accounts accs)))"
proof -
  have "findAccountByKey (make_accounts accs) (trim name) = Inr (Some a)"
    using assms by (auto simp: getAccount_def Let_def bindE_Inr_iff split: option.splits)
  then show ?thesis by (rule findAccountByKey_sound)
qed

definition test_account :: "string \<Rightarrow> string \<Rightarrow> accountConfig" where
  "test_account name email = \<lparr>acc_name = name, acc_email = email, acc_fullName = None, acc_username = email,
     acc_password = Some ''pw'', acc_oauth2 = None, acc_sentMailbox = None,
     acc_imap = \<lparr>imap_host = ''imap'', imap_port = 993, imap_tls = True, imap_starttls = False, imap_verifySsl = True,
       imap_disableImap4rev2 = None, imap_sieveHost = None, imap_sievePort = None\<rparr>,
     acc_smtp = \<lparr>smtp_host = ''smtp'', smtp_port = 465, smtp_tls = True, smtp_starttls = False, smtp_verifySsl = True,
       smtp_pool = None\<rparr>\<rparr>"

theorem named_account_resolution_witness:
  "getAccount (make_accounts [test_account ''work'' ''a@x'', test_account ''home'' ''b@x'']) None (Some '' HOME '') =
     Inr (test_account ''home'' ''b@x'') \<and>
   test_account ''home'' ''b@x'' \<in> set [test_account ''work'' ''a@x'', test_account ''home'' ''b@x'']"
proof
  show found: "getAccount (make_accounts [test_account ''work'' ''a@x'', test_account ''home'' ''b@x'']) None (Some '' HOME '') =
     Inr (test_account ''home'' ''b@x'')"
    by code_simp
  have "trim '' HOME '' \<noteq> []" "to_lower (trim '' HOME '') \<noteq> ''default''" by code_simp+
  from named_account_resolution [OF found this]
  show "test_account ''home'' ''b@x'' \<in> set [test_account ''work'' ''a@x'', test_account ''home'' ''b@x'']" by blast
qed

section \<open>Shared connections\<close>

text \<open>
  One pool for IMAP and one for SMTP: the map of clients, the map of attempts in flight, and the
  sockets that are open with the account they serve. An attempt prepares its credentials, opens its
  client, and is confirmed until it stores the client (the log line is awaited in between).
\<close>

type_synonym client = nat

datatype attempt = Preparing | Opening client | Confirmed client

record pool =
  clients :: "(string, client) jsmap"
  connecting :: "(string, attempt) jsmap"
  open_sockets :: "(string \<times> client) list"
  next_client :: client

record manager =
  imap :: pool
  smtp :: pool
  failures :: connectBackoff

definition new_pool :: pool where
  "new_pool = \<lparr>clients = [], connecting = [], open_sockets = [], next_client = 0\<rparr>"

definition new_manager :: manager where
  "new_manager = \<lparr>imap = new_pool, smtp = new_pool, failures = []\<rparr>"

definition hang_up :: "string \<Rightarrow> client \<Rightarrow> pool \<Rightarrow> pool" where
  "hang_up n c p = p\<lparr>open_sockets := removeAll (n, c) (open_sockets p)\<rparr>"

definition forget_if_current :: "string \<Rightarrow> client \<Rightarrow> pool \<Rightarrow> pool" where
  "forget_if_current n c p = (if js_get (clients p) n = Some c then p\<lparr>clients := js_delete n (clients p)\<rparr> else p)"

text \<open>The \<open>error\<close> and \<open>close\<close> events of a client.\<close>

definition bindImapLifecycle :: "string \<Rightarrow> client \<Rightarrow> pool \<Rightarrow> pool" where
  "bindImapLifecycle n c p = hang_up n c (forget_if_current n c p)"

datatype connect_error = Lookup account_error | BackingOff backoff_error

datatype connect_answer = Ready client | Verify client | Joined | Started

text \<open>
  The end of both getters: join the attempt in flight or start one, which the backoff may refuse.
  (A refused attempt leaves the map within the same turn of the event loop.)
\<close>

definition join_or_start :: "string \<Rightarrow> string \<Rightarrow> number \<Rightarrow> connectBackoff \<Rightarrow> pool \<Rightarrow> (connect_error + connect_answer) \<times> pool" where
  "join_or_start protocol n now table p =
     (if js_get (connecting p) n \<noteq> None then (Inr Joined, p)
      else case assertReady protocol n now table of
        Inl e \<Rightarrow> (Inl (BackingOff e), p)
      | Inr _ \<Rightarrow> (Inr Started, p\<lparr>connecting := js_set n Preparing (connecting p)\<rparr>))"

definition getImapClient :: "(client \<Rightarrow> bool) \<Rightarrow> number \<Rightarrow> string \<Rightarrow> manager \<Rightarrow> (connect_error + connect_answer) \<times> manager" where
  "getImapClient isUsable now n m =
     (case js_get (clients (imap m)) n of
        Some existing \<Rightarrow>
          if isUsable existing then (Inr (Ready existing), m)
          else (case join_or_start ''IMAP'' n now (failures m)
                       (hang_up n existing ((imap m)\<lparr>clients := js_delete n (clients (imap m))\<rparr>)) of
                  (r, p) \<Rightarrow> (r, m\<lparr>imap := p\<rparr>))
      | None \<Rightarrow> (case join_or_start ''IMAP'' n now (failures m) (imap m) of (r, p) \<Rightarrow> (r, m\<lparr>imap := p\<rparr>)))"

definition getSmtpTransport :: "bool \<Rightarrow> number \<Rightarrow> string \<Rightarrow> manager \<Rightarrow> (connect_error + connect_answer) \<times> manager" where
  "getSmtpTransport verify now n m =
     (case js_get (clients (smtp m)) n of
        Some existing \<Rightarrow> (Inr (if verify then Verify existing else Ready existing), m)
      | None \<Rightarrow> (case join_or_start ''SMTP'' n now (failures m) (smtp m) of (r, p) \<Rightarrow> (r, m\<lparr>smtp := p\<rparr>)))"

text \<open>What \<open>getSmtpTransport\<close> does when the transport it verifies turns out to be dead.\<close>

definition verify_failed :: "client \<Rightarrow> number \<Rightarrow> string \<Rightarrow> manager \<Rightarrow> (connect_error + connect_answer) \<times> manager" where
  "verify_failed existing now n m =
     (let p = bindImapLifecycle n existing (smtp m) in
      case js_get (clients (smtp m)) n of
        Some current \<Rightarrow>
          if current \<noteq> existing then (Inr (Ready current), m\<lparr>smtp := p\<rparr>)
          else (case join_or_start ''SMTP'' n now (failures m) p of (r, q) \<Rightarrow> (r, m\<lparr>smtp := q\<rparr>))
      | None \<Rightarrow> (case join_or_start ''SMTP'' n now (failures m) p of (r, q) \<Rightarrow> (r, m\<lparr>smtp := q\<rparr>)))"

text \<open>
  An attempt in flight: its client is made once the credentials are there, the connect (or the
  verification) confirms it, and the client is stored; a failure closes what was opened.
\<close>

definition attempt_opens :: "string \<Rightarrow> pool \<Rightarrow> pool" where
  "attempt_opens n p =
     (if js_get (connecting p) n = Some Preparing then
        p\<lparr>connecting := js_set n (Opening (next_client p)) (connecting p),
          open_sockets := (n, next_client p) # open_sockets p, next_client := Suc (next_client p)\<rparr>
      else p)"

definition attempt_confirmed :: "string \<Rightarrow> string \<Rightarrow> pool \<Rightarrow> connectBackoff \<Rightarrow> pool \<times> connectBackoff" where
  "attempt_confirmed protocol n p table =
     (case js_get (connecting p) n of
        Some (Opening c) \<Rightarrow> (p\<lparr>connecting := js_set n (Confirmed c) (connecting p)\<rparr>, recordSuccess protocol n table)
      | _ \<Rightarrow> (p, table))"

definition attempt_stored :: "string \<Rightarrow> pool \<Rightarrow> pool" where
  "attempt_stored n p =
     (case js_get (connecting p) n of
        Some (Confirmed c) \<Rightarrow> p\<lparr>clients := js_set n c (clients p), connecting := js_delete n (connecting p)\<rparr>
      | _ \<Rightarrow> p)"

definition attempt_failed :: "string \<Rightarrow> string \<Rightarrow> string \<Rightarrow> number \<Rightarrow> number \<Rightarrow> pool \<Rightarrow> connectBackoff \<Rightarrow> pool \<times> connectBackoff" where
  "attempt_failed protocol n err now rnd p table =
     (case js_get (connecting p) n of
        Some Preparing \<Rightarrow> (p\<lparr>connecting := js_delete n (connecting p)\<rparr>, recordFailure protocol n err now rnd table)
      | Some (Opening c) \<Rightarrow>
          (hang_up n c (p\<lparr>connecting := js_delete n (connecting p)\<rparr>), recordFailure protocol n err now rnd table)
      | _ \<Rightarrow> (p, table))"

text \<open>
  The end of \<open>closeAll\<close>, after the attempts in flight have settled: every client is logged out (which
  closes it whatever the server answers) or closed, and leaves its map.
\<close>

fun close_clients :: "(string \<times> client) list \<Rightarrow> pool \<Rightarrow> pool" where
  "close_clients [] p = p"
| "close_clients ((n, c) # cs) p = close_clients cs (hang_up n c (p\<lparr>clients := js_delete n (clients p)\<rparr>))"

definition closeAll :: "manager \<Rightarrow> manager" where
  "closeAll m = m\<lparr>imap := close_clients (clients (imap m)) (imap m), smtp := close_clients (clients (smtp m)) (smtp m)\<rparr>"

text \<open>Every interleaving of callers, attempts and connection events.\<close>

inductive manager_step :: "manager \<Rightarrow> manager \<Rightarrow> bool" where
  step_get_imap: "manager_step m (snd (getImapClient isUsable now n m))"
| step_get_smtp: "manager_step m (snd (getSmtpTransport verify now n m))"
| step_verify_failed: "manager_step m (snd (verify_failed c now n m))"
| step_imap_event: "manager_step m (m\<lparr>imap := bindImapLifecycle n c (imap m)\<rparr>)"
| step_imap_opens: "manager_step m (m\<lparr>imap := attempt_opens n (imap m)\<rparr>)"
| step_smtp_opens: "manager_step m (m\<lparr>smtp := attempt_opens n (smtp m)\<rparr>)"
| step_imap_confirmed: "attempt_confirmed ''IMAP'' n (imap m) (failures m) = (p, t) \<Longrightarrow> manager_step m (m\<lparr>imap := p, failures := t\<rparr>)"
| step_smtp_confirmed: "attempt_confirmed ''SMTP'' n (smtp m) (failures m) = (p, t) \<Longrightarrow> manager_step m (m\<lparr>smtp := p, failures := t\<rparr>)"
| step_imap_stored: "manager_step m (m\<lparr>imap := attempt_stored n (imap m)\<rparr>)"
| step_smtp_stored: "manager_step m (m\<lparr>smtp := attempt_stored n (smtp m)\<rparr>)"
| step_imap_failed: "attempt_failed ''IMAP'' n err now rnd (imap m) (failures m) = (p, t) \<Longrightarrow> manager_step m (m\<lparr>imap := p, failures := t\<rparr>)"
| step_smtp_failed: "attempt_failed ''SMTP'' n err now rnd (smtp m) (failures m) = (p, t) \<Longrightarrow> manager_step m (m\<lparr>smtp := p, failures := t\<rparr>)"
| step_close_all: "connecting (imap m) = [] \<Longrightarrow> connecting (smtp m) = [] \<Longrightarrow> manager_step m (closeAll m)"

definition held :: "pool \<Rightarrow> string \<Rightarrow> client option" where
  "held p n =
     (case js_get (clients p) n of
        Some c \<Rightarrow> Some c
      | None \<Rightarrow> (case js_get (connecting p) n of
          Some (Opening c) \<Rightarrow> Some c | Some (Confirmed c) \<Rightarrow> Some c | _ \<Rightarrow> None))"

definition pool_ok :: "pool \<Rightarrow> bool" where
  "pool_ok p \<longleftrightarrow> js_wf (clients p) \<and> distinct (open_sockets p) \<and> (\<forall>(n, c) \<in> set (open_sockets p). held p n = Some c) \<and>
     (\<forall>n. js_get (connecting p) n \<noteq> None \<longrightarrow> js_get (clients p) n = None)"

lemma pool_ok_new: "pool_ok new_pool"
  by (simp add: pool_ok_def new_pool_def)

lemma pool_ok_drop:
  "pool_ok p \<Longrightarrow> js_get (clients p) n = Some c \<Longrightarrow> pool_ok (hang_up n c (p\<lparr>clients := js_delete n (clients p)\<rparr>))"
  by (fastforce simp: pool_ok_def hang_up_def held_def distinct_removeAll split: option.splits attempt.splits if_splits)

lemma hang_up_simps [simp]:
  "clients (hang_up n c p) = clients p" "connecting (hang_up n c p) = connecting p"
  "open_sockets (hang_up n c p) = removeAll (n, c) (open_sockets p)"
  by (simp_all add: hang_up_def)

lemma held_hang_up [simp]: "held (hang_up n c p) n' = held p n'"
  by (simp add: held_def split: option.split)

lemma pool_ok_hang_up: "pool_ok p \<Longrightarrow> pool_ok (hang_up n c p)"
  by (auto simp: pool_ok_def distinct_removeAll)

lemma pool_ok_event: "pool_ok p \<Longrightarrow> pool_ok (bindImapLifecycle n c p)"
  by (simp add: bindImapLifecycle_def forget_if_current_def pool_ok_drop pool_ok_hang_up)

lemma pool_ok_join:
  "pool_ok p \<Longrightarrow> js_get (clients p) n = None \<Longrightarrow> pool_ok (snd (join_or_start protocol n now table p))"
  by (fastforce simp: pool_ok_def join_or_start_def held_def split: option.splits attempt.splits sum.splits if_splits)

lemma pool_ok_opens: "pool_ok p \<Longrightarrow> pool_ok (attempt_opens n p)"
  by (fastforce simp: pool_ok_def attempt_opens_def held_def split: option.splits attempt.splits if_splits)

lemma pool_ok_confirmed: "pool_ok p \<Longrightarrow> attempt_confirmed protocol n p table = (q, t) \<Longrightarrow> pool_ok q"
  by (fastforce simp: pool_ok_def attempt_confirmed_def held_def split: option.splits attempt.splits if_splits)

lemma pool_ok_stored: "pool_ok p \<Longrightarrow> pool_ok (attempt_stored n p)"
  by (fastforce simp: pool_ok_def attempt_stored_def held_def split: option.splits attempt.splits if_splits)

lemma pool_ok_failed: "pool_ok p \<Longrightarrow> attempt_failed protocol n err now rnd p table = (q, t) \<Longrightarrow> pool_ok q"
  by (fastforce simp: pool_ok_def attempt_failed_def hang_up_def held_def distinct_removeAll split: option.splits attempt.splits if_splits)

lemma pool_ok_close_clients:
  "pool_ok p \<Longrightarrow> js_wf cs \<Longrightarrow> \<forall>(n, c) \<in> set cs. js_get (clients p) n = Some c \<Longrightarrow> pool_ok (close_clients cs p)"
proof (induction cs p rule: close_clients.induct)
  case (2 n c cs p)
  have "\<forall>(n', c') \<in> set cs. js_get (js_delete n (clients p)) n' = Some c'"
  proof clarify
    fix n' c' assume mem: "(n', c') \<in> set cs"
    have "n' \<noteq> n" using 2(3) rev_image_eqI [OF mem, of n' fst] by (auto simp: js_wf_def)
    with 2(4) mem show "js_get (js_delete n (clients p)) n' = Some c'" by fastforce
  qed
  with 2 show ?case by (simp add: pool_ok_drop js_wf_def)
qed simp

lemma close_clients_sockets:
  "open_sockets (close_clients cs p) = filter (\<lambda>s. s \<notin> set cs) (open_sockets p)"
  "connecting (close_clients cs p) = connecting p"
  by (induction cs p rule: close_clients.induct) (auto simp: removeAll_filter_not_eq intro!: filter_cong)

lemma pool_ok_closed: "pool_ok p \<Longrightarrow> pool_ok (close_clients (clients p) p)"
  by (rule pool_ok_close_clients) (auto simp: pool_ok_def js_get_in_set)

lemma closed_pool_empty: "pool_ok p \<Longrightarrow> connecting p = [] \<Longrightarrow> open_sockets (close_clients (clients p) p) = []"
  by (fastforce simp: close_clients_sockets pool_ok_def held_def filter_empty_conv js_get_in_set split: option.splits)

definition manager_ok :: "manager \<Rightarrow> bool" where
  "manager_ok m \<longleftrightarrow> pool_ok (imap m) \<and> pool_ok (smtp m)"

lemma pool_ok_getters:
  "manager_ok m \<Longrightarrow> manager_ok (snd (getImapClient isUsable now n m))"
  "manager_ok m \<Longrightarrow> manager_ok (snd (getSmtpTransport verify now n m))"
  using pool_ok_join [OF pool_ok_drop, of "imap m" n _ n "''IMAP''" now "failures m"]
    pool_ok_join [of "imap m" n "''IMAP''" now "failures m"] pool_ok_join [of "smtp m" n "''SMTP''" now "failures m"]
  by (auto simp: manager_ok_def getImapClient_def getSmtpTransport_def split: option.split prod.split)

lemma pool_ok_verify_failed: "manager_ok m \<Longrightarrow> manager_ok (snd (verify_failed c now n m))"
proof -
  assume ok: "manager_ok m"
  then have p: "pool_ok (bindImapLifecycle n c (smtp m))" by (simp add: manager_ok_def pool_ok_event)
  have "js_get (clients (smtp m)) n = None \<or> js_get (clients (smtp m)) n = Some c \<Longrightarrow>
    js_get (clients (bindImapLifecycle n c (smtp m))) n = None"
    by (auto simp: bindImapLifecycle_def forget_if_current_def)
  with pool_ok_join [OF p, of n "''SMTP''" now "failures m"] ok p show ?thesis
    by (auto simp: manager_ok_def verify_failed_def Let_def split: option.split prod.split)
qed

interpretation connections: invariant_system "\<lambda>m. m = new_manager" manager_step manager_ok
proof
  fix s t assume "manager_ok s" and step: "manager_step s t"
  then have ok: "pool_ok (imap s)" "pool_ok (smtp s)" "manager_ok s" by (auto simp: manager_ok_def)
  from step show "manager_ok t"
    using ok
    by cases (simp_all add: pool_ok_getters pool_ok_verify_failed,
      auto simp: manager_ok_def closeAll_def pool_ok_event pool_ok_opens pool_ok_stored pool_ok_closed
        intro: pool_ok_confirmed pool_ok_failed)
qed (simp add: manager_ok_def new_manager_def pool_ok_new)

lemma one_socket_each:
  "pool_ok p \<Longrightarrow> distinct (map fst (open_sockets p)) \<and> list_all (\<lambda>(n, c). held p n = Some c) (open_sockets p)"
proof -
  assume ok: "pool_ok p"
  have "inj_on fst (set (open_sockets p))"
  proof (rule inj_onI)
    fix x y assume "x \<in> set (open_sockets p)" "y \<in> set (open_sockets p)" "fst x = fst y"
    then have "held p (fst x) = Some (snd x)" "held p (fst x) = Some (snd y)"
      using ok by (fastforce simp: pool_ok_def)+
    with \<open>fst x = fst y\<close> show "x = y" by (simp add: prod_eq_iff)
  qed
  with ok show ?thesis by (auto simp: pool_ok_def distinct_map list_all_iff)
qed


definition connected_once :: manager where
  "connected_once =
     (let m1 = snd (getImapClient (\<lambda>_. True) 0 ''me'' new_manager);
          m2 = m1\<lparr>imap := attempt_opens ''me'' (imap m1)\<rparr>;
          m3 = (case attempt_confirmed ''IMAP'' ''me'' (imap m2) (failures m2) of (p, t) \<Rightarrow> m2\<lparr>imap := p, failures := t\<rparr>)
      in m3\<lparr>imap := attempt_stored ''me'' (imap m3)\<rparr>)"

lemma connected_once_reachable: "reachable (\<lambda>m. m = new_manager) manager_step connected_once"
proof -
  let ?R = "reachable (\<lambda>m. m = new_manager) manager_step"
  define m1 where "m1 = snd (getImapClient (\<lambda>_. True) 0 ''me'' new_manager)"
  define m2 where "m2 = m1\<lparr>imap := attempt_opens ''me'' (imap m1)\<rparr>"
  obtain p t where c: "attempt_confirmed ''IMAP'' ''me'' (imap m2) (failures m2) = (p, t)" by fastforce
  define m3 where "m3 = m2\<lparr>imap := p, failures := t\<rparr>"
  have "?R new_manager" by (rule reach_init) simp
  then have "?R m1" unfolding m1_def by (rule reach_step) (rule step_get_imap)
  then have "?R m2" unfolding m2_def by (rule reach_step) (rule step_imap_opens)
  then have "?R m3" unfolding m3_def by (rule reach_step) (rule step_imap_confirmed [OF c])
  then have "?R (m3\<lparr>imap := attempt_stored ''me'' (imap m3)\<rparr>)" by (rule reach_step) (rule step_imap_stored)
  then show ?thesis using c by (simp add: connected_once_def Let_def m1_def m2_def m3_def)
qed


end
