(* ===== verification/Smtp.thy ===== *)
theory Smtp
  imports RateLimiter Connections Outgoing ImapRead
begin

text \<open>
  Sending mail (src/services/smtp.service.ts): new mail, replies, forwards and drafts. A send takes a token
  of the rate limiter, reads what it needs from the mailbox of the account, hands one mail to the transport,
  and files a copy. The transport and the composer (nodemailer) are functions of the environment. The lemmas
  show that a call reports a mail as sent exactly when the mail server accepted one, whatever fails after
  that, and that the mails handed over in any stretch of time are bounded by the limiter.
\<close>

section \<open>Providers that file sent mail\<close>

definition normalizeSmtpHost :: "string \<Rightarrow> string" where
  "normalizeSmtpHost raw = rev (dropWhile (\<lambda>c. c = CHR ''.'') (rev (to_lower (trim raw))))"

definition isHostOrSubdomain :: "string \<Rightarrow> string \<Rightarrow> bool" where
  "isHostOrSubdomain host domain \<longleftrightarrow>
     host = domain \<or>
     (ends_with (CHR ''.'' # domain) host \<and>
      (let prefix = take (length host - Suc (length domain)) host in
       prefix \<noteq> [] \<and> \<not> starts_with ''.'' prefix \<and> \<not> ends_with ''.'' prefix \<and>
       \<not> list_ex (starts_with ''..'') (suffixes_of prefix)))"

definition providerFilesSentMail :: "string \<Rightarrow> oauthProvider option \<Rightarrow> bool" where
  "providerFilesSentMail smtpHost provider \<longleftrightarrow>
     (let host = normalizeSmtpHost smtpHost in
      isHostOrSubdomain host ''gmail.com'' \<or> isHostOrSubdomain host ''googlemail.com'' \<or> provider = Some Google)"

definition escapeHtml :: "string \<Rightarrow> string" where
  "escapeHtml v = replace_char CHR ''>'' ''&gt;'' (replace_char CHR ''<'' ''&lt;'' (replace_char CHR ''&'' ''&amp;'' v))"

section \<open>State\<close>

record outMail =
  om_from :: string
  om_to :: string
  om_cc :: "string option"
  om_bcc :: "string option"
  om_subject :: string
  om_messageId :: "string option"
  om_inReplyTo :: "string option"
  om_references :: "string option"
  om_attachments :: "resolvedAttachment list"
  om_text :: "string option"
  om_html :: "string option"
  om_disableFileAccess :: bool
  om_disableUrlAccess :: bool

datatype smtp_error =
    NoSuchAccount account_error
  | SendRateLimited string
  | AttachmentFailed attach_error
  | MailboxFailed svc_error
  | SendFailed conn_error

record sendResult =
  sr_messageId :: string
  sr_savedToSent :: bool
  sr_draftDeleted :: "bool option"

text \<open>
  A mail handed to the transport is kept with its account and whether the mail server accepted it. Each
  account has its own mailbox log.
\<close>

record smtp_state =
  sm_limiter :: limiter
  sm_logs :: "string \<Rightarrow> svc_log"
  sm_handed :: "(string \<times> outMail \<times> bool) list"
  sm_warnings :: nat

text \<open>
  \<open>sd_transport\<close> is the error of getting a transport, if any; \<open>sd_deliver\<close> what \<open>sendMail\<close> answers, the id the
  server reports or an error. Both may depend on all that was handed over before.
\<close>

record smtp_env =
  sd_accounts :: "(string, accountConfig) jsmap"
  sd_default :: "string option"
  sd_issued :: "(string, string list) jsmap"
  sd_imap :: "string \<Rightarrow> svc_env"
  sd_text :: text_env
  sd_files :: "string \<Rightarrow> file_env"
  sd_transport :: "smtp_state \<Rightarrow> string \<Rightarrow> conn_error option"
  sd_deliver :: "smtp_state \<Rightarrow> string \<Rightarrow> outMail \<Rightarrow> conn_error + string option"
  sd_compile :: "outMail \<Rightarrow> string + string"
  sd_saveToSent :: bool

type_synonym 'a smtp = "smtp_state \<Rightarrow> (smtp_error + 'a) \<times> smtp_state"

named_theorems smtp_defs \<open>combinators of sending\<close>

definition okM :: "'a \<Rightarrow> 'a smtp" where [smtp_defs]: "okM a s = (Inr a, s)"
definition failM :: "smtp_error \<Rightarrow> 'a smtp" where [smtp_defs]: "failM e s = (Inl e, s)"

definition bindM :: "'a smtp \<Rightarrow> ('a \<Rightarrow> 'b smtp) \<Rightarrow> 'b smtp" where
  [smtp_defs]: "bindM m f s = (case m s of (Inl e, s') \<Rightarrow> (Inl e, s') | (Inr a, s') \<Rightarrow> f a s')"

definition liftM :: "('e \<Rightarrow> smtp_error) \<Rightarrow> 'e + 'a \<Rightarrow> 'a smtp" where
  [smtp_defs]: "liftM err r = (case r of Inl e \<Rightarrow> failM (err e) | Inr a \<Rightarrow> okM a)"

text \<open>A call of the mailbox service for an account.\<close>

definition imapM :: "string \<Rightarrow> 'a svc \<Rightarrow> 'a smtp" where
  [smtp_defs]: "imapM name op s =
     (case op (sm_logs s name) of (r, h) \<Rightarrow>
        ((case r of Inl e \<Rightarrow> Inl (MailboxFailed e) | Inr a \<Rightarrow> Inr a), s\<lparr>sm_logs := (sm_logs s)(name := h)\<rparr>))"

section \<open>Steps\<close>

definition resolveAccount :: "smtp_env \<Rightarrow> string option \<Rightarrow> account_error + (string \<times> accountConfig)" where
  "resolveAccount E accountName =
     bindE (getAccount (sd_accounts E) (sd_default E) accountName) (\<lambda>account.
     bindE (resolveAccountName (sd_accounts E) (sd_default E) accountName) (\<lambda>name. Inr (name, account)))"

definition checkRateLimit :: "number \<Rightarrow> string \<Rightarrow> unit smtp" where
  "checkRateLimit now name s =
     (case tryConsume name now (sm_limiter s) of
        (admit, l) \<Rightarrow> ((if admit then Inr () else Inl (SendRateLimited name)), s\<lparr>sm_limiter := l\<rparr>))"

definition handed_over :: "string \<Rightarrow> outMail \<Rightarrow> bool \<Rightarrow> smtp_state \<Rightarrow> smtp_state" where
  [smtp_defs]: "handed_over name mail yes s = s\<lparr>sm_handed := sm_handed s @ [(name, mail, yes)]\<rparr>"

definition transmit :: "smtp_env \<Rightarrow> string \<Rightarrow> accountConfig \<Rightarrow> outMail \<Rightarrow> string option smtp" where
  "transmit E name account mail s =
     (let refused = (\<lambda>err. Inl (SendFailed (redactedError (Inr err) (sentCredentials_of account (sd_issued E))))) in
      case sd_transport E s name of
        Some err \<Rightarrow> (refused err, s)
      | None \<Rightarrow>
          (case sd_deliver E s name mail of
             Inl err \<Rightarrow> (refused err, handed_over name mail False s)
           | Inr mid \<Rightarrow> (Inr mid, handed_over name mail True s)))"

definition appendSentCopy :: "smtp_env \<Rightarrow> string \<Rightarrow> accountConfig \<Rightarrow> outMail \<Rightarrow> bool smtp" where
  "appendSentCopy E name account mail s =
     (if \<not> sd_saveToSent E then (Inr True, s)
      else if providerFilesSentMail (smtp_host (acc_smtp account)) (map_option oa_provider (acc_oauth2 account)) then (Inr True, s)
      else case sd_compile E mail of
        Inl _ \<Rightarrow> (Inr False, s)
      | Inr raw \<Rightarrow>
          (case imapM name (appendSentMessage (sd_imap E name) account raw) s of
             (Inl _, s') \<Rightarrow> (Inr False, s')
           | (Inr _, s') \<Rightarrow> (Inr True, s')))"

definition warnM :: "bool \<Rightarrow> unit smtp" where
  [smtp_defs]: "warnM fine s = (Inr (), if fine then s else s\<lparr>sm_warnings := sm_warnings s + 1\<rparr>)"

definition sendAndAppend :: "smtp_env \<Rightarrow> string \<Rightarrow> accountConfig \<Rightarrow> outMail \<Rightarrow> sendResult smtp" where
  "sendAndAppend E name account mail =
     (let safeMail = mail\<lparr>om_disableFileAccess := True, om_disableUrlAccess := True\<rparr> in
      bindM (transmit E name account safeMail) (\<lambda>mid.
        let messageId = (case mid of Some m \<Rightarrow> m | None \<Rightarrow> (case om_messageId mail of Some m \<Rightarrow> m | None \<Rightarrow> [])) in
        bindM (appendSentCopy E name account (safeMail\<lparr>om_messageId := Some messageId\<rparr>)) (\<lambda>saved.
        bindM (warnM saved) (\<lambda>_.
          okM \<lparr>sr_messageId = messageId, sr_savedToSent = saved, sr_draftDeleted = None\<rparr>))))"

definition plain_mail :: "accountConfig \<Rightarrow> string \<Rightarrow> string option \<Rightarrow> string \<Rightarrow> bool \<Rightarrow> string \<Rightarrow> outMail" where
  [smtp_defs]: "plain_mail account to_line cc subject html body =
     \<lparr>om_from = sender_of account, om_to = to_line, om_cc = cc, om_bcc = None, om_subject = subject, om_messageId = None,
      om_inReplyTo = None, om_references = None, om_attachments = [],
      om_text = (if html then None else Some body), om_html = (if html then Some body else None),
      om_disableFileAccess = False, om_disableUrlAccess = False\<rparr>"

section \<open>Sending\<close>

record send_options =
  sn_to :: "string list"
  sn_subject :: string
  sn_body :: string
  sn_cc :: "string list option"
  sn_bcc :: "string list option"
  sn_html :: bool
  sn_attachments :: "outgoingAttachment list option"
  sn_messageId :: "string option"
  sn_inReplyTo :: "string option"
  sn_references :: "string list option"

definition attachM :: "smtp_env \<Rightarrow> string \<Rightarrow> outgoingAttachment list option \<Rightarrow> resolvedAttachment list smtp" where
  [smtp_defs]: "attachM E name atts = liftM AttachmentFailed (resolveOutgoingAttachments (sd_files E name) atts None)"

definition commas :: "string list \<Rightarrow> string" where
  [model_defs]: "commas = join_with '', ''"

definition sendEmail :: "smtp_env \<Rightarrow> number \<Rightarrow> string option \<Rightarrow> send_options \<Rightarrow> sendResult smtp" where
  "sendEmail E now accountName o1 =
     bindM (liftM NoSuchAccount (resolveAccount E accountName)) (\<lambda>(name, account).
     bindM (checkRateLimit now name) (\<lambda>_.
     bindM (attachM E name (sn_attachments o1)) (\<lambda>attachments.
       sendAndAppend E name account
         ((plain_mail account (commas (sn_to o1)) (map_option commas (sn_cc o1)) (sn_subject o1) (sn_html o1) (sn_body o1))
           \<lparr>om_bcc := map_option commas (sn_bcc o1), om_messageId := sn_messageId o1, om_inReplyTo := sn_inReplyTo o1,
            om_references := map_option (join_with '' '') (sn_references o1), om_attachments := attachments\<rparr>))))"

definition messageIdFor :: "smtp_env \<Rightarrow> string \<Rightarrow> string \<Rightarrow> account_error + string" where
  "messageIdFor E accountName token =
     bindE (getAccount (sd_accounts E) (sd_default E) (Some accountName)) (\<lambda>account.
       Inr (''<'' @ token @ ''@'' @ (case break_last CHR ''@'' (acc_email account) of None \<Rightarrow> acc_email account | Some (_, d) \<Rightarrow> d) @ ''>''))"

section \<open>Replying\<close>

record reply_options =
  rp_emailId :: string
  rp_mailbox :: "string option"
  rp_body :: string
  rp_replyAll :: bool
  rp_html :: bool
  rp_messageId :: "string option"

definition other_addresses :: "accountConfig \<Rightarrow> emailAddress list \<Rightarrow> string list" where
  "other_addresses account addrs = filter (\<lambda>a. a \<noteq> acc_email account) (map ea_address addrs)"

definition reply_mail :: "accountConfig \<Rightarrow> email \<Rightarrow> reply_options \<Rightarrow> outMail" where
  "reply_mail account original o1 =
     (let cc = (if rp_replyAll o1 then other_addresses account (el_cc original) else []);
          subject = (if starts_with ''Re:'' (em_subject original) then em_subject original else ''Re: '' @ em_subject original);
          references = filter (\<lambda>r. r \<noteq> []) ((case el_references original of None \<Rightarrow> [] | Some rs \<Rightarrow> rs) @ [el_messageId original])
      in (plain_mail account
           (commas (ea_address (em_from original) # (if rp_replyAll o1 then other_addresses account (em_to original) else [])))
           (if cc = [] then None else Some (commas cc)) subject (rp_html o1) (rp_body o1))
         \<lparr>om_inReplyTo := Some (el_messageId original), om_references := Some (join_with '' '' references),
          om_messageId := rp_messageId o1\<rparr>)"

definition inbox_or :: "string option \<Rightarrow> string" where
  [model_defs]: "inbox_or m = (case m of None \<Rightarrow> ''INBOX'' | Some x \<Rightarrow> x)"

definition replyToEmail :: "smtp_env \<Rightarrow> number \<Rightarrow> string option \<Rightarrow> reply_options \<Rightarrow> sendResult smtp" where
  "replyToEmail E now accountName o1 =
     bindM (liftM NoSuchAccount (resolveAccount E accountName)) (\<lambda>(name, account).
     bindM (checkRateLimit now name) (\<lambda>_.
     bindM (imapM name (getEmail (sd_imap E name) (sd_text E) (rp_emailId o1) (inbox_or (rp_mailbox o1)))) (\<lambda>original.
       sendAndAppend E name account (reply_mail account original o1))))"

section \<open>Forwarding\<close>

record forward_options =
  fw_emailId :: string
  fw_mailbox :: "string option"
  fw_to :: "string list"
  fw_body :: "string option"
  fw_cc :: "string list option"
  fw_html :: bool
  fw_attachments :: "outgoingAttachment list option"
  fw_messageId :: "string option"

definition from_display :: "emailAddress \<Rightarrow> string" where
  [model_defs]: "from_display a =
     (case ea_name a of Some n \<Rightarrow> if n \<noteq> [] then n @ '' <'' @ ea_address a @ ''>'' else ea_address a | None \<Rightarrow> ea_address a)"

definition html_quote :: "email \<Rightarrow> string" where
  "html_quote original =
     ''<br><hr style='' @ [CHR 0x22] @ ''border:none;border-top:1px solid #ddd;margin:16px 0'' @ [CHR 0x22] @
     ''><p style='' @ [CHR 0x22] @ ''color:#666;font-size:11pt;margin:0 0 8px'' @ [CHR 0x22] @ ''>'' @
     ''<strong>---------- Forwarded message ----------</strong><br>From: '' @ escapeHtml (from_display (em_from original)) @ ''<br>'' @
     ''Date: '' @ escapeHtml (em_date original) @ ''<br>Subject: '' @ escapeHtml (em_subject original) @ ''<br>'' @
     ''To: '' @ escapeHtml (commas (map ea_address (em_to original))) @ ''</p>'' @
     (case el_bodyHtml original of
        Some h \<Rightarrow> h
      | None \<Rightarrow>
          ''<pre style='' @ [CHR 0x22] @ ''white-space:pre-wrap;font-family:inherit'' @ [CHR 0x22] @ ''>'' @
          escapeHtml (case el_bodyText original of None \<Rightarrow> [] | Some t \<Rightarrow> t) @ ''</pre>'')"

definition text_quote :: "email \<Rightarrow> string" where
  "text_quote original =
     [LF] @ ''---------- Forwarded message ----------'' @ [LF] @ ''From: '' @ from_display (em_from original) @ [LF] @
     ''Date: '' @ em_date original @ [LF] @ ''Subject: '' @ em_subject original @ [LF] @
     ''To: '' @ commas (map ea_address (em_to original)) @ [LF]"

definition forward_mail :: "accountConfig \<Rightarrow> email \<Rightarrow> resolvedAttachment list \<Rightarrow> forward_options \<Rightarrow> outMail" where
  "forward_mail account original attachments o1 =
     (let body = (case fw_body o1 of None \<Rightarrow> [] | Some b \<Rightarrow> b);
          quoted_part = (if fw_html o1 then html_quote original
            else text_quote original @ (case or_else (el_bodyText original) (el_bodyHtml original) of None \<Rightarrow> [] | Some t \<Rightarrow> t))
      in (plain_mail account (commas (fw_to o1)) (map_option commas (fw_cc o1))
           (if starts_with ''Fwd:'' (em_subject original) then em_subject original else ''Fwd: '' @ em_subject original)
           (fw_html o1) (body @ quoted_part))
         \<lparr>om_attachments := attachments, om_messageId := fw_messageId o1\<rparr>)"

definition forwardEmail :: "smtp_env \<Rightarrow> number \<Rightarrow> string option \<Rightarrow> forward_options \<Rightarrow> sendResult smtp" where
  "forwardEmail E now accountName o1 =
     bindM (liftM NoSuchAccount (resolveAccount E accountName)) (\<lambda>(name, account).
     bindM (checkRateLimit now name) (\<lambda>_.
     bindM (attachM E name (fw_attachments o1)) (\<lambda>attachments.
     bindM (imapM name (getEmail (sd_imap E name) (sd_text E) (fw_emailId o1) (inbox_or (fw_mailbox o1)))) (\<lambda>original.
       sendAndAppend E name account (forward_mail account original attachments o1)))))"

section \<open>Drafts\<close>

definition draft_attachment :: "downloaded \<Rightarrow> resolvedAttachment" where
  [model_defs]: "draft_attachment d =
     \<lparr>ra_filename = dn_filename d, ra_content = base64_decode (filter is_base64_char (dn_contentBase64 d)), ra_contentType = Some (dn_mimeType d)\<rparr>"

definition draft_mail :: "accountConfig \<Rightarrow> email \<Rightarrow> resolvedAttachment list \<Rightarrow> outMail" where
  "draft_mail account draft attachments =
     (let html = (case el_bodyHtml draft of Some h \<Rightarrow> h \<noteq> [] | None \<Rightarrow> False) in
      (plain_mail account (commas (map ea_address (em_to draft))) (Some (commas (map ea_address (el_cc draft)))) (em_subject draft) html
        (if html then (case el_bodyHtml draft of Some h \<Rightarrow> h | None \<Rightarrow> []) else (case el_bodyText draft of Some t \<Rightarrow> t | None \<Rightarrow> [])))
      \<lparr>om_inReplyTo := el_inReplyTo draft, om_references := map_option (join_with '' '') (el_references draft), om_attachments := attachments\<rparr>)"

text \<open>The attachments are downloaded one after the other; the deletion of the sent draft cannot fail the call.\<close>

definition sendDraft :: "smtp_env \<Rightarrow> number \<Rightarrow> string option \<Rightarrow> int \<Rightarrow> string option \<Rightarrow> sendResult smtp" where
  "sendDraft E now accountName draftId mailbox =
     bindM (liftM NoSuchAccount (resolveAccount E accountName)) (\<lambda>(name, account).
     bindM (checkRateLimit now name) (\<lambda>_.
     bindM (imapM name (fetchDraft (sd_imap E name) (sd_text E) draftId mailbox)) (\<lambda>(draft, draftsPath).
     bindM (imapM name (eachS (\<lambda>meta.
         downloadAttachment (sd_imap E name) (js_int draftId) draftsPath (am_filename meta) MAX_OUTGOING_ATTACHMENT_BYTES)
         (el_attachments draft))) (\<lambda>downloads.
     bindM (sendAndAppend E name account (draft_mail account draft (map draft_attachment downloads))) (\<lambda>result. \<lambda>s.
       case imapM name (deleteDraft (sd_imap E name) draftId draftsPath) s of
         (Inr _, s') \<Rightarrow> (Inr (result\<lparr>sr_draftDeleted := Some True\<rparr>), s')
       | (Inl _, s') \<Rightarrow> (Inr (result\<lparr>sr_draftDeleted := Some False\<rparr>), s'\<lparr>sm_warnings := sm_warnings s' + 1\<rparr>))))))"

section \<open>One mail for each call\<close>

datatype smtp_call =
    SendCall "string option" send_options
  | ReplyCall "string option" reply_options
  | ForwardCall "string option" forward_options
  | DraftCall "string option" int "string option"

definition caller :: "smtp_call \<Rightarrow> string option" where
  [model_defs]: "caller call = (case call of SendCall a _ \<Rightarrow> a | ReplyCall a _ \<Rightarrow> a | ForwardCall a _ \<Rightarrow> a | DraftCall a _ _ \<Rightarrow> a)"

definition run_smtp :: "smtp_env \<Rightarrow> number \<Rightarrow> smtp_call \<Rightarrow> sendResult smtp" where
  "run_smtp E now call =
     (case call of
        SendCall a o1 \<Rightarrow> sendEmail E now a o1
      | ReplyCall a o1 \<Rightarrow> replyToEmail E now a o1
      | ForwardCall a o1 \<Rightarrow> forwardEmail E now a o1
      | DraftCall a i m \<Rightarrow> sendDraft E now a i m)"

definition no_access :: "outMail \<Rightarrow> bool" where
  "no_access mail \<longleftrightarrow> om_disableFileAccess mail \<and> om_disableUrlAccess mail"

text \<open>A step that neither sends nor uses the limiter, and the steps that send one mail.\<close>

definition silent :: "'a smtp \<Rightarrow> bool" where
  "silent m \<longleftrightarrow> (\<forall>s. sm_handed (snd (m s)) = sm_handed s \<and> sm_limiter (snd (m s)) = sm_limiter s)"

definition one_mail :: "string \<Rightarrow> smtp_state \<Rightarrow> (smtp_error + 'a) \<times> smtp_state \<Rightarrow> bool" where
  "one_mail name s out \<longleftrightarrow> sm_limiter (snd out) = sm_limiter s \<and>
     (case fst out of
        Inl _ \<Rightarrow> sm_handed (snd out) = sm_handed s \<or> (\<exists>mail. no_access mail \<and> sm_handed (snd out) = sm_handed s @ [(name, mail, False)])
      | Inr _ \<Rightarrow> \<exists>mail. no_access mail \<and> sm_handed (snd out) = sm_handed s @ [(name, mail, True)])"

definition hands_one :: "string \<Rightarrow> 'a smtp \<Rightarrow> bool" where
  "hands_one name m \<longleftrightarrow> (\<forall>s. one_mail name s (m s))"

lemma one_mail_start:
  "sm_handed s' = sm_handed s \<Longrightarrow> sm_limiter s' = sm_limiter s \<Longrightarrow> one_mail name s' out \<Longrightarrow> one_mail name s out"
  by (cases "fst out") (simp_all add: one_mail_def)

lemma silent_basics [intro!, simp]:
  "silent (okM a)" "silent (failM e)" "silent (liftM f r)" "silent (imapM name op)" "silent (attachM E name atts)" "silent (warnM b)"
  by (auto simp: silent_def smtp_defs split: sum.split prod.split)

lemma silent_copy [intro!, simp]: "silent (appendSentCopy E name account mail)"
proof -
  have "silent (imapM name op)" for op :: "unit svc" by simp
  then show ?thesis
    unfolding silent_def appendSentCopy_def by (auto split: sum.split prod.split) (metis snd_conv)+
qed

lemma hands_after_silent: "silent m \<Longrightarrow> (\<And>a. hands_one name (f a)) \<Longrightarrow> hands_one name (bindM m f)"
  unfolding hands_one_def
proof
  fix s
  assume m: "silent m" and f: "\<And>a. \<forall>s. one_mail name s (f a s)"
  obtain r s' where r: "m s = (r, s')" by (cases "m s")
  have s': "sm_handed s' = sm_handed s" "sm_limiter s' = sm_limiter s" using m r unfolding silent_def by (metis snd_conv)+
  show "one_mail name s (bindM m f s)"
  proof (cases r)
    case (Inl e)
    then show ?thesis using s' by (simp add: bindM_def r one_mail_def)
  next
    case (Inr a)
    have "bindM m f s = f a s'" using r Inr by (simp add: bindM_def)
    then show ?thesis using one_mail_start [OF s'] f by metis
  qed
qed

text \<open>What follows a mail that was sent cannot fail.\<close>

definition never_fails :: "'a smtp \<Rightarrow> bool" where
  "never_fails m \<longleftrightarrow> (\<forall>s. \<exists>a s'. m s = (Inr a, s') \<and> sm_handed s' = sm_handed s \<and> sm_limiter s' = sm_limiter s)"

lemma hands_then: "hands_one name m \<Longrightarrow> (\<And>a. never_fails (f a)) \<Longrightarrow> hands_one name (bindM m f)"
  unfolding hands_one_def
proof
  fix s
  assume m: "\<forall>s. one_mail name s (m s)" and f: "\<And>a. never_fails (f a)"
  obtain r s' where r: "m s = (r, s')" by (cases "m s")
  have one: "one_mail name s (r, s')" using m r by metis
  show "one_mail name s (bindM m f s)"
  proof (cases r)
    case (Inl e)
    then show ?thesis using one r by (simp add: bindM_def one_mail_def)
  next
    case (Inr a)
    obtain b s'' where "f a s' = (Inr b, s'')" "sm_handed s'' = sm_handed s'" "sm_limiter s'' = sm_limiter s'"
      using f [of a] unfolding never_fails_def by blast
    then show ?thesis using one r Inr by (simp add: bindM_def one_mail_def)
  qed
qed

lemma hands_transmit: "no_access mail \<Longrightarrow> hands_one name (transmit E name account mail)"
  by (auto simp: hands_one_def one_mail_def transmit_def handed_over_def Let_def split: option.split sum.split)

lemma copy_never_fails: "never_fails (appendSentCopy E name account mail)"
  unfolding never_fails_def
proof
  fix s
  have "silent (appendSentCopy E name account mail)" by simp
  moreover have "\<exists>a. fst (appendSentCopy E name account mail s) = Inr a"
    by (auto simp: appendSentCopy_def split: sum.split prod.split)
  ultimately show "\<exists>a s'. appendSentCopy E name account mail s = (Inr a, s') \<and> sm_handed s' = sm_handed s \<and> sm_limiter s' = sm_limiter s"
    unfolding silent_def by (metis prod.collapse)
qed

lemma never_fails_bind: "never_fails m \<Longrightarrow> (\<And>a. never_fails (f a)) \<Longrightarrow> never_fails (bindM m f)"
  unfolding never_fails_def
proof
  fix s
  assume m: "\<forall>s. \<exists>a s'. m s = (Inr a, s') \<and> sm_handed s' = sm_handed s \<and> sm_limiter s' = sm_limiter s"
    and f: "\<And>a. \<forall>s. \<exists>b s'. f a s = (Inr b, s') \<and> sm_handed s' = sm_handed s \<and> sm_limiter s' = sm_limiter s"
  obtain a s1 where a: "m s = (Inr a, s1)" "sm_handed s1 = sm_handed s" "sm_limiter s1 = sm_limiter s" using m by blast
  obtain b s2 where "f a s1 = (Inr b, s2)" "sm_handed s2 = sm_handed s1" "sm_limiter s2 = sm_limiter s1" using f by blast
  then show "\<exists>b s'. bindM m f s = (Inr b, s') \<and> sm_handed s' = sm_handed s \<and> sm_limiter s' = sm_limiter s"
    using a by (simp add: bindM_def)
qed

lemma simple_never_fail [simp]: "never_fails (okM a)" "never_fails (warnM b)"
  by (auto simp: never_fails_def smtp_defs)

lemma hands_send: "hands_one name (sendAndAppend E name account mail)"
  unfolding sendAndAppend_def Let_def
  by (intro hands_then hands_transmit never_fails_bind copy_never_fails) (simp_all add: no_access_def)

lemma delete_never_fails:
  "never_fails (\<lambda>s. case imapM name op s of
         (Inr _, s') \<Rightarrow> (Inr (result\<lparr>sr_draftDeleted := Some True\<rparr>), s')
       | (Inl _, s') \<Rightarrow> (Inr (result\<lparr>sr_draftDeleted := Some False\<rparr>), s'\<lparr>sm_warnings := sm_warnings s' + 1\<rparr>))"
  for op :: "unit svc"
  by (auto simp: never_fails_def imapM_def split: prod.split sum.split)

lemma hands_draft:
  "hands_one name (bindM (imapM name (fetchDraft (sd_imap E name) (sd_text E) i m)) (\<lambda>(draft, draftsPath).
     bindM (imapM name (ops draft draftsPath)) (\<lambda>downloads.
     bindM (sendAndAppend E name account (draft_mail account draft (map draft_attachment downloads))) (\<lambda>result. \<lambda>s.
       case imapM name (deleteDraft (sd_imap E name) i draftsPath) s of
         (Inr _, s') \<Rightarrow> (Inr (result\<lparr>sr_draftDeleted := Some True\<rparr>), s')
       | (Inl _, s') \<Rightarrow> (Inr (result\<lparr>sr_draftDeleted := Some False\<rparr>), s'\<lparr>sm_warnings := sm_warnings s' + 1\<rparr>)))))"
proof (rule hands_after_silent, simp)
  fix a :: "email \<times> string"
  obtain draft draftsPath where a: "a = (draft, draftsPath)" by (cases a)
  show "hands_one name (case a of (draft, draftsPath) \<Rightarrow>
     bindM (imapM name (ops draft draftsPath)) (\<lambda>downloads.
     bindM (sendAndAppend E name account (draft_mail account draft (map draft_attachment downloads))) (\<lambda>result. \<lambda>s.
       case imapM name (deleteDraft (sd_imap E name) i draftsPath) s of
         (Inr _, s') \<Rightarrow> (Inr (result\<lparr>sr_draftDeleted := Some True\<rparr>), s')
       | (Inl _, s') \<Rightarrow> (Inr (result\<lparr>sr_draftDeleted := Some False\<rparr>), s'\<lparr>sm_warnings := sm_warnings s' + 1\<rparr>))))"
    unfolding a prod.case
    by (rule hands_after_silent, simp, rule hands_then [OF hands_send delete_never_fails])
qed

text \<open>The common frame of the calls, and what each does inside it.\<close>

definition framed :: "smtp_env \<Rightarrow> number \<Rightarrow> string option \<Rightarrow> (string \<Rightarrow> accountConfig \<Rightarrow> sendResult smtp) \<Rightarrow> sendResult smtp" where
  "framed E now a body =
     bindM (liftM NoSuchAccount (resolveAccount E a)) (\<lambda>(name, account). bindM (checkRateLimit now name) (\<lambda>_. body name account))"

lemma calls_framed: "\<exists>body. run_smtp E now call = framed E now (caller call) body \<and> (\<forall>name account. hands_one name (body name account))"
proof (cases call)
  case (SendCall a o1)
  show ?thesis unfolding SendCall run_smtp_def sendEmail_def framed_def caller_def
    by (simp, rule exI, rule conjI [OF refl]) (auto intro!: hands_after_silent hands_send)
next
  case (ReplyCall a o1)
  show ?thesis unfolding ReplyCall run_smtp_def replyToEmail_def framed_def caller_def
    by (simp, rule exI, rule conjI [OF refl]) (auto intro!: hands_after_silent hands_send)
next
  case (ForwardCall a o1)
  show ?thesis unfolding ForwardCall run_smtp_def forwardEmail_def framed_def caller_def
    by (simp, rule exI, rule conjI [OF refl]) (auto intro!: hands_after_silent hands_send)
next
  case (DraftCall a i m)
  show ?thesis unfolding DraftCall run_smtp_def sendDraft_def framed_def caller_def
    by (simp, rule exI, rule conjI [OF refl]) (intro allI hands_draft)
qed

definition framed_outcome :: "smtp_env \<Rightarrow> number \<Rightarrow> string option \<Rightarrow> smtp_state \<Rightarrow> (smtp_error + sendResult) \<times> smtp_state \<Rightarrow> bool" where
  "framed_outcome E now a s out \<longleftrightarrow>
     (case resolveAccount E a of
        Inl e \<Rightarrow> out = (Inl (NoSuchAccount e), s)
      | Inr (name, _) \<Rightarrow>
          (case tryConsume name now (sm_limiter s) of
             (False, l) \<Rightarrow> out = (Inl (SendRateLimited name), s\<lparr>sm_limiter := l\<rparr>)
           | (True, l) \<Rightarrow> one_mail name (s\<lparr>sm_limiter := l\<rparr>) out))"

lemma call_outcome: "framed_outcome E now (caller call) s (run_smtp E now call s)"
proof -
  obtain body where body: "run_smtp E now call = framed E now (caller call) body" "\<And>name account. hands_one name (body name account)"
    using calls_framed by blast
  show ?thesis unfolding body(1) framed_outcome_def
  proof (cases "resolveAccount E (caller call)")
    case (Inl e)
    then show "case resolveAccount E (caller call) of Inl e \<Rightarrow> framed E now (caller call) body s = (Inl (NoSuchAccount e), s)
      | Inr (name, _) \<Rightarrow> (case tryConsume name now (sm_limiter s) of
             (False, l) \<Rightarrow> framed E now (caller call) body s = (Inl (SendRateLimited name), s\<lparr>sm_limiter := l\<rparr>)
           | (True, l) \<Rightarrow> one_mail name (s\<lparr>sm_limiter := l\<rparr>) (framed E now (caller call) body s))"
      by (simp add: framed_def smtp_defs)
  next
    case (Inr na)
    obtain name account where na: "na = (name, account)" by (cases na)
    have one: "one_mail name t (body name account t)" for t using body(2) unfolding hands_one_def by blast
    show "case resolveAccount E (caller call) of Inl e \<Rightarrow> framed E now (caller call) body s = (Inl (NoSuchAccount e), s)
      | Inr (name, _) \<Rightarrow> (case tryConsume name now (sm_limiter s) of
             (False, l) \<Rightarrow> framed E now (caller call) body s = (Inl (SendRateLimited name), s\<lparr>sm_limiter := l\<rparr>)
           | (True, l) \<Rightarrow> one_mail name (s\<lparr>sm_limiter := l\<rparr>) (framed E now (caller call) body s))"
      using one by (simp add: Inr na framed_def bindM_def liftM_def okM_def checkRateLimit_def split: prod.split bool.split)
  qed
qed

text \<open>
  C5: a call reports a mail as sent exactly when the mail server accepted one mail in that call, to which
  nodemailer may add neither files nor web addresses; when it reports an error, no mail of the call was
  accepted. What fails after the mail was accepted (the copy, the removal of the draft) changes nothing of
  this.
\<close>

theorem sent_reported_truly:
  "case run_smtp E now call s of
     (Inr _, s') \<Rightarrow> \<exists>name mail. sm_handed s' = sm_handed s @ [(name, mail, True)] \<and> om_disableFileAccess mail \<and> om_disableUrlAccess mail
   | (Inl _, s') \<Rightarrow> filter (\<lambda>(_, _, accepted). accepted) (sm_handed s') = filter (\<lambda>(_, _, accepted). accepted) (sm_handed s)"
proof -
  obtain r s' where r: "run_smtp E now call s = (r, s')" by (cases "run_smtp E now call s")
  have out: "framed_outcome E now (caller call) s (r, s')" using call_outcome r by metis
  show ?thesis
  proof (cases "\<exists>name l. one_mail name (s\<lparr>sm_limiter := l\<rparr>) (r, s')")
    case True
    then show ?thesis unfolding r by (cases r) (auto simp: one_mail_def no_access_def)
  next
    case False
    then have "sm_handed s' = sm_handed s \<and> (\<exists>e. r = Inl e)"
      using out by (auto simp: framed_outcome_def split: sum.splits prod.splits bool.splits)
    then show ?thesis unfolding r by auto
  qed
qed

section \<open>How many mails a stretch of time sends\<close>

definition run_smtps :: "smtp_env \<Rightarrow> (number \<times> smtp_call) list \<Rightarrow> smtp_state \<Rightarrow> smtp_state" where
  "run_smtps E calls s = foldl (\<lambda>s (now, call). snd (run_smtp E now call s)) s calls"

definition handed_for :: "string \<Rightarrow> smtp_state \<Rightarrow> nat" where
  "handed_for a s = length (filter (\<lambda>(name, _). name = a) (sm_handed s))"

text \<open>Who uses the limiter when.\<close>

definition limiter_uses :: "smtp_env \<Rightarrow> (number \<times> smtp_call) list \<Rightarrow> (string \<times> number) list" where
  "limiter_uses E calls =
     List.map_filter (\<lambda>(now, call). case resolveAccount E (caller call) of Inl _ \<Rightarrow> None | Inr (name, _) \<Rightarrow> Some (name, now)) calls"

lemma admitted_Cons:
  "sends_admitted a ((name, now) # uses) l =
     (if name = a \<and> fst (tryConsume name now l) then 1 else 0) + sends_admitted a uses (snd (tryConsume name now l))"
  by (cases "tryConsume name now l") (auto simp: sends_admitted_def split_beta Let_def)

lemma call_hands:
  "case resolveAccount E (caller call) of
     Inl _ \<Rightarrow> snd (run_smtp E now call s) = s
   | Inr (name, _) \<Rightarrow> sm_limiter (snd (run_smtp E now call s)) = snd (tryConsume name now (sm_limiter s)) \<and>
       handed_for a (snd (run_smtp E now call s)) \<le> handed_for a s + (if name = a \<and> fst (tryConsume name now (sm_limiter s)) then 1 else 0)"
proof -
  obtain r s' where r: "run_smtp E now call s = (r, s')" by (cases "run_smtp E now call s")
  have "framed_outcome E now (caller call) s (r, s')" using call_outcome r by metis
  then show ?thesis unfolding r
    by (cases r) (auto simp: framed_outcome_def one_mail_def handed_for_def split: sum.splits prod.splits bool.splits)
qed

lemma handed_admitted:
  "handed_for a (run_smtps E calls s) \<le> handed_for a s + sends_admitted a (limiter_uses E calls) (sm_limiter s)"
proof (induction calls arbitrary: s)
  case Nil
  then show ?case by (simp add: run_smtps_def)
next
  case (Cons c calls)
  obtain now call where c: "c = (now, call)" by (cases c)
  let ?s = "snd (run_smtp E now call s)"
  have run: "run_smtps E (c # calls) s = run_smtps E calls ?s" by (simp add: run_smtps_def c)
  show ?case
  proof (cases "resolveAccount E (caller call)")
    case (Inl e)
    then show ?thesis using call_hands [of E now call s a] Cons.IH [of s] run by (simp add: limiter_uses_def c List.map_filter_simps)
  next
    case (Inr na)
    obtain name account where na: "na = (name, account)" by (cases na)
    have uses: "limiter_uses E (c # calls) = (name, now) # limiter_uses E calls"
      using Inr na by (simp add: limiter_uses_def c List.map_filter_simps)
    show ?thesis using call_hands [of E now call s a] Cons.IH [of ?s] Inr na
      unfolding run uses admitted_Cons by simp
  qed
qed

text \<open>
  C6: however the calls that send mail interleave (new mails, replies, forwards, drafts, of any accounts),
  the mails handed to the mail server for one account between its first and its last call of a stretch are at
  most one full bucket of the limiter plus what that time earns.
\<close>

theorem handed_mail_bounded:
  assumes "limiter_ok (sm_limiter s)"
    and "map snd (filter (\<lambda>p. fst p = a) (limiter_uses E calls)) = t # ts" and "sorted (t # ts)"
    and "\<forall>b. js_get (buckets (sm_limiter s)) a = Some b \<longrightarrow> lastRefill b \<le> t"
  shows "of_nat (handed_for a (run_smtps E calls s) - handed_for a s) \<le>
    of_int (maxTokens (sm_limiter s)) + (last (t # ts) - t) * of_int (maxTokens (sm_limiter s)) / of_int (windowMs (sm_limiter s))"
proof -
  have "of_nat (handed_for a (run_smtps E calls s) - handed_for a s) \<le> (of_nat (sends_admitted a (limiter_uses E calls) (sm_limiter s)) :: rat)"
    using handed_admitted [of a E calls s] by simp
  also have "\<dots> = of_nat (admitted a (t # ts) (sm_limiter s))" unfolding sends_admitted_own assms(2) ..
  also have "\<dots> \<le> of_int (maxTokens (sm_limiter s)) + (last (t # ts) - t) * of_int (maxTokens (sm_limiter s)) / of_int (windowMs (sm_limiter s))"
    using assms(1,4,3) by (rule admitted_bound)
  finally show ?thesis .
qed

definition sample_options :: send_options where
  "sample_options =
     \<lparr>sn_to = [''you@x.org''], sn_subject = ''hi'', sn_body = ''text'', sn_cc = None, sn_bcc = None, sn_html = False, sn_attachments = None,
      sn_messageId = None, sn_inReplyTo = None, sn_references = None\<rparr>"

definition sample_smtp :: smtp_env where
  "sample_smtp =
     \<lparr>sd_accounts = [(''a'', test_account ''a'' ''me@x.org'')], sd_default = None, sd_issued = [], sd_imap = (\<lambda>_. quiet_env),
      sd_text = \<lparr>tx_utf8 = map char_of, tx_decode = (\<lambda>_ t. t), tx_inherited = (\<lambda>_. None), tx_strip = id, tx_now = 0, tx_parse = (\<lambda>_. None)\<rparr>,
      sd_files = (\<lambda>_. sample_files), sd_transport = (\<lambda>_ _. None), sd_deliver = (\<lambda>_ _ _. Inr (Some ''<1@x.org>'')),
      sd_compile = (\<lambda>_. Inr ''raw''), sd_saveToSent = True\<rparr>"

definition sample_state :: smtp_state where
  "sample_state = \<lparr>sm_limiter = new_limiter 10, sm_logs = (\<lambda>_. []), sm_handed = [], sm_warnings = 0\<rparr>"

lemma sample_account: "resolveAccount sample_smtp (Some ''a'') = Inr (''a'', test_account ''a'' ''me@x.org'')"
proof -
  have "trim ''a'' = ''a''" by code_simp
  then show ?thesis
    by (simp add: resolveAccount_def resolveAccountName_def getAccount_def findAccountByKey_def sample_smtp_def Let_def test_account_def)
qed

theorem handed_mail_bounded_witness:
  "of_nat (handed_for ''a'' (run_smtps sample_smtp [(0, SendCall (Some ''a'') sample_options)] sample_state) - handed_for ''a'' sample_state) \<le> (10 :: rat)"
proof -
  have "of_nat (handed_for ''a'' (run_smtps sample_smtp [(0, SendCall (Some ''a'') sample_options)] sample_state) - handed_for ''a'' sample_state) \<le>
    (of_int (maxTokens (sm_limiter sample_state)) + (last [0] - 0) * of_int (maxTokens (sm_limiter sample_state)) / of_int (windowMs (sm_limiter sample_state)) :: rat)"
    by (rule handed_mail_bounded)
      (simp_all add: sample_state_def new_limiter_ok limiter_uses_def List.map_filter_simps caller_def sample_account, simp add: new_limiter_def)
  then show ?thesis by (simp add: sample_state_def new_limiter_def)
qed

section \<open>Recipients that get lost, and one too many\<close>

text \<open>A draft that is sent loses its blind copies.\<close>

lemma draft_loses_bcc: "om_bcc (draft_mail account draft attachments) = None"
  by (simp add: draft_mail_def plain_mail_def Let_def)

text \<open>A reply to all leaves the own address out only in the letters of the configuration.\<close>

lemma own_address_in_other_letters:
  "other_addresses (test_account ''a'' ''me@x.org'') [\<lparr>ea_name = None, ea_address = ''me@x.org''\<rparr>] = []"
  "other_addresses (test_account ''a'' ''me@x.org'') [\<lparr>ea_name = None, ea_address = ''Me@x.org''\<rparr>] = [''Me@x.org'']"
  by (simp_all add: other_addresses_def test_account_def)

end
