(* ===== verification/Sieve.thy ===== *)
theory Sieve
  imports Redaction HeaderText Types
begin

text \<open>
  The ManageSieve client (src/services/sieve.service.ts): reading replies from a socket whose data arrives in
  pieces, the dialogue up to the login, and the script operations. A socket is the list of what arrives on
  it; octets are characters below 256 and \<open>dec\<close> is their decoding from UTF-8. The lemmas show that the
  password is written only over TLS and every connection is closed, that the pieces in which a reply arrives
  do not matter, and that script names read back as they were written.
\<close>

section \<open>Texts\<close>

record sieveScriptInfo =
  si_name :: string
  si_active :: bool

definition QUOTE :: char where [model_defs]: "QUOTE = CHR 0x22"
definition BACKSLASH :: char where [model_defs]: "BACKSLASH = CHR 0x5C"

text \<open>The inside of a quoted text, as written, and what follows its end.\<close>

fun scan_quoted :: "string \<Rightarrow> (string \<times> string) option" where
  "scan_quoted [] = None"
| "scan_quoted (c # s) =
     (if c = QUOTE then Some ([], s)
      else if c = BACKSLASH then
        (case s of
           [] \<Rightarrow> None
         | d # s' \<Rightarrow>
             if d = LF \<or> d = CR then None
             else (case scan_quoted s' of None \<Rightarrow> None | Some (inner, r) \<Rightarrow> Some (c # d # inner, r)))
      else (case scan_quoted s of None \<Rightarrow> None | Some (inner, r) \<Rightarrow> Some (c # inner, r)))"

fun unescape_quoted :: "string \<Rightarrow> string" where
  "unescape_quoted [] = []"
| "unescape_quoted [c] = [c]"
| "unescape_quoted (c # d # s) =
     (if c = BACKSLASH \<and> (d = QUOTE \<or> d = BACKSLASH) then d # unescape_quoted s else c # unescape_quoted (d # s))"

definition active_mark :: "string \<Rightarrow> bool option" where
  [model_defs]: "active_mark s =
     (let r = dropWhile is_space s in
      if r = [] then Some False
      else if r \<noteq> s \<and> starts_with ''active'' (to_lower r) \<and> list_all is_space (drop 6 r) then Some True
      else None)"

definition parse_script_line :: "string \<Rightarrow> sieveScriptInfo option" where
  [model_defs]: "parse_script_line line =
     (case trim line of
        [] \<Rightarrow> None
      | c # s \<Rightarrow>
          if c \<noteq> QUOTE then None
          else (case scan_quoted s of
             None \<Rightarrow> None
           | Some (inner, r) \<Rightarrow>
               map_option (\<lambda>a. \<lparr>si_name = unescape_quoted inner, si_active = a\<rparr>) (active_mark r)))"

definition parseListScripts :: "string list \<Rightarrow> sieveScriptInfo list" where
  "parseListScripts ls = List.map_filter parse_script_line ls"

definition encodePlainAuth :: "string \<Rightarrow> string \<Rightarrow> string" where
  "encodePlainAuth user pass = base64_text (CHR 0x00 # user @ [CHR 0x00] @ pass)"

text \<open>A quoted text without escapes at the start, and what follows.\<close>

definition plain_quoted :: "string \<Rightarrow> (string \<times> string) option" where
  [model_defs]: "plain_quoted s =
     (case s of
        [] \<Rightarrow> None
      | c # r \<Rightarrow>
          (let inner = takeWhile (\<lambda>x. x \<noteq> QUOTE) r in
           if c = QUOTE \<and> length inner < length r then Some (inner, drop (Suc (length inner)) r) else None))"

definition parse_capability :: "string \<Rightarrow> (string \<times> string) option" where
  [model_defs]: "parse_capability line =
     (case plain_quoted (trim line) of
        None \<Rightarrow> None
      | Some (name, r) \<Rightarrow>
          if name = [] then None
          else Some (to_upper name,
            (let gap = dropWhile is_space r in
             if gap = r then [] else case plain_quoted gap of None \<Rightarrow> [] | Some (v, _) \<Rightarrow> v)))"

definition parseCapabilityMap :: "string list \<Rightarrow> (string, string) jsmap" where
  "parseCapabilityMap ls = fold (\<lambda>line caps. case parse_capability line of None \<Rightarrow> caps | Some (k, v) \<Rightarrow> js_set k v caps) ls []"

definition quoteSieve :: "string \<Rightarrow> string" where
  "quoteSieve v = replace_char QUOTE [BACKSLASH, QUOTE] (replace_char BACKSLASH [BACKSLASH, BACKSLASH] v)"

definition MAX_SIEVE_SCRIPT_BYTES :: nat where "MAX_SIEVE_SCRIPT_BYTES = 1024 * 1024"
definition MAX_SIEVE_RESPONSE_BYTES :: nat where "MAX_SIEVE_RESPONSE_BYTES = MAX_SIEVE_SCRIPT_BYTES + 64 * 1024"
definition MAX_SIEVE_SCRIPT_NAME_CHARS :: nat where "MAX_SIEVE_SCRIPT_NAME_CHARS = 255"

datatype sieve_error =
    EmptyScriptName
  | LongScriptName
  | ControlInScriptName
  | ScriptTooLarge
  | ResponseTooLarge
  | LiteralTooLarge
  | ConnectionClosed
  | ResponseTimeout
  | SocketFailed string
  | CommandFailed string string
  | TlsRequired
  | PasswordOnly

definition script_name_control :: "char \<Rightarrow> bool" where
  [model_defs]: "script_name_control c \<longleftrightarrow> of_char c \<le> (31 :: nat) \<or> (127 \<le> (of_char c :: nat) \<and> of_char c \<le> (159 :: nat))"

definition assertSieveScriptName :: "string \<Rightarrow> bool \<Rightarrow> sieve_error + unit" where
  "assertSieveScriptName name allowEmpty =
     (if allowEmpty \<and> name = [] then Inr ()
      else if name = [] then Inl EmptyScriptName
      else if length name > MAX_SIEVE_SCRIPT_NAME_CHARS then Inl LongScriptName
      else if list_ex script_name_control name then Inl ControlInScriptName
      else Inr ())"

definition assertSieveScriptContent :: "string \<Rightarrow> sieve_error + unit" where
  "assertSieveScriptContent content = (if length (utf8 content) > MAX_SIEVE_SCRIPT_BYTES then Inl ScriptTooLarge else Inr ())"

section \<open>Reading a reply\<close>

text \<open>What happens on a socket while a reader waits. When nothing more comes, the deadline of the reply passes.\<close>

datatype arrival = Chunk string | SocketFails string | SocketEnds | DeadlinePasses

fun wait_for :: "(string \<Rightarrow> ('a \<times> string) option) \<Rightarrow> string \<Rightarrow> nat \<Rightarrow> arrival list \<Rightarrow> sieve_error + ('a \<times> string \<times> nat \<times> arrival list)" where
  "wait_for consume buf bytes [] =
     (case consume buf of Some (a, r) \<Rightarrow> Inr (a, r, bytes, []) | None \<Rightarrow> Inl ResponseTimeout)"
| "wait_for consume buf bytes (x # arrivals) =
     (case consume buf of
        Some (a, r) \<Rightarrow> Inr (a, r, bytes, x # arrivals)
      | None \<Rightarrow>
          (case x of
             Chunk c \<Rightarrow>
               if bytes + length c > MAX_SIEVE_RESPONSE_BYTES then Inl ResponseTooLarge
               else wait_for consume (buf @ c) (bytes + length c) arrivals
           | SocketFails e \<Rightarrow> Inl (SocketFailed e)
           | SocketEnds \<Rightarrow> Inl ConnectionClosed
           | DeadlinePasses \<Rightarrow> Inl ResponseTimeout))"

definition drop_cr :: "string \<Rightarrow> string" where
  [model_defs]: "drop_cr s = (if s \<noteq> [] \<and> last s = CR then butlast s else s)"

definition consume_line :: "(string \<Rightarrow> string) \<Rightarrow> string \<Rightarrow> (string \<times> string) option" where
  "consume_line dec buf =
     (if LF \<in> set buf then
        (let line = takeWhile (\<lambda>c. c \<noteq> LF) buf in Some (drop_cr (dec line), drop (Suc (length line)) buf))
      else None)"

definition consume_bytes :: "(string \<Rightarrow> string) \<Rightarrow> nat \<Rightarrow> string \<Rightarrow> (string \<times> string) option" where
  "consume_bytes dec n buf = (if length buf < n then None else Some (dec (take n buf), drop n buf))"

text \<open>The code of a status line.\<close>

definition status_code :: "string \<Rightarrow> string option" where
  "status_code line =
     (if list_ex (\<lambda>w. starts_with w (to_upper line) \<and> (case drop (length w) line of [] \<Rightarrow> True | c # _ \<Rightarrow> is_space c))
           [''OK'', ''NO'', ''BYE'']
      then Some (to_upper (take 2 line)) else None)"

text \<open>The length a literal declares.\<close>

definition literal_length :: "string \<Rightarrow> nat option" where
  "literal_length line =
     (case line of
        [] \<Rightarrow> None
      | c # s \<Rightarrow>
          (let ds = takeWhile is_digit s; r = drop (length ds) s; r' = (if starts_with ''+'' r then drop 1 r else r) in
           if c = CHR 0x7B \<and> ds \<noteq> [] \<and> starts_with [CHR 0x7D] r' \<and> list_all is_space (drop 1 r') then Some (number_of ds)
           else None))"

record sieve_response =
  rs_code :: string
  rs_lines :: "string list"
  rs_message :: string

definition pending :: "arrival list \<Rightarrow> nat" where
  "pending arrivals = sum_list (map (\<lambda>x. case x of Chunk c \<Rightarrow> length c | _ \<Rightarrow> 0) arrivals)"

lemma wait_for_size:
  "wait_for consume buf bytes arrivals = Inr (a, r, bytes', rest) \<Longrightarrow>
   \<exists>whole. consume whole = Some (a, r) \<and> length whole + pending rest = length buf + pending arrivals"
  by (induction consume buf bytes arrivals rule: wait_for.induct)
    (auto simp: pending_def split: option.splits arrival.splits if_splits)

lemma consumed_line_shorter: "consume_line dec whole = Some (a, r) \<Longrightarrow> length r < length whole"
  by (auto simp: consume_line_def Let_def split: if_splits)
    (metis (no_types, lifting) diff_less_Suc length_greater_0_conv length_pos_if_in_set less_Suc_eq_le less_imp_diff_less diff_less zero_less_Suc)

lemma consumed_bytes_shorter: "consume_bytes dec n whole = Some (a, r) \<Longrightarrow> length r \<le> length whole"
  by (auto simp: consume_bytes_def split: if_splits)

lemma wait_line_shorter:
  "wait_for (consume_line dec) buf bytes arrivals = Inr (a, r, bytes', rest) \<Longrightarrow> length r + pending rest < length buf + pending arrivals"
  by (fastforce dest!: wait_for_size consumed_line_shorter)

lemma wait_bytes_shorter:
  "wait_for (consume_bytes dec n) buf bytes arrivals = Inr (a, r, bytes', rest) \<Longrightarrow> length r + pending rest \<le> length buf + pending arrivals"
  by (fastforce dest!: wait_for_size consumed_bytes_shorter)

function read_lines ::
  "(string \<Rightarrow> string) \<Rightarrow> string \<Rightarrow> nat \<Rightarrow> arrival list \<Rightarrow> string list \<Rightarrow> sieve_error + (sieve_response \<times> string \<times> arrival list)" where
  "read_lines dec buf bytes arrivals ls =
     (case wait_for (consume_line dec) buf bytes arrivals of
        Inl e \<Rightarrow> Inl e
      | Inr (line, buf1, bytes1, rest1) \<Rightarrow>
          (case status_code line of
             Some code \<Rightarrow> Inr (\<lparr>rs_code = code, rs_lines = ls, rs_message = line\<rparr>, buf1, rest1)
           | None \<Rightarrow>
               (case literal_length line of
                  None \<Rightarrow> read_lines dec buf1 bytes1 rest1 (ls @ [line])
                | Some n \<Rightarrow>
                    if n > MAX_SIEVE_SCRIPT_BYTES then Inl LiteralTooLarge
                    else (case wait_for (consume_bytes dec n) buf1 bytes1 rest1 of
                       Inl e \<Rightarrow> Inl e
                     | Inr (payload, buf2, bytes2, rest2) \<Rightarrow>
                         (case wait_for (consume_line dec) buf2 bytes2 rest2 of
                            Inl e \<Rightarrow> Inl e
                          | Inr (_, buf3, bytes3, rest3) \<Rightarrow> read_lines dec buf3 bytes3 rest3 (ls @ [payload]))))))"
  by pat_completeness auto
termination
  by (relation "measure (\<lambda>(dec, buf, bytes, arrivals, ls). length buf + pending arrivals)")
    (auto dest!: wait_line_shorter wait_bytes_shorter)

declare read_lines.simps [simp del]

definition readResponse :: "(string \<Rightarrow> string) \<Rightarrow> string \<Rightarrow> arrival list \<Rightarrow> sieve_error + (sieve_response \<times> string \<times> arrival list)" where
  "readResponse dec buf arrivals =
     (if length buf > MAX_SIEVE_RESPONSE_BYTES then Inl ResponseTooLarge else read_lines dec buf (length buf) arrivals [])"

definition extractLiteral :: "string list \<Rightarrow> string option" where
  "extractLiteral ls =
     (if ls = [] then None
      else if last ls \<noteq> [] \<and> hd (last ls) \<noteq> QUOTE \<and> LF \<in> set (last ls) then Some (last ls)
      else if \<not> starts_with [QUOTE] (hd ls) then Some (join_with [LF] ls)
      else None)"

section \<open>The dialogue\<close>

datatype sieve_event = Connected | Written bool string | TlsStarted | Destroyed

record sieve_conn =
  sc_tls :: bool
  sc_buf :: string
  sc_arrivals :: "arrival list"
  sc_lastCaps :: "(string, string) jsmap"
  sc_lastLiteral :: "string option"
  sc_log :: "sieve_event list"

text \<open>
  The answers of the network: a connection or its error, and a TLS handshake or its error, each with what then
  arrives on the socket; and the decoder of octets.
\<close>

record sieve_env =
  se_tcp :: "string \<Rightarrow> nat \<Rightarrow> string + arrival list"
  se_tls :: "string \<Rightarrow> string + arrival list"
  se_decode :: "string \<Rightarrow> string"

type_synonym 'a sieve = "sieve_conn \<Rightarrow> (sieve_error + 'a) \<times> sieve_conn"

named_theorems sieve_defs \<open>steps of the dialogue\<close>

definition okV :: "'a \<Rightarrow> 'a sieve" where [sieve_defs]: "okV a c = (Inr a, c)"
definition failV :: "sieve_error \<Rightarrow> 'a sieve" where [sieve_defs]: "failV e c = (Inl e, c)"

definition bindV :: "'a sieve \<Rightarrow> ('a \<Rightarrow> 'b sieve) \<Rightarrow> 'b sieve" where
  [sieve_defs]: "bindV m f c = (case m c of (Inl e, c') \<Rightarrow> (Inl e, c') | (Inr a, c') \<Rightarrow> f a c')"

definition noteV :: "sieve_event \<Rightarrow> unit sieve" where
  [sieve_defs]: "noteV e c = (Inr (), c\<lparr>sc_log := sc_log c @ [e]\<rparr>)"

definition writeV :: "string \<Rightarrow> unit sieve" where
  [sieve_defs]: "writeV txt c = noteV (Written (sc_tls c) txt) c"

definition responseV :: "sieve_env \<Rightarrow> sieve_response sieve" where
  [sieve_defs]: "responseV E c =
     (case readResponse (se_decode E) (sc_buf c) (sc_arrivals c) of
        Inl e \<Rightarrow> (Inl e, c)
      | Inr (r, buf, rest) \<Rightarrow> (Inr r, c\<lparr>sc_buf := buf, sc_arrivals := rest\<rparr>))"

definition CRLF :: string where [model_defs]: "CRLF = [CR, LF]"

definition sendCommand :: "sieve_env \<Rightarrow> string \<Rightarrow> sieve_response sieve" where
  "sendCommand E command =
     bindV (writeV (command @ CRLF)) (\<lambda>_.
     bindV (responseV E) (\<lambda>r. \<lambda>c.
       (Inr r, case extractLiteral (rs_lines r) of None \<Rightarrow> c | Some l \<Rightarrow> c\<lparr>sc_lastLiteral := Some l\<rparr>)))"

definition assertOk :: "sieve_response \<Rightarrow> string \<Rightarrow> unit sieve" where
  [sieve_defs]: "assertOk r command = (if rs_code r \<noteq> ''OK'' then failV (CommandFailed command (rs_message r)) else okV ())"

definition connectTcp :: "sieve_env \<Rightarrow> string \<Rightarrow> nat \<Rightarrow> unit sieve" where
  [sieve_defs]: "connectTcp E host port c =
     (case se_tcp E host port of
        Inl e \<Rightarrow> (Inl (SocketFailed e), c)
      | Inr arrivals \<Rightarrow>
          (Inr (), \<lparr>sc_tls = False, sc_buf = [], sc_arrivals = arrivals, sc_lastCaps = [], sc_lastLiteral = None, sc_log = sc_log c @ [Connected]\<rparr>))"

definition upgradeTls :: "sieve_env \<Rightarrow> string \<Rightarrow> unit sieve" where
  [sieve_defs]: "upgradeTls E host c =
     (case se_tls E host of
        Inl e \<Rightarrow> (Inl (SocketFailed e), c)
      | Inr arrivals \<Rightarrow>
          (Inr (), \<lparr>sc_tls = True, sc_buf = [], sc_arrivals = arrivals, sc_lastCaps = [], sc_lastLiteral = None, sc_log = sc_log c @ [TlsStarted]\<rparr>))"

definition capsV :: "sieve_response \<Rightarrow> unit sieve" where
  [sieve_defs]: "capsV r c = (Inr (), c\<lparr>sc_lastCaps := parseCapabilityMap (rs_lines r)\<rparr>)"

definition starttlsV :: "sieve_env \<Rightarrow> string \<Rightarrow> unit sieve" where
  "starttlsV E host c =
     (if js_get (sc_lastCaps c) ''STARTTLS'' = None then okV () c
      else bindV (sendCommand E ''STARTTLS'') (\<lambda>r.
        bindV (assertOk r ''STARTTLS'') (\<lambda>_.
        bindV (upgradeTls E host) (\<lambda>_.
        bindV (responseV E) capsV))) c)"

definition requireTlsV :: "unit sieve" where
  [sieve_defs]: "requireTlsV c = (if sc_tls c then okV () c else failV TlsRequired c)"

definition sieve_host :: "accountConfig \<Rightarrow> string" where
  [model_defs]: "sieve_host account = (case imap_sieveHost (acc_imap account) of Some h \<Rightarrow> h | None \<Rightarrow> imap_host (acc_imap account))"

definition sieve_port :: "accountConfig \<Rightarrow> nat" where
  [model_defs]: "sieve_port account = (case imap_sievePort (acc_imap account) of Some p \<Rightarrow> p | None \<Rightarrow> 4190)"

definition loginV :: "sieve_env \<Rightarrow> accountConfig \<Rightarrow> unit sieve" where
  "loginV E account =
     bindV (responseV E) (\<lambda>greeting.
     bindV (capsV greeting) (\<lambda>_.
     bindV (starttlsV E (sieve_host account)) (\<lambda>_.
     bindV requireTlsV (\<lambda>_.
       case acc_password account of
         None \<Rightarrow> failV PasswordOnly
       | Some pass \<Rightarrow>
           if pass = [] then failV PasswordOnly
           else bindV (sendCommand E (''AUTHENTICATE '' @ [QUOTE] @ ''PLAIN'' @ [QUOTE] @ '' '' @ [QUOTE] @
               encodePlainAuth (acc_username account) pass @ [QUOTE])) (\<lambda>r. assertOk r ''AUTHENTICATE'')))))"

text \<open>\<open>try\<close> whose \<open>catch\<close> destroys the socket, and \<open>finally\<close> that does.\<close>

definition destroying :: "'a sieve \<Rightarrow> 'a sieve" where
  [sieve_defs]: "destroying m c = (case m c of (r, c') \<Rightarrow> (r, c'\<lparr>sc_log := sc_log c' @ [Destroyed]\<rparr>))"

definition openConn :: "sieve_env \<Rightarrow> accountConfig \<Rightarrow> unit sieve" where
  "openConn E account =
     bindV (connectTcp E (sieve_host account) (sieve_port account)) (\<lambda>_. \<lambda>c.
       case loginV E account c of
         (Inl e, c') \<Rightarrow> (Inl e, c'\<lparr>sc_log := sc_log c' @ [Destroyed]\<rparr>)
       | ok1 \<Rightarrow> ok1)"

definition withConnection :: "sieve_env \<Rightarrow> accountConfig \<Rightarrow> 'a sieve \<Rightarrow> 'a sieve" where
  "withConnection E account action = bindV (openConn E account) (\<lambda>_. destroying action)"

section \<open>Operations\<close>

definition checkV :: "sieve_error + unit \<Rightarrow> unit sieve" where
  [sieve_defs]: "checkV r = (case r of Inl e \<Rightarrow> failV e | Inr _ \<Rightarrow> okV ())"

definition commandV :: "sieve_env \<Rightarrow> string \<Rightarrow> string \<Rightarrow> sieve_response sieve" where
  [sieve_defs]: "commandV E command name = bindV (sendCommand E command) (\<lambda>r. bindV (assertOk r name) (\<lambda>_. okV r))"

definition quoted :: "string \<Rightarrow> string" where
  [model_defs]: "quoted name = [QUOTE] @ quoteSieve name @ [QUOTE]"

definition commandList :: "sieve_env \<Rightarrow> sieveScriptInfo list sieve" where
  "commandList E = bindV (commandV E ''LISTSCRIPTS'' ''LISTSCRIPTS'') (\<lambda>r. okV (parseListScripts (rs_lines r)))"

definition listScripts :: "sieve_env \<Rightarrow> accountConfig \<Rightarrow> sieveScriptInfo list sieve" where
  "listScripts E account = withConnection E account (commandList E)"

definition getScript :: "sieve_env \<Rightarrow> accountConfig \<Rightarrow> string \<Rightarrow> string sieve" where
  "getScript E account name =
     bindV (checkV (assertSieveScriptName name False)) (\<lambda>_.
       withConnection E account (bindV (commandV E (''GETSCRIPT '' @ quoted name) ''GETSCRIPT'') (\<lambda>_. \<lambda>c.
         (Inr (case sc_lastLiteral c of None \<Rightarrow> [] | Some l \<Rightarrow> l), c))))"

definition putScript :: "sieve_env \<Rightarrow> accountConfig \<Rightarrow> string \<Rightarrow> string \<Rightarrow> unit sieve" where
  "putScript E account name content =
     bindV (checkV (assertSieveScriptName name False)) (\<lambda>_.
     bindV (checkV (assertSieveScriptContent content)) (\<lambda>_.
       withConnection E account
         (bindV (writeV (''PUTSCRIPT '' @ quoted name @ '' '' @ [CHR 0x7B] @ show_nat (length (utf8 content)) @ ''+'' @ [CHR 0x7D] @ CRLF)) (\<lambda>_.
          bindV (writeV content) (\<lambda>_.
          bindV (writeV CRLF) (\<lambda>_.
          bindV (responseV E) (\<lambda>r. assertOk r ''PUTSCRIPT'')))))))"

definition deleteScript :: "sieve_env \<Rightarrow> accountConfig \<Rightarrow> string \<Rightarrow> unit sieve" where
  "deleteScript E account name =
     bindV (checkV (assertSieveScriptName name False)) (\<lambda>_.
       withConnection E account (bindV (commandV E (''DELETESCRIPT '' @ quoted name) ''DELETESCRIPT'') (\<lambda>_. okV ())))"

definition activateScript :: "sieve_env \<Rightarrow> accountConfig \<Rightarrow> string \<Rightarrow> unit sieve" where
  "activateScript E account name =
     bindV (checkV (assertSieveScriptName name True)) (\<lambda>_.
       withConnection E account
         (bindV (commandV E (''SETACTIVE '' @ (if name = [] then [QUOTE, QUOTE] else quoted name)) ''SETACTIVE'') (\<lambda>_. okV ())))"

record sieveStatus =
  sv_available :: bool
  sv_host :: string
  sv_port :: nat
  sv_warning :: "string option"
  sv_implementation :: "string option"
  sv_extensions :: "string list option"
  sv_scripts :: "sieveScriptInfo list option"

definition statusAction :: "sieve_env \<Rightarrow> accountConfig \<Rightarrow> sieveStatus sieve" where
  "statusAction E account =
     bindV (commandList E) (\<lambda>scripts. \<lambda>c.
       (Inr \<lparr>sv_available = True, sv_host = sieve_host account, sv_port = sieve_port account, sv_warning = None,
          sv_implementation = js_get (sc_lastCaps c) ''IMPLEMENTATION'',
          sv_extensions = Some (words_of (case js_get (sc_lastCaps c) ''SIEVE'' of None \<Rightarrow> [] | Some v \<Rightarrow> v)),
          sv_scripts = Some scripts\<rparr>, c))"

text \<open>The text of an error; a failed socket has its own.\<close>

definition sieve_message :: "sieve_error \<Rightarrow> string" where
  "sieve_message e =
     (case e of
        EmptyScriptName \<Rightarrow> ''Script name must not be empty''
      | LongScriptName \<Rightarrow> ''Script name is too long''
      | ControlInScriptName \<Rightarrow> ''Script name must not contain control characters''
      | ScriptTooLarge \<Rightarrow> ''Script is too large (maximum '' @ show_nat MAX_SIEVE_SCRIPT_BYTES @ '' bytes)''
      | ResponseTooLarge \<Rightarrow> ''ManageSieve response exceeds '' @ show_nat MAX_SIEVE_RESPONSE_BYTES @ '' bytes''
      | LiteralTooLarge \<Rightarrow> ''ManageSieve literal exceeds '' @ show_nat MAX_SIEVE_SCRIPT_BYTES @ '' bytes or has an invalid length''
      | ConnectionClosed \<Rightarrow> ''ManageSieve connection closed before the response completed''
      | ResponseTimeout \<Rightarrow> ''ManageSieve response timeout''
      | SocketFailed m \<Rightarrow> m
      | CommandFailed command m \<Rightarrow> command @ '' failed: '' @ m
      | TlsRequired \<Rightarrow> ''ManageSieve AUTHENTICATE PLAIN requires TLS; server did not offer STARTTLS''
      | PasswordOnly \<Rightarrow> ''ManageSieve currently supports password authentication only'')"

text \<open>What a caller sees of an error of a connection.\<close>

definition reported :: "accountConfig \<Rightarrow> sieve_error \<Rightarrow> string" where
  "reported account e =
     ce_message (redactedError (Inl (sieve_message e)) \<lparr>sc_user = acc_username account, sc_secrets = [acc_password account]\<rparr>)"

definition sieve_status :: "sieve_env \<Rightarrow> accountConfig \<Rightarrow> sieve_conn \<Rightarrow> sieveStatus \<times> sieve_conn" where
  "sieve_status E account c =
     (case withConnection E account (statusAction E account) c of
        (Inr s, c') \<Rightarrow> (s, c')
      | (Inl e, c') \<Rightarrow>
          (\<lparr>sv_available = False, sv_host = sieve_host account, sv_port = sieve_port account,
             sv_warning = Some (''ManageSieve is not reachable. The provider may only expose filters in a web UI, '' @
               ''or SIEVE may listen on a different host/port. ('' @ reported account e @ '')''),
             sv_implementation = None, sv_extensions = None, sv_scripts = None\<rparr>, c'))"

section \<open>The password needs TLS, and connections are closed\<close>

text \<open>What may be written: anything over TLS, and the request for TLS.\<close>

definition harmless :: "sieve_event \<Rightarrow> bool" where
  "harmless e = (case e of Written tls t \<Rightarrow> tls \<or> t = ''STARTTLS'' @ CRLF | _ \<Rightarrow> True)"

lemma harmless_simps [simp]:
  "harmless Connected" "harmless TlsStarted" "harmless Destroyed" "harmless (Written tls t) \<longleftrightarrow> tls \<or> t = ''STARTTLS'' @ CRLF"
  by (simp_all add: harmless_def)

definition open_sockets :: "sieve_event list \<Rightarrow> int" where
  "open_sockets es = int (count_list es Connected) - int (count_list es Destroyed)"

lemma open_sockets_simps [simp]:
  "open_sockets [] = 0" "open_sockets (es @ [Connected]) = open_sockets es + 1" "open_sockets (es @ [Destroyed]) = open_sockets es - 1"
  "open_sockets (es @ [Written tls t]) = open_sockets es" "open_sockets (es @ [TlsStarted]) = open_sockets es"
  by (simp_all add: open_sockets_def count_list_append)

text \<open>The log of a step grows only by harmless writes and keeps the number of open sockets; \<open>tls\<close> is what it starts with.\<close>

definition steps_safely :: "bool \<Rightarrow> 'a sieve \<Rightarrow> bool" where
  "steps_safely needs_tls m \<longleftrightarrow> (\<forall>c. (needs_tls \<longrightarrow> sc_tls c) \<longrightarrow> list_all harmless (sc_log c) \<longrightarrow>
     list_all harmless (sc_log (snd (m c))) \<and> open_sockets (sc_log (snd (m c))) = open_sockets (sc_log c) \<and> (sc_tls c \<longrightarrow> sc_tls (snd (m c))))"

lemma safely_bind [intro]:
  assumes m: "steps_safely b m" and f: "\<And>a. steps_safely b (f a)"
  shows "steps_safely b (bindV m f)"
  unfolding steps_safely_def
proof (intro allI impI)
  fix c :: sieve_conn
  assume c: "b \<longrightarrow> sc_tls c" "list_all harmless (sc_log c)"
  obtain r c' where r: "m c = (r, c')" by (cases "m c")
  have c': "list_all harmless (sc_log c')" "open_sockets (sc_log c') = open_sockets (sc_log c)" "sc_tls c \<longrightarrow> sc_tls c'"
    using m c r unfolding steps_safely_def by (metis snd_conv)+
  show "list_all harmless (sc_log (snd (bindV m f c))) \<and> open_sockets (sc_log (snd (bindV m f c))) = open_sockets (sc_log c) \<and>
      (sc_tls c \<longrightarrow> sc_tls (snd (bindV m f c)))"
  proof (cases r)
    case (Inl e)
    then show ?thesis using r c' by (simp add: bindV_def)
  next
    case (Inr a)
    have "b \<longrightarrow> sc_tls c'" using c c' by blast
    then show ?thesis using f [of a] c' r Inr unfolding steps_safely_def bindV_def by simp
  qed
qed

lemma safely_basics [intro!, simp]:
  "steps_safely b (okV a)" "steps_safely b (failV e)" "steps_safely b (assertOk r cmd)" "steps_safely b (capsV r)" "steps_safely b (checkV x)"
  "steps_safely b (responseV E)" "steps_safely b requireTlsV" "steps_safely True (writeV t)" "steps_safely b (upgradeTls E host)"
  by (auto simp: steps_safely_def sieve_defs split: sum.split prod.split)

lemma safely_state: "(\<And>c. f c = (r c, c\<lparr>sc_lastLiteral := l c\<rparr>)) \<Longrightarrow> steps_safely b f"
  by (simp add: steps_safely_def)

lemma safely_keep_literal [intro!, simp]:
  "steps_safely b (\<lambda>c. (Inr r, case extractLiteral ls of None \<Rightarrow> c | Some l \<Rightarrow> c\<lparr>sc_lastLiteral := Some l\<rparr>))"
  "steps_safely b (\<lambda>c. (g c, c))"
  by (auto simp: steps_safely_def split: option.split)

lemma safely_send [intro!, simp]: "steps_safely True (sendCommand E command)"
  unfolding sendCommand_def by auto

lemma safely_command [intro!, simp]: "steps_safely True (commandV E command name)"
  unfolding commandV_def by auto

lemma safely_ask_tls: "steps_safely False (sendCommand E ''STARTTLS'')"
proof -
  have "steps_safely False (writeV (''STARTTLS'' @ CRLF))" by (simp add: steps_safely_def sieve_defs)
  then show ?thesis unfolding sendCommand_def by auto
qed

lemma safely_starttls [intro!, simp]: "steps_safely False (starttlsV E host)"
proof -
  have tls: "steps_safely False (bindV (sendCommand E ''STARTTLS'') (\<lambda>r.
        bindV (assertOk r ''STARTTLS'') (\<lambda>_. bindV (upgradeTls E host) (\<lambda>_. bindV (responseV E) capsV))))"
    using safely_ask_tls by auto
  show ?thesis unfolding steps_safely_def
    using tls [unfolded steps_safely_def] by (auto simp: starttlsV_def okV_def)
qed

text \<open>What follows the check for TLS may rely on it.\<close>

lemma safely_after_check:
  assumes "\<And>a. steps_safely True (f a)"
  shows "steps_safely False (bindV requireTlsV f)"
  using assms unfolding steps_safely_def bindV_def requireTlsV_def okV_def failV_def by auto

lemma safely_login: "steps_safely False (loginV E account)"
  unfolding loginV_def by (intro safely_bind safely_after_check safely_basics safely_starttls) (auto split: option.split)

text \<open>A login that succeeds has TLS.\<close>

definition keeps_tls :: "'a sieve \<Rightarrow> bool" where
  "keeps_tls m \<longleftrightarrow> (\<forall>c. sc_tls c \<longrightarrow> sc_tls (snd (m c)))"

lemma keeps_tls_rules [intro!, simp]:
  "keeps_tls (failV e)" "keeps_tls (assertOk r cmd)" "keeps_tls (writeV t)" "keeps_tls (responseV E)"
  "keeps_tls (\<lambda>c. (Inr r, case extractLiteral ls of None \<Rightarrow> c | Some l \<Rightarrow> c\<lparr>sc_lastLiteral := Some l\<rparr>))"
  by (auto simp: keeps_tls_def sieve_defs split: sum.split prod.split option.split)

lemma keeps_tls_bind [intro]: "keeps_tls m \<Longrightarrow> (\<And>a. keeps_tls (f a)) \<Longrightarrow> keeps_tls (bindV m f)"
  unfolding keeps_tls_def bindV_def by (auto split: prod.split sum.split)

definition ends_tls :: "'a sieve \<Rightarrow> bool" where
  "ends_tls m \<longleftrightarrow> (\<forall>c a c'. m c = (Inr a, c') \<longrightarrow> sc_tls c')"

lemma ends_tls_bind: "(\<And>a. ends_tls (f a)) \<Longrightarrow> ends_tls (bindV m f)"
  unfolding ends_tls_def bindV_def by (auto split: prod.splits sum.splits)

lemma ends_tls_check: "(\<And>a. keeps_tls (f a)) \<Longrightarrow> ends_tls (bindV requireTlsV f)"
  unfolding ends_tls_def keeps_tls_def bindV_def requireTlsV_def okV_def failV_def by (fastforce split: if_splits)

lemma login_tls: "ends_tls (loginV E account)"
  unfolding loginV_def sendCommand_def
  by (intro ends_tls_bind ends_tls_check) (auto split: option.split)

lemma opened:
  assumes "list_all harmless (sc_log c)" and "openConn E account c = (r, c')"
  shows "list_all harmless (sc_log c') \<and>
    (case r of Inl _ \<Rightarrow> open_sockets (sc_log c') = open_sockets (sc_log c)
     | Inr _ \<Rightarrow> open_sockets (sc_log c') = open_sockets (sc_log c) + 1 \<and> sc_tls c')"
proof (cases "se_tcp E (sieve_host account) (sieve_port account)")
  case (Inl e)
  then show ?thesis using assms by (auto simp: openConn_def bindV_def connectTcp_def)
next
  case (Inr arrivals)
  let ?c = "\<lparr>sc_tls = False, sc_buf = [], sc_arrivals = arrivals, sc_lastCaps = [], sc_lastLiteral = None, sc_log = sc_log c @ [Connected]\<rparr>"
  obtain x d where d: "loginV E account ?c = (x, d)" by (cases "loginV E account ?c")
  have log: "list_all harmless (sc_log d)" "open_sockets (sc_log d) = open_sockets (sc_log c) + 1"
    using safely_login [of E account] assms(1) d unfolding steps_safely_def
    by (auto dest!: spec [of _ ?c])
  show ?thesis
  proof (cases x)
    case (Inl e)
    then show ?thesis using assms Inr d log by (auto simp: openConn_def bindV_def connectTcp_def)
  next
    case R: (Inr u)
    have "sc_tls d" using login_tls d R unfolding ends_tls_def by blast
    then show ?thesis using assms Inr d log R by (auto simp: openConn_def bindV_def connectTcp_def)
  qed
qed

lemma safely_connected:
  assumes action: "steps_safely True action" and c: "list_all harmless (sc_log c)"
  shows "list_all harmless (sc_log (snd (withConnection E account action c))) \<and>
    open_sockets (sc_log (snd (withConnection E account action c))) = open_sockets (sc_log c)"
proof -
  obtain r c1 where r: "openConn E account c = (r, c1)" by (cases "openConn E account c")
  note o1 = opened [OF c r]
  show ?thesis
  proof (cases r)
    case (Inl e)
    then show ?thesis using o1 r by (simp add: withConnection_def bindV_def)
  next
    case (Inr u)
    obtain x c2 where x: "action c1 = (x, c2)" by (cases "action c1")
    have "list_all harmless (sc_log c2) \<and> open_sockets (sc_log c2) = open_sockets (sc_log c) + 1"
      using action o1 Inr x unfolding steps_safely_def by (auto dest!: spec [of _ c1])
    then show ?thesis using r Inr x by (simp add: withConnection_def bindV_def destroying_def)
  qed
qed

datatype sieve_call =
    StatusCall
  | ListCall
  | GetCall string
  | PutCall string string
  | DeleteScriptCall string
  | ActivateCall string

definition run_sieve :: "sieve_env \<Rightarrow> accountConfig \<times> sieve_call \<Rightarrow> sieve_conn \<Rightarrow> sieve_conn" where
  "run_sieve E call c =
     (case call of
        (account, StatusCall) \<Rightarrow> snd (sieve_status E account c)
      | (account, ListCall) \<Rightarrow> snd (listScripts E account c)
      | (account, GetCall name) \<Rightarrow> snd (getScript E account name c)
      | (account, PutCall name content) \<Rightarrow> snd (putScript E account name content c)
      | (account, DeleteScriptCall name) \<Rightarrow> snd (deleteScript E account name c)
      | (account, ActivateCall name) \<Rightarrow> snd (activateScript E account name c))"

definition no_conn :: sieve_conn where
  "no_conn = \<lparr>sc_tls = False, sc_buf = [], sc_arrivals = [], sc_lastCaps = [], sc_lastLiteral = None, sc_log = []\<rparr>"

lemma checked_call:
  "list_all harmless (sc_log (snd (m c))) \<and> open_sockets (sc_log (snd (m c))) = open_sockets (sc_log c) \<Longrightarrow> list_all harmless (sc_log c) \<Longrightarrow>
   list_all harmless (sc_log (snd (bindV (checkV x) (\<lambda>_. m) c))) \<and> open_sockets (sc_log (snd (bindV (checkV x) (\<lambda>_. m) c))) = open_sockets (sc_log c)"
  by (auto simp: sieve_defs split: sum.split)

lemma safely_run_sieve:
  assumes c: "list_all harmless (sc_log c)"
  shows "list_all harmless (sc_log (run_sieve E call c)) \<and> open_sockets (sc_log (run_sieve E call c)) = open_sockets (sc_log c)"
proof -
  obtain account op where call: "call = (account, op)" by (cases call)
  have list: "steps_safely True (commandList E)" unfolding commandList_def by auto
  have status: "steps_safely True (statusAction E account)" unfolding statusAction_def using list by auto
  note ops = listScripts_def getScript_def putScript_def deleteScript_def activateScript_def
  show ?thesis
  proof (cases op)
    case StatusCall
    then show ?thesis using safely_connected [OF status c, of E account]
      by (auto simp: run_sieve_def call sieve_status_def split: prod.splits sum.splits)
  qed (auto simp: run_sieve_def call ops intro!: checked_call safely_connected list c safely_bind)
qed

text \<open>
  C12: whatever the server answers and whatever scripts are asked for, the client writes nothing but the
  request for TLS to a socket without TLS, so neither the password nor a script travels in clear, and every
  socket it connects is destroyed when the call is over.
\<close>

theorem password_only_over_tls:
  "list_all harmless (sc_log (foldl (\<lambda>c call. run_sieve E call c) no_conn calls)) \<and>
   open_sockets (sc_log (foldl (\<lambda>c call. run_sieve E call c) no_conn calls)) = 0"
proof (induction calls rule: rev_induct)
  case Nil
  then show ?case by (simp add: no_conn_def)
next
  case (snoc call calls)
  then show ?case using safely_run_sieve [of "foldl (\<lambda>c call. run_sieve E call c) no_conn calls" E call] by simp
qed

section \<open>The pieces of a reply\<close>

definition extends :: "(string \<Rightarrow> ('a \<times> string) option) \<Rightarrow> bool" where
  "extends consume \<longleftrightarrow> (\<forall>b a r x. consume b = Some (a, r) \<longrightarrow> consume (b @ x) = Some (a, r @ x))"

lemma extends_line: "extends (consume_line dec)"
proof -
  have "takeWhile (\<lambda>c. c \<noteq> LF) (b @ x) = takeWhile (\<lambda>c. c \<noteq> LF) b" if "LF \<in> set b" for b x
    using that by (simp add: takeWhile_append1)
  moreover have "length (takeWhile (\<lambda>c. c \<noteq> LF) b) < length b" if "LF \<in> set b" for b
    using that by (metis (mono_tags, lifting) length_takeWhile_le le_neq_implies_less takeWhile_eq_all_conv takeWhile_eq_take take_all_iff nat_le_linear)
  then have "drop (Suc (length (takeWhile (\<lambda>c. c \<noteq> LF) b))) (b @ x) = drop (Suc (length (takeWhile (\<lambda>c. c \<noteq> LF) b))) b @ x"
    if "LF \<in> set b" for b x
    using that by (simp add: Suc_leI)
  ultimately show ?thesis by (auto simp del: drop_append simp: extends_def consume_line_def Let_def split: if_splits)
qed

lemma extends_bytes: "extends (consume_bytes dec n)"
  by (auto simp: extends_def consume_bytes_def split: if_splits)

lemma wait_chunks:
  assumes "extends consume" and "bytes + length (concat cs) \<le> MAX_SIEVE_RESPONSE_BYTES"
  shows "case consume (buf @ concat cs) of
      None \<Rightarrow> wait_for consume buf bytes (map Chunk cs) = Inl ResponseTimeout
    | Some (a, r) \<Rightarrow> \<exists>buf' bytes' cs'. wait_for consume buf bytes (map Chunk cs) = Inr (a, buf', bytes', map Chunk cs') \<and>
        buf' @ concat cs' = r \<and> bytes' + length (concat cs') = bytes + length (concat cs)"
  using assms(2)
proof (induction cs arbitrary: buf bytes)
  case Nil
  then show ?case by (auto split: option.split)
next
  case (Cons c cs)
  show ?case
  proof (cases "consume buf")
    case None
    then have step: "wait_for consume buf bytes (map Chunk (c # cs)) = wait_for consume (buf @ c) (bytes + length c) (map Chunk cs)"
      using Cons.prems by simp
    have len: "bytes + length (concat (c # cs)) = bytes + length c + length (concat cs)" by simp
    have "bytes + length c + length (concat cs) \<le> MAX_SIEVE_RESPONSE_BYTES" using Cons.prems by simp
    then show ?thesis using Cons.IH [of "bytes + length c" "buf @ c"] unfolding step len by simp
  next
    case (Some ar)
    obtain a r where ar: "ar = (a, r)" by (cases ar)
    have w1: "consume (buf @ concat (c # cs)) = Some (a, r @ concat (c # cs))" using assms(1) Some ar unfolding extends_def by blast
    have w2: "wait_for consume buf bytes (map Chunk (c # cs)) = Inr (a, r, bytes, map Chunk (c # cs))" using Some ar by simp
    show ?thesis unfolding w1 w2 option.case prod.case by blast
  qed
qed

definition reply_of :: "sieve_error + (sieve_response \<times> string \<times> arrival list) \<Rightarrow> sieve_error + (sieve_response \<times> string)" where
  "reply_of r = (case r of Inl e \<Rightarrow> Inl e | Inr (resp, buf, rest) \<Rightarrow> Inr (resp, buf @ concat (map (\<lambda>x. case x of Chunk c \<Rightarrow> c | _ \<Rightarrow> []) rest)))"

lemma chunk_texts [simp]: "map (\<lambda>x. case x of Chunk c \<Rightarrow> c | _ \<Rightarrow> []) (map Chunk cs) = cs"
  by (induction cs) simp_all

lemma chunk_comp [simp]: "(\<lambda>x. case x of Chunk c \<Rightarrow> c | _ \<Rightarrow> []) \<circ> Chunk = (\<lambda>c. c)"
  by (simp add: comp_def)

lemma pending_chunks [simp]: "pending (map Chunk cs) = length (concat cs)"
  by (induction cs) (simp_all add: pending_def)

lemma chunks_whole:
  "bytes + length (concat cs) \<le> MAX_SIEVE_RESPONSE_BYTES \<Longrightarrow>
   reply_of (read_lines dec buf bytes (map Chunk cs) ls) = reply_of (read_lines dec (buf @ concat cs) b [] ls)"
proof (induction "length (buf @ concat cs)" arbitrary: buf bytes cs ls b rule: less_induct)
  case less
  let ?s = "buf @ concat cs"
  have whole: "wait_for consume s n [] = (case consume s of Some (a, r) \<Rightarrow> Inr (a, r, n, []) | None \<Rightarrow> Inl ResponseTimeout)" for consume :: "string \<Rightarrow> (string \<times> string) option" and s n
    by (simp split: option.split)
  show ?case
  proof (cases "consume_line dec ?s")
    case None
    then have "wait_for (consume_line dec) buf bytes (map Chunk cs) = Inl ResponseTimeout"
      using wait_chunks [OF extends_line less.prems, of dec buf] by simp
    then show ?thesis using None by (simp add: read_lines.simps [of dec buf] read_lines.simps [of dec ?s] reply_of_def)
  next
    case (Some ar)
    obtain line r where ar: "consume_line dec ?s = Some (line, r)" using Some by (cases ar) simp
    obtain buf1 bytes1 cs1 where w1: "wait_for (consume_line dec) buf bytes (map Chunk cs) = Inr (line, buf1, bytes1, map Chunk cs1)"
        "buf1 @ concat cs1 = r" "bytes1 + length (concat cs1) = bytes + length (concat cs)"
      using wait_chunks [OF extends_line less.prems, of dec buf] ar by auto
    have shorter: "length r < length ?s" by (rule consumed_line_shorter [OF ar])
    note start = read_lines.simps [of dec buf bytes "map Chunk cs" ls] read_lines.simps [of dec ?s b "[]" ls]
    show ?thesis
    proof (cases "status_code line")
      case (Some code)
      then show ?thesis using w1 ar by (simp add: start reply_of_def)
    next
      case no_status: None
      show ?thesis
      proof (cases "literal_length line")
        case None
        have "length (buf1 @ concat cs1) < length ?s" using shorter w1 by simp
        from less.hyps [OF this, of bytes1 "ls @ [line]" b] show ?thesis
          using w1 ar no_status None less.prems by (simp add: start)
      next
        case lit: (Some n)
        show ?thesis
        proof (cases "consume_bytes dec n r")
          case None
          have "wait_for (consume_bytes dec n) buf1 bytes1 (map Chunk cs1) = Inl ResponseTimeout"
            using wait_chunks [OF extends_bytes, of bytes1 cs1 dec n buf1] w1 less.prems None by simp
          then show ?thesis using w1 ar no_status lit None by (simp add: start reply_of_def)
        next
          case (Some pr)
          obtain payload r2 where pr: "consume_bytes dec n r = Some (payload, r2)" using Some by (cases pr) simp
          obtain buf2 bytes2 cs2 where w2: "wait_for (consume_bytes dec n) buf1 bytes1 (map Chunk cs1) = Inr (payload, buf2, bytes2, map Chunk cs2)"
              "buf2 @ concat cs2 = r2" "bytes2 + length (concat cs2) = bytes1 + length (concat cs1)"
            using wait_chunks [OF extends_bytes, of bytes1 cs1 dec n buf1] w1 less.prems pr by auto
          have le2: "length r2 \<le> length r" by (rule consumed_bytes_shorter [OF pr])
          show ?thesis
          proof (cases "consume_line dec r2")
            case None
            have "wait_for (consume_line dec) buf2 bytes2 (map Chunk cs2) = Inl ResponseTimeout"
              using wait_chunks [OF extends_line, of bytes2 cs2 dec buf2] w1 w2 less.prems None by simp
            then show ?thesis using w1 w2 ar no_status lit pr None by (simp add: start reply_of_def)
          next
            case (Some lr)
            obtain l3 r3 where lr: "consume_line dec r2 = Some (l3, r3)" using Some by (cases lr) simp
            obtain buf3 bytes3 cs3 where w3: "wait_for (consume_line dec) buf2 bytes2 (map Chunk cs2) = Inr (l3, buf3, bytes3, map Chunk cs3)"
                "buf3 @ concat cs3 = r3" "bytes3 + length (concat cs3) = bytes2 + length (concat cs2)"
              using wait_chunks [OF extends_line, of bytes2 cs2 dec buf2] w1 w2 less.prems lr by auto
            have "length (buf3 @ concat cs3) < length ?s" using shorter le2 consumed_line_shorter [OF lr] w3 by simp
            from less.hyps [OF this, of bytes3 "ls @ [payload]" b] show ?thesis
              using w1 w2 w3 ar no_status lit pr lr less.prems by (simp add: start reply_of_def)
          qed
        qed
      qed
    qed
  qed
qed

text \<open>
  C27: a reply is read the same however the network cuts it: two deliveries of the same octets, within the
  limit of a reply, give the same status, lines and literals and leave the same octets unread.
\<close>

theorem reply_read_alike:
  assumes "concat cs = concat ds" and "length (concat cs) \<le> MAX_SIEVE_RESPONSE_BYTES"
  shows "reply_of (readResponse dec [] (map Chunk cs)) = reply_of (readResponse dec [] (map Chunk ds))"
  using chunks_whole [of 0 cs dec "[]" "[]" 0] chunks_whole [of 0 ds dec "[]" "[]" 0] assms by (simp add: readResponse_def)

theorem reply_read_alike_witness:
  "reply_of (readResponse id [] (map Chunk [''{3}'' @ CRLF @ ''ab'', ''c'' @ CRLF, ''OK'' @ CRLF])) =
   reply_of (readResponse id [] (map Chunk [''{3}'' @ CRLF @ ''abc'' @ CRLF @ ''OK'' @ CRLF]))"
  by (rule reply_read_alike) (simp_all add: CRLF_def MAX_SIEVE_RESPONSE_BYTES_def MAX_SIEVE_SCRIPT_BYTES_def)

section \<open>Names\<close>

text \<open>A script as a server lists it.\<close>

definition script_line :: "sieveScriptInfo \<Rightarrow> string" where
  "script_line i = quoted (si_name i) @ (if si_active i then '' ACTIVE'' else [])"

lemma quote_Nil [simp]: "quoteSieve [] = []"
  by (simp add: quoteSieve_def replace_char_def)

lemma quote_Cons [simp]:
  "quoteSieve (c # s) = (if c = QUOTE \<or> c = BACKSLASH then BACKSLASH # c # quoteSieve s else c # quoteSieve s)"
  by (auto simp: quoteSieve_def replace_char_def QUOTE_def BACKSLASH_def)

lemma scan_quote: "scan_quoted (quoteSieve name @ QUOTE # r) = Some (quoteSieve name, r)"
proof (induction name)
  case (Cons c name)
  then show ?case by (auto simp: QUOTE_def BACKSLASH_def LF_def CR_def)
qed simp

lemma unescape_plain: "c \<noteq> BACKSLASH \<Longrightarrow> unescape_quoted (c # s) = c # unescape_quoted s"
  by (cases s) simp_all

lemma unescape_quote: "unescape_quoted (quoteSieve name) = name"
  by (induction name) (auto simp: unescape_plain)

lemma trim_framed: "\<not> is_space a \<Longrightarrow> \<not> is_space b \<Longrightarrow> trim (a # s @ [b]) = a # s @ [b]"
  by (simp add: trim_def)

lemma script_line_read: "parse_script_line (script_line i) = Some i"
proof (cases i)
  case (fields name active)
  have ends: "\<not> is_space QUOTE" "\<not> is_space CHR ''E''" by (simp_all add: is_space_def QUOTE_def)
  show ?thesis
  proof (cases active)
    case True
    have "trim (QUOTE # (quoteSieve name @ QUOTE # '' ACTIV'') @ ''E'') = QUOTE # (quoteSieve name @ QUOTE # '' ACTIV'') @ ''E''"
      by (rule trim_framed [OF ends])
    then have "trim (script_line i) = QUOTE # quoteSieve name @ QUOTE # '' ACTIVE''"
      using True fields by (simp add: script_line_def quoted_def)
    moreover have "active_mark '' ACTIVE'' = Some True" by code_simp
    ultimately show ?thesis using True fields
      by (simp add: parse_script_line_def scan_quote [of name "'' ACTIVE''"] unescape_quote)
  next
    case False
    have "trim (QUOTE # quoteSieve name @ [QUOTE]) = QUOTE # quoteSieve name @ [QUOTE]"
      by (rule trim_framed [OF ends(1) ends(1)])
    then have "trim (script_line i) = QUOTE # quoteSieve name @ [QUOTE]" using False fields by (simp add: script_line_def quoted_def)
    moreover have "active_mark [] = Some False" by code_simp
    ultimately show ?thesis using False fields
      by (simp add: parse_script_line_def scan_quote [of name "[]"] unescape_quote)
  qed
qed

text \<open>
  A list of scripts as a server writes it, each name quoted the way this client quotes names in its own
  commands, is read back exactly: every name with its quotes and backslashes, and which script is active.
\<close>

theorem script_names_read_back: "parseListScripts (map script_line infos) = infos"
  by (induction infos) (simp_all add: parseListScripts_def script_line_read List.map_filter_simps)

text \<open>A name that is let through stays on the line of its command and ends at its own closing quote.\<close>

lemma accepted_name_one_line:
  assumes "assertSieveScriptName name allowEmpty = Inr ()"
  shows "LF \<notin> set (quoted name)" "CR \<notin> set (quoted name)" "scan_quoted (drop 1 (quoted name) @ rest) = Some (quoteSieve name, rest)"
proof -
  have chars: "set (quoteSieve n) \<subseteq> set n \<union> {BACKSLASH}" for n by (induction n) auto
  have "LF \<notin> set name" "CR \<notin> set name"
    using assms by (auto simp: assertSieveScriptName_def script_name_control_def LF_def CR_def list_ex_iff split: if_splits)
  then show "LF \<notin> set (quoted name)" "CR \<notin> set (quoted name)"
    using chars [of name] by (auto simp: quoted_def QUOTE_def BACKSLASH_def LF_def CR_def)
  show "scan_quoted (drop 1 (quoted name) @ rest) = Some (quoteSieve name, rest)"
    using scan_quote [of name rest] by (simp add: quoted_def)
qed

section \<open>A script sent as a quoted text\<close>

text \<open>
  A server may send a script without line breaks as a quoted text (RFC 5804); no literal is found in such a
  reply, so the script is shown as empty.
\<close>

lemma quoted_script_is_dropped: "extractLiteral [quoted script] = None"
  by (simp add: extractLiteral_def quoted_def starts_with_def)

end
