(* ===== verification/Untrusted.thy ===== *)
theory Untrusted
  imports Prelude
begin

text \<open>
  The frame around text that arrived from outside (src/safety/untrusted-content.ts). \<open>replace_all\<close> is
  JavaScript's \<open>replaceAll\<close> with a text pattern that is not empty. The lemmas show that the framed
  text holds neither marker, so it cannot close the frame early or open another.
\<close>

section \<open>Replacing a text\<close>

function replace_all :: "string \<Rightarrow> string \<Rightarrow> string \<Rightarrow> string" where
  "replace_all pat rep [] = []"
| "replace_all pat rep (c # s) =
     (if pat \<noteq> [] \<and> starts_with pat (c # s) then rep @ replace_all pat rep (drop (length pat) (c # s))
      else c # replace_all pat rep s)"
  by pat_completeness auto
termination by (relation "measure (\<lambda>(p, r, s). length s)") auto

fun occurs :: "string \<Rightarrow> string \<Rightarrow> bool" where
  "occurs pat [] \<longleftrightarrow> pat = []"
| "occurs pat (c # s) \<longleftrightarrow> starts_with pat (c # s) \<or> occurs pat s"

lemma starts_with_Cons: "starts_with (p # ps) (c # s) \<longleftrightarrow> p = c \<and> starts_with ps s"
  by (auto simp: starts_with_def)

lemma starts_with_ends [simp]: "starts_with [] s" "\<not> starts_with (p # ps) []"
  by (simp_all add: starts_with_def)

lemma replace_all_miss:
  "\<not> (pat \<noteq> [] \<and> starts_with pat (c # s)) \<Longrightarrow> replace_all pat rep (c # s) = c # replace_all pat rep s"
  unfolding replace_all.simps by (rule if_not_P)

text \<open>A text without the first sign of the replacement begins the result only where it began the input.\<close>

lemma starts_with_replaced:
  "r \<notin> set p \<Longrightarrow> starts_with p (replace_all pat (r # rep) s) \<Longrightarrow> starts_with p s"
proof (induction p arbitrary: s)
  case (Cons a p)
  then show ?case by (cases s) (auto simp: starts_with_Cons split: if_splits)
qed simp

lemma occurs_append: "p \<notin> set a \<Longrightarrow> occurs (p # ps) (a @ s) \<longleftrightarrow> occurs (p # ps) s"
  by (induction a) (auto simp: starts_with_Cons)

lemma occurs_dropped: "occurs p (drop n s) \<Longrightarrow> p \<noteq> [] \<Longrightarrow> occurs p s"
proof (induction n arbitrary: s)
  case (Suc n)
  then show ?case by (cases s) auto
qed simp

text \<open>Replacing one marker removes it, and brings no other marker in.\<close>

lemma replaced_gone:
  "pat = p # ps \<Longrightarrow> r \<notin> set pat \<Longrightarrow> p \<notin> set (r # rep) \<Longrightarrow> \<not> occurs pat (replace_all pat (r # rep) s)"
proof (induction pat "r # rep" s rule: replace_all.induct)
  case (2 pat c s)
  show ?case
  proof (cases "starts_with pat (c # s)")
    case True
    then have "\<not> occurs pat (replace_all pat (r # rep) (drop (length pat) (c # s)))" using 2 by blast
    then show ?thesis using True 2 occurs_append [of p "r # rep" ps] by simp
  next
    case False
    then have step: "replace_all pat (r # rep) (c # s) = c # replace_all pat (r # rep) s" by (intro replace_all_miss) simp
    have "\<not> occurs pat (replace_all pat (r # rep) s)" using 2 False by blast
    moreover have "\<not> starts_with pat (c # replace_all pat (r # rep) s)"
      using starts_with_replaced [of r pat pat rep "c # s"] False 2 step by metis
    ultimately show ?thesis unfolding step by simp
  qed
qed simp

lemma replaced_brings_none:
  "m = p # ps \<Longrightarrow> r \<notin> set m \<Longrightarrow> p \<notin> set (r # rep) \<Longrightarrow> occurs m (replace_all pat (r # rep) s) \<Longrightarrow> occurs m s"
proof (induction pat "r # rep" s rule: replace_all.induct)
  case (2 pat c s)
  show ?case
  proof (cases "pat \<noteq> [] \<and> starts_with pat (c # s)")
    case True
    then have "occurs m (replace_all pat (r # rep) (drop (length pat) (c # s)))"
      using 2(3-) occurs_append [of p "r # rep" ps] by simp
    then have "occurs m (drop (length pat) (c # s))" using 2 True by blast
    then show ?thesis using occurs_dropped 2(3) by blast
  next
    case False
    have step: "replace_all pat (r # rep) (c # s) = c # replace_all pat (r # rep) s" using False by (rule replace_all_miss)
    then consider "starts_with m (replace_all pat (r # rep) (c # s))" | "occurs m (replace_all pat (r # rep) s)"
      using 2(6) by auto
    then show ?thesis
    proof cases
      case 1
      then have "starts_with m (c # s)" using starts_with_replaced 2(4) by blast
      then show ?thesis by simp
    next
      case 2
      then show ?thesis using "2.hyps"(2) "2.prems" False by auto
    qed
  qed
qed simp

section \<open>The frame\<close>

definition UNTRUSTED_BEGIN :: string where "UNTRUSTED_BEGIN = ''<<<UNTRUSTED_EXTERNAL_CONTENT>>>''"
definition UNTRUSTED_END :: string where "UNTRUSTED_END = ''<<<END_UNTRUSTED_EXTERNAL_CONTENT>>>''"
definition QUOTED_BEGIN :: string where "QUOTED_BEGIN = ''[[[UNTRUSTED_EXTERNAL_CONTENT]]]''"
definition QUOTED_END :: string where "QUOTED_END = ''[[[END_UNTRUSTED_EXTERNAL_CONTENT]]]''"

definition safe_untrusted :: "string \<Rightarrow> string" where
  "safe_untrusted value = replace_all UNTRUSTED_BEGIN QUOTED_BEGIN (replace_all UNTRUSTED_END QUOTED_END value)"

definition delimitUntrusted :: "string \<Rightarrow> string" where
  "delimitUntrusted value = UNTRUSTED_BEGIN @ [CHR 0x0A] @ safe_untrusted value @ [CHR 0x0A] @ UNTRUSTED_END"

lemma occurs_end: "q \<notin> set m \<Longrightarrow> m \<noteq> [] \<Longrightarrow> occurs m (s @ q # t) \<longleftrightarrow> occurs m s \<or> occurs m t"
proof (induction s)
  case (Cons c s)
  have "starts_with m (c # s @ q # t) \<longleftrightarrow> starts_with m (c # s)"
    using Cons.prems(1) by (auto simp: starts_with_iff append_eq_append_conv2 Cons_eq_append_conv append_eq_Cons_conv)
  with Cons show ?case by auto
qed (auto simp: starts_with_iff Cons_eq_append_conv)

lemma safe_has_no_marker:
  "\<not> occurs UNTRUSTED_BEGIN (safe_untrusted v)" "\<not> occurs UNTRUSTED_END (safe_untrusted v)"
proof -
  show "\<not> occurs UNTRUSTED_BEGIN (safe_untrusted v)"
    unfolding safe_untrusted_def QUOTED_BEGIN_def
    by (rule replaced_gone [OF UNTRUSTED_BEGIN_def]) (simp_all add: UNTRUSTED_BEGIN_def)
  have "\<not> occurs UNTRUSTED_END (replace_all UNTRUSTED_END QUOTED_END v)"
    unfolding QUOTED_END_def by (rule replaced_gone [OF UNTRUSTED_END_def]) (simp_all add: UNTRUSTED_END_def)
  then show "\<not> occurs UNTRUSTED_END (safe_untrusted v)"
    unfolding safe_untrusted_def QUOTED_BEGIN_def
    using replaced_brings_none [OF UNTRUSTED_END_def, of "CHR ''[''" "''[[UNTRUSTED_EXTERNAL_CONTENT]]]''"]
    by (auto simp: UNTRUSTED_END_def)
qed

text \<open>
  C32: text from outside always sits in one frame: between the opening line and the closing line there
  is no opening and no closing marker, whatever the text holds.
\<close>

theorem untrusted_text_stays_framed:
  "delimitUntrusted v = UNTRUSTED_BEGIN @ [CHR 0x0A] @ safe_untrusted v @ [CHR 0x0A] @ UNTRUSTED_END \<and>
   \<not> occurs UNTRUSTED_END (UNTRUSTED_BEGIN @ [CHR 0x0A] @ safe_untrusted v) \<and>
   \<not> occurs UNTRUSTED_BEGIN (safe_untrusted v @ [CHR 0x0A] @ UNTRUSTED_END)"
proof -
  have "CHR 0x0A \<notin> set UNTRUSTED_END" "CHR 0x0A \<notin> set UNTRUSTED_BEGIN" "UNTRUSTED_END \<noteq> []" "UNTRUSTED_BEGIN \<noteq> []"
    "\<not> occurs UNTRUSTED_END UNTRUSTED_BEGIN" "\<not> occurs UNTRUSTED_BEGIN UNTRUSTED_END"
    by (simp_all add: UNTRUSTED_END_def UNTRUSTED_BEGIN_def starts_with_def)
  then show ?thesis using safe_has_no_marker [of v] by (simp add: delimitUntrusted_def occurs_end)
qed

end
