(* ===== verification/Spec2Isabelle.thy ===== *)
theory Spec2Isabelle
  imports RateLimiter Backoff HttpSessions FileClaim WriterLease Scheduler Validation LocalPaths
    HttpGuard HttpHost Notifier HeaderText ImapThread MimeParts ImapCore ImapOps IsoDates
    BodyText Redaction AuthHeaders Outgoing Templates CalendarState ImapRead ImapList Smtp Sieve
    EmailHtml Watcher MailArrival Connections Labels Untrusted Hooks
begin

text \<open>
  Mailoo is an e-mail server for AI assistants (TypeScript, under src/src): tools over IMAP and SMTP,
  with a mailbox watcher, hooks on arriving mail, and scheduled sending that several processes of one
  machine share. This library models the parts that decide: what may be sent, when, how often and by
  which process; which connections, sessions, locks and claims exist; which paths, hosts, names and
  texts are let through; and what happens to each arriving message. Paths below are relative to src/.

  \<^bold>\<open>Parts and theories.\<close>

  \<^item> \<open>Prelude\<close>: ordered maps (JavaScript \<open>Map\<close>), results as sums, strings, the locales
    \<open>keyed_store\<close> (operations that touch one key) and \<open>invariant_system\<close> (step relations).
    \<open>Texts\<close>: digits, splitting, pattern combinators for the regular expressions of the code.
    \<open>Types\<close>: the records of types/index.ts.
  \<^item> \<open>RateLimiter\<close> (safety/rate-limiter.ts), \<open>Backoff\<close> (connections/backoff.ts): token buckets and
    reconnect delays per account. The sends of any stretch of time are bounded; the refusal window has
    a closed form.
  \<^item> \<open>Connections\<close> (connections/manager.ts, connections/auth.ts): account lookup, options, and the
    pools of IMAP clients and SMTP transports, whose callers, attempts and events interleave freely.
    One open connection per account and protocol, none outside the maps, none left by \<open>closeAll\<close>; a
    named account is never confused with another.
  \<^item> \<open>HttpSessions\<close> (safety/http-sessions.ts): the session table with its eviction loop. It keeps its
    cap, never drops a busy session, and closes what it drops.
  \<^item> \<open>FileClaim\<close> (utils/file-claim.ts): lock-file claims, once as sequential calls and once as
    processes that interleave one file-system call at a time; the first refines the second. Claims
    renewed in time exclude each other; without that a take-over race lets two processes in.
  \<^item> \<open>WriterLease\<close> (safety/writer-lease.ts, safety/stdio-writers.ts, safety/write-side-effects.ts,
    safety/shutdown.ts, safety/stdio-lifecycle.ts): one process runs watcher, hooks and scheduler;
    the lease is freed after the writers stopped; shutdown runs in order within its deadline.
  \<^item> \<open>SendAt\<close>, \<open>Scheduler\<close> (services/scheduler.service.ts): the date grammar and calendar, the queue
    files, scheduling, cancelling and the delivery loop with every write that may fail. Accepted dates
    are exactly the real instants; at most three hand-offs per mail; no second send after acceptance.
  \<^item> \<open>Validation\<close> (safety/validation.ts): names, queries, message ids, template variables, webhook
    hosts and their addresses in every spelling.
  \<^item> \<open>LocalPaths\<close> (safety/local-paths.ts): which local files may be read or written, and attachment
    file names.
  \<^item> \<open>Untrusted\<close> (safety/untrusted-content.ts): the frame around text from outside.
  \<^item> \<open>EmailHtml\<close> (utils/email-html.ts, the HTML half of utils/email-body.ts): entities, attributes and
    the tag walk over UTF-16 code units. Well-formed markup is sanitized exactly; two malformed tags are
    shown to get through. The last section below ties the decoder to the escaping of template values.
  \<^item> \<open>Watcher\<close> (services/watcher.service.ts, services/event-bus.ts): the state of each watched folder.
    No message is announced twice, none past the baseline is skipped, no folder is forgotten.
  \<^item> \<open>Hooks\<close> (services/hooks.service.ts): glob rules (written as regular expressions and read back),
    the bounded queue, batches, rule actions and triage. Each accepted message is announced once; the
    model is asked at most ten times a minute.
  \<^item> \<open>MailPolicy\<close>, \<open>MailArrival\<close>, \<open>EmailText\<close> (services/mail-arrival, utils/email-body.ts): the
    classifier's questions, answers and decision, and the record of seen messages.
  \<^item> \<open>Labels\<close> (services/label-strategy.ts, services/protected-mailboxes.ts, services/mailbox-lock.ts):
    the three label strategies as one interface, lock discipline, honest results, protected folders.

  \<^bold>\<open>How they meet.\<close> The watcher reports new mail on the event bus; the hooks queue it, apply rules, or
  hand it to the classifier or to a model, and act through the label strategies and the IMAP service.
  Watcher, hooks and scheduler run only in the process that holds the writer lease; the lease and each
  scheduled mail are file claims (\<open>WriterLease\<close> and \<open>Scheduler\<close> use \<open>FileClaim\<close>). The watcher and the
  connection manager use \<open>Backoff\<close>.

  \<^bold>\<open>Conventions.\<close> Asynchronous functions are cut where they await when other calls can come in between
  (claims, lease steps, connection attempts, notices of arriving mail) and run as one step elsewhere; a
  flush of the hook queue is one step, since it reads the queue only at its start. Interleavings are
  step relations or lists of events. Times and scores are rationals, strings are one character per code
  unit and fold case on ASCII. The URL parser, the resolver, \<open>realpath\<close>, \<open>JSON.parse\<close>, the clock,
  randomness and every server answer are arguments. Loops are structural or have a measure: the eviction
  loop of \<open>HttpSessions\<close> shrinks the table, \<open>claim_run_refines\<close> needs six calls, and no other fuel is
  used.

  \<^bold>\<open>What modelling showed.\<close> A race in the take-over of stale claims (\<open>takeover_race_two_holders\<close>); a
  sanitized attachment name that is hidden (\<open>leading_dot_behind_space\<close>); nineteen sends where a comment
  says ten (\<open>window_admits_nineteen\<close>); a calendar record that ignores the folder
  (\<open>calendar_key_ignores_folder\<close>); a label fallback that an inaccessible INBOX never reaches
  (\<open>detection_needs_inbox_lock\<close>); markup that the HTML sanitizer lets through or makes dangerous
  (\<open>sanitizer_lets_script_through\<close>, \<open>sanitizer_makes_script_link\<close>, \<open>remote_image_kept\<close>), and an entity
  name looked up among inherited properties (\<open>inherited_entity\<close>).

  \<^bold>\<open>Not modelled.\<close> The IMAP, SMTP, OAuth, Sieve and notifier services, the HTTP transport around the
  session table, configuration loading, audit and redaction, templates and presets are left for later stages. Tools, prompts, resources and the command line only
  wrap the services; calendars, reminders and the install count drive other programs.
\<close>

section \<open>Escaping and decoding\<close>

lemma decode_plain: "c \<noteq> CHR ''&'' \<Longrightarrow> decodeEntities (of_char c # s) = of_char c # decodeEntities s"
proof -
  assume "c \<noteq> CHR ''&''"
  then have "(of_char c :: int) \<noteq> of_char CHR ''&''" by (simp only: of_char_eq_iff not_False_eq_True)
  then show ?thesis by simp
qed

lemma decode_escaped: "decodeEntities (lit (escape_char c) @ s) = of_char c # decodeEntities s"
proof -
  have named: "NAMED_ENTITIES = [([110, 98, 115, 112], [32]), ([108, 116], [60]), ([103, 116], [62]), ([97, 109, 112], [38]),
      ([113, 117, 111, 116], [34]), ([97, 112, 111, 115], [39]), (lit ''constructor'', lit ''function Object() { [native code] }'')]"
    by (simp add: NAMED_ENTITIES_def) (simp add: lit_def)
  show ?thesis
    using decode_plain [of c s]
    by (simp add: escape_char_def lit_def after_semicolon_def letter_unit_def upper_unit_def digit_unit_def named asciiLower_def
        lower_unit_def code_text_def parseInt16_def hex_value16_def fromCodePoint_def)
qed

text \<open>
  Decoding the entities of an escaped template value gives the value back, so what a template puts
  into HTML mail is what the reader of that mail shows.
\<close>

theorem escaped_value_decodes: "decodeEntities (lit (sanitizeTemplateVariable v True)) = lit v"
  unfolding sanitize_one_pass
proof (induction v)
  case (Cons c v)
  have "lit (concat (map escape_char (c # v))) = lit (escape_char c) @ lit (concat (map escape_char v))"
    by (simp add: lit_def)
  then show ?case using Cons decode_escaped by (simp add: lit_def)
qed (simp add: lit_def)

end
